(* ===== verification/Prelude.thy ===== *)
theory Prelude
  imports "HOL-Library.Word" "HOL-Library.List_Lexorder"
begin

unbundle bit_operations_syntax

text \<open>
  What every component of the development shares: the machine types, the outcome of running a
  piece of C code, checked reads and writes of a C array, and the arithmetic of positional number
  systems (big-endian digit lists), on which the codecs, the byte-order helpers and the ordering
  theorems all rest.
\<close>

section \<open>Machine types\<close>

text \<open>
  The unsigned types keep their width and wrap. A signed 64-bit value is its mathematical value:
  signed overflow is undefined in C, so signed arithmetic goes through the checked operations
  below instead of wrapping. A \<open>size_t\<close> that only counts bytes of a buffer is a \<open>nat\<close>.
\<close>

type_synonym u8 = "8 word"
type_synonym u16 = "16 word"
type_synonym u32 = "32 word"
type_synonym u64 = "64 word"
type_synonym i64 = int

named_theorems run_simps \<open>unfolding of outcomes\<close>
named_theorems len_simps \<open>lengths of the buffers the operations return\<close>

section \<open>Outcomes\<close>

text \<open>
  \<open>Done x\<close>: the code returns \<open>x\<close>. \<open>Undef\<close>: the execution does something the C standard leaves
  undefined (an access outside an array, a signed overflow). \<open>Waits\<close>: a loop never leaves, because
  the environment never gives it the answer it waits for.
\<close>

datatype 'a run = Done 'a | Undef | Waits

fun run_bind :: "'a run \<Rightarrow> ('a \<Rightarrow> 'b run) \<Rightarrow> 'b run" where
  "run_bind (Done x) f = f x"
| "run_bind Undef f = Undef"
| "run_bind Waits f = Waits"

lemmas [run_simps] = run_bind.simps

lemma run_bind_eq_Done: "run_bind m f = Done y \<longleftrightarrow> (\<exists>x. m = Done x \<and> f x = Done y)"
  by (cases m) auto

lemma run_bind_assoc: "run_bind (run_bind m f) g = run_bind m (\<lambda>x. run_bind (f x) g)"
  by (cases m) auto

lemma run_bind_cong [fundef_cong]:
  "m = m' \<Longrightarrow> (\<And>x. m' = Done x \<Longrightarrow> f x = f' x) \<Longrightarrow> run_bind m f = run_bind m' f'"
  by (cases m') auto

section \<open>Checked array accesses and signed arithmetic\<close>

definition peek :: "'a list \<Rightarrow> nat \<Rightarrow> 'a run" where
  "peek xs i = (if i < length xs then Done (xs ! i) else Undef)"

definition poke :: "'a list \<Rightarrow> nat \<Rightarrow> 'a \<Rightarrow> 'a list run" where
  "poke xs i x = (if i < length xs then Done (xs[i := x]) else Undef)"

text \<open>\<open>memcpy (p + off, xs, length xs)\<close> into the array \<open>p\<close>, and the bytes \<open>p[off .. off + n - 1]\<close>.\<close>

definition buf_put :: "'a list \<Rightarrow> nat \<Rightarrow> 'a list \<Rightarrow> 'a list" where
  "buf_put p off xs = take off p @ xs @ drop (off + length xs) p"

definition buf_get :: "'a list \<Rightarrow> nat \<Rightarrow> nat \<Rightarrow> 'a list" where
  "buf_get p off n = take n (drop off p)"

lemma length_buf_put [len_simps]:
  "off + length xs \<le> length p \<Longrightarrow> length (buf_put p off xs) = length p"
  by (simp add: buf_put_def)

lemma length_buf_get [len_simps]: "off + n \<le> length p \<Longrightarrow> length (buf_get p off n) = n"
  by (simp add: buf_get_def)

lemma buf_put_all: "length xs = length p \<Longrightarrow> buf_put p 0 xs = xs"
  by (simp add: buf_put_def)

lemma buf_get_put: "off \<le> length p \<Longrightarrow> buf_get (buf_put p off xs) off (length xs) = xs"
  by (simp add: buf_get_def buf_put_def)

definition i64_min :: int where "i64_min = - (2 ^ 63)"
definition i64_max :: int where "i64_max = 2 ^ 63 - 1"

definition in_i64 :: "int \<Rightarrow> bool" where
  "in_i64 x \<longleftrightarrow> i64_min \<le> x \<and> x \<le> i64_max"

text \<open>A signed result that \<open>int64_t\<close> cannot hold is undefined behaviour.\<close>

definition i64_chk :: "int \<Rightarrow> int run" where
  "i64_chk x = (if in_i64 x then Done x else Undef)"

lemma i64_chk_Done [run_simps]: "in_i64 x \<Longrightarrow> i64_chk x = Done x"
  by (simp add: i64_chk_def)

lemmas i64_defs = in_i64_def i64_min_def i64_max_def

section \<open>Big-endian digit lists\<close>

text \<open>
  \<open>be_val B ds\<close> is the number the digits \<open>ds\<close> write in base \<open>B\<close>, most significant digit first;
  \<open>be_digits B k n\<close> is the \<open>k\<close>-digit numeral of \<open>n\<close>.
\<close>

primrec be_val :: "nat \<Rightarrow> nat list \<Rightarrow> nat" where
  "be_val B [] = 0"
| "be_val B (d # ds) = d * B ^ length ds + be_val B ds"

primrec be_digits :: "nat \<Rightarrow> nat \<Rightarrow> nat \<Rightarrow> nat list" where
  "be_digits B 0 n = []"
| "be_digits B (Suc k) n = be_digits B k (n div B) @ [n mod B]"

lemma length_be_digits [simp]: "length (be_digits B k n) = k"
  by (induction k arbitrary: n) auto

lemma be_digits_numeral:
  "be_digits B (numeral k) n = be_digits B (pred_numeral k) (n div B) @ [n mod B]"
  by (simp add: numeral_eq_Suc)

lemma be_val_append: "be_val B (xs @ ys) = be_val B xs * B ^ length ys + be_val B ys"
  by (induction xs) (auto simp: power_add algebra_simps)

lemma be_val_snoc [simp]: "be_val B (xs @ [y]) = be_val B xs * B + y"
  by (simp add: be_val_append)

lemma be_val_less: "\<forall>d \<in> set ds. d < B \<Longrightarrow> be_val B ds < B ^ length ds"
proof (induction ds)
  case Nil
  then show ?case by simp
next
  case (Cons d ds)
  then have lt: "be_val B ds < B ^ length ds" and "Suc d \<le> B" by auto
  then have "Suc d * B ^ length ds \<le> B * B ^ length ds" by (intro mult_right_mono) auto
  with lt show ?case by (simp add: algebra_simps)
qed

lemma be_digits_less: "0 < B \<Longrightarrow> \<forall>d \<in> set (be_digits B k n). d < B"
  by (induction k arbitrary: n) auto

lemma be_val_digits: "be_val B (be_digits B k n) = n mod B ^ k"
proof (induction k arbitrary: n)
  case 0
  then show ?case by simp
next
  case (Suc k)
  have "n mod (B * B ^ k) = B * (n div B mod B ^ k) + n mod B"
    by (rule mod_mult2_eq)
  then show ?case by (simp add: Suc.IH algebra_simps)
qed

lemma be_val_digits_fits: "n < B ^ k \<Longrightarrow> be_val B (be_digits B k n) = n"
  by (simp add: be_val_digits)

lemma be_digits_val: "\<forall>d \<in> set ds. d < B \<Longrightarrow> be_digits B (length ds) (be_val B ds) = ds"
proof (induction ds rule: rev_induct)
  case Nil
  then show ?case by simp
next
  case (snoc d ds)
  then have "d < B" by simp
  then have "(be_val B ds * B + d) div B = be_val B ds" and "(be_val B ds * B + d) mod B = d"
    by (simp_all add: div_mult_self3)
  with snoc show ?case by simp
qed

lemma be_val_inj:
  assumes "length xs = length ys" "\<forall>d \<in> set xs. d < B" "\<forall>d \<in> set ys. d < B"
    and "be_val B xs = be_val B ys"
  shows "xs = ys"
  using assms be_digits_val by metis

text \<open>Digit lists of one length compare as their numbers do.\<close>

lemma be_val_mono:
  assumes "length xs = length ys" "\<forall>d \<in> set xs. d < B" "\<forall>d \<in> set ys. d < B"
  shows "xs < ys \<longleftrightarrow> be_val B xs < be_val B ys"
  using assms
proof (induction xs ys rule: list_induct2)
  case Nil
  then show ?case by simp
next
  case (Cons x xs y ys)
  have bx: "be_val B xs < B ^ length ys" and by': "be_val B ys < B ^ length ys"
    using Cons.prems Cons.hyps be_val_less by fastforce+
  have step: "a * B ^ length ys + p < b * B ^ length ys + q"
    if "a < b" "p < B ^ length ys" for a b p q :: nat
  proof -
    have "Suc a * B ^ length ys \<le> b * B ^ length ys"
      using that(1) by (intro mult_right_mono) auto
    then show ?thesis using that(2) by simp
  qed
  consider "x < y" | "x = y" | "y < x" by linarith
  then show ?case
  proof cases
    case 1
    then show ?thesis using step [OF _ bx] Cons.hyps by simp
  next
    case 2
    then show ?thesis using Cons by simp
  next
    case 3
    then show ?thesis using step [OF _ by', of y x "be_val B xs"] Cons.hyps by auto
  qed
qed

text \<open>Regrouping: digits taken in groups of \<open>k\<close> are digits of base \<open>B ^ k\<close>.\<close>

lemma be_val_concat:
  "\<forall>g \<in> set gs. length g = k \<Longrightarrow> be_val B (concat gs) = be_val (B ^ k) (map (be_val B) gs)"
proof (induction gs)
  case Nil
  then show ?case by simp
next
  case (Cons g gs)
  have "\<forall>g \<in> set gs. length g = k \<Longrightarrow> length (concat gs) = k * length gs"
    by (induction gs) auto
  with Cons show ?case by (simp add: be_val_append power_mult)
qed

section \<open>Bytes as digits\<close>

lemma unat_u8_less: "unat (x :: u8) < 256"
  using unsigned_less [of x, where ?'a = nat] by simp

lemma unats_less [simp]: "\<forall>d \<in> set (map unat (xs :: u8 list)). d < 256"
  by (auto simp: unat_u8_less)

definition bytes_val :: "u8 list \<Rightarrow> nat" where
  "bytes_val xs = be_val 256 (map unat xs)"

lemma bytes_val_less: "bytes_val xs < 256 ^ length xs"
  unfolding bytes_val_def using be_val_less [OF unats_less, of xs] by simp

lemma bytes_val_append: "bytes_val (xs @ ys) = bytes_val xs * 256 ^ length ys + bytes_val ys"
  by (simp add: bytes_val_def be_val_append)

lemma map_unat_inj: "map unat (xs :: u8 list) = map unat ys \<Longrightarrow> xs = ys"
  by (erule map_injective) (rule inj_unsigned)

lemma bytes_val_inj: "length xs = length ys \<Longrightarrow> bytes_val xs = bytes_val ys \<Longrightarrow> xs = ys"
  unfolding bytes_val_def
  by (rule map_unat_inj, rule be_val_inj [where B = 256]) (simp_all add: unat_u8_less)

lemma map_unat_less_iff: "map unat (xs :: u8 list) < map unat ys \<longleftrightarrow> xs < ys"
  by (induction xs ys rule: list_induct2') (auto simp: word_less_nat_alt dest: unsigned_word_eqI)

lemma bytes_val_mono: "length xs = length ys \<Longrightarrow> xs < ys \<longleftrightarrow> bytes_val xs < bytes_val ys"
  unfolding bytes_val_def
  by (subst map_unat_less_iff [symmetric], rule be_val_mono) (simp_all add: unat_u8_less)

lemma bytes_val_zeros [simp]: "bytes_val (replicate n 0) = 0"
  by (induction n) (simp_all add: bytes_val_def)

lemma bytes_val_ffs [simp]: "bytes_val (replicate n 0xff) = 256 ^ n - 1"
proof (induction n)
  case 0
  then show ?case by (simp add: bytes_val_def)
next
  case (Suc n)
  have "(1 :: nat) \<le> 256 ^ n" by simp
  with Suc show ?case by (simp add: bytes_val_def)
qed

lemma replicate_numeral: "replicate (numeral k) x = x # replicate (pred_numeral k) x"
  by (simp add: numeral_eq_Suc)

text \<open>The byte string of a number, and of an ASCII literal.\<close>

definition bytes_of_nat :: "nat \<Rightarrow> nat \<Rightarrow> u8 list" where
  "bytes_of_nat k n = map word_of_nat (be_digits 256 k n)"

lemma length_bytes_of_nat [simp]: "length (bytes_of_nat k n) = k"
  by (simp add: bytes_of_nat_def)

lemma map_unat_bytes_of_nat: "map unat (bytes_of_nat k n) = be_digits 256 k n"
proof -
  have "d \<in> set (be_digits 256 k n) \<Longrightarrow> d < 256" for d
    using be_digits_less [of 256] by simp
  then show ?thesis
    by (auto simp: bytes_of_nat_def unat_of_nat intro!: map_idI)
qed

lemma bytes_val_of_nat: "bytes_val (bytes_of_nat k n) = n mod 256 ^ k"
  by (simp add: bytes_val_def map_unat_bytes_of_nat be_val_digits)

lemma bytes_of_nat_val: "length xs = k \<Longrightarrow> bytes_of_nat k (bytes_val xs) = xs"
  by (rule bytes_val_inj) (auto simp: bytes_val_of_nat bytes_val_less)

definition bytes_of :: "string \<Rightarrow> u8 list" where
  "bytes_of s = map of_char s"

lemma bytes_of_simps [simp]:
  "bytes_of [] = []" "bytes_of (c # s) = of_char c # bytes_of s"
  by (simp_all add: bytes_of_def)

section \<open>Assembling words from bytes\<close>

text \<open>
  A byte shifted above everything in \<open>b\<close> and combined with \<open>OR\<close> adds its value times the shift's
  power of two; a byte cut out of a word by a right shift is a digit of the word's value.
\<close>

lemma unat_or_push:
  fixes a :: "'a::len word"
  assumes "n + k \<le> LENGTH('a)" "unat b < 2 ^ n" "unat a < 2 ^ k"
  shows "unat (push_bit n a OR b) = unat a * 2 ^ n + unat b"
proof -
  have "push_bit n a AND b = 0"
  proof (rule bit_word_eqI)
    fix i assume "i < LENGTH('a)"
    have "take_bit n b = b" using assms(2)
      by (metis take_bit_nat_eq_self_iff unsigned_take_bit_eq unsigned_word_eqI)
    then have "bit b i \<Longrightarrow> i < n" by (metis bit_take_bit_iff)
    then show "bit (push_bit n a AND b) i \<longleftrightarrow> bit (0::'a word) i"
      by (auto simp: bit_simps)
  qed
  then have "push_bit n a OR b = push_bit n a + b"
    by (simp add: disjunctive_add_eq_or)
  moreover have lt: "unat a * 2 ^ n + unat b < 2 ^ (n + k)"
  proof -
    have "Suc (unat a) * 2 ^ n \<le> 2 ^ k * 2 ^ n" using assms(3) by (intro mult_right_mono) auto
    then show ?thesis using assms(2) by (simp add: power_add algebra_simps)
  qed
  moreover have lim: "(2::nat) ^ (n + k) \<le> 2 ^ LENGTH('a)"
    using assms(1) by (intro power_increasing) auto
  moreover have "unat (push_bit n a) = unat a * 2 ^ n"
  proof -
    have "unat a * 2 ^ n < 2 ^ LENGTH('a)" using lt lim by linarith
    then show ?thesis
      by (simp only: unsigned_push_bit_eq push_bit_eq_mult [of n "unat a"] take_bit_nat_eq_self)
  qed
  ultimately have "unat (push_bit n a OR b) = (unat a * 2 ^ n + unat b) mod 2 ^ LENGTH('a)"
    by (simp add: unat_word_ariths)
  also have "\<dots> = unat a * 2 ^ n + unat b"
    by (rule mod_less) (use lt lim in linarith)
  finally show ?thesis .
qed

lemma unat_ucast_u8 [simp]:
  assumes "8 \<le> LENGTH('a)"
  shows "unat (ucast (x :: u8) :: 'a::len word) = unat x"
proof -
  have "unat x < 2 ^ 8" using unat_u8_less [of x] by simp
  also have "(2::nat) ^ 8 \<le> 2 ^ LENGTH('a)" by (rule power_increasing) (use assms in auto)
  finally show ?thesis by (simp add: unsigned_ucast_eq take_bit_nat_eq_self)
qed

lemma unat_or_byte:
  assumes "n + 8 \<le> LENGTH('a)" "unat b < 2 ^ n"
  shows "unat (push_bit n (ucast (x :: u8)) OR b :: 'a::len word) = unat x * 2 ^ n + unat b"
  by (subst unat_or_push [where k = 8]) (use assms unat_u8_less [of x] in simp_all)

lemma byte_drop: "(ucast (drop_bit n (v :: 'a::len word)) :: u8) = word_of_nat (unat v div 2 ^ n)"
  by (rule bit_word_eqI)
     (auto simp: bit_simps bit_drop_bit_eq simp flip: drop_bit_eq_div)

lemma word_of_nat_mod_256: "(word_of_nat (m mod 256) :: u8) = word_of_nat m"
  by (rule word_unat_eq_iff [THEN iffD2]) (simp add: unat_of_nat)

lemma bytes_of_nat_0: "bytes_of_nat 0 n = []"
  by (simp add: bytes_of_nat_def)

lemma bytes_of_nat_Suc: "bytes_of_nat (Suc k) n = bytes_of_nat k (n div 256) @ [word_of_nat n]"
  by (simp add: bytes_of_nat_def word_of_nat_mod_256)

lemma numeral_as_Suc:
  "(2::nat) = Suc (Suc 0)"
  "(4::nat) = Suc (Suc (Suc (Suc 0)))"
  "(8::nat) = Suc (Suc (Suc (Suc (Suc (Suc (Suc (Suc 0)))))))"
  "(6::nat) = Suc (Suc (Suc (Suc (Suc (Suc 0)))))"
  by simp_all

lemma bytes_of_nat_2: "bytes_of_nat 2 n = [word_of_nat (n div 256), word_of_nat n]"
  unfolding numeral_as_Suc(1) by (simp add: bytes_of_nat_Suc bytes_of_nat_0)

lemma bytes_of_nat_4:
  "bytes_of_nat 4 n =
     [word_of_nat (n div 2 ^ 24), word_of_nat (n div 2 ^ 16), word_of_nat (n div 2 ^ 8),
      word_of_nat n]"
  unfolding numeral_as_Suc(2)
  by (simp add: bytes_of_nat_Suc bytes_of_nat_0 flip: div_mult2_eq)

lemma bytes_of_nat_6:
  "bytes_of_nat 6 n =
     [word_of_nat (n div 2 ^ 40), word_of_nat (n div 2 ^ 32), word_of_nat (n div 2 ^ 24),
      word_of_nat (n div 2 ^ 16), word_of_nat (n div 2 ^ 8), word_of_nat n]"
  unfolding numeral_as_Suc(4)
  by (simp add: bytes_of_nat_Suc bytes_of_nat_0 flip: div_mult2_eq)

lemma bytes_of_nat_8:
  "bytes_of_nat 8 n =
     [word_of_nat (n div 2 ^ 56), word_of_nat (n div 2 ^ 48), word_of_nat (n div 2 ^ 40),
      word_of_nat (n div 2 ^ 32), word_of_nat (n div 2 ^ 24), word_of_nat (n div 2 ^ 16),
      word_of_nat (n div 2 ^ 8), word_of_nat n]"
  unfolding numeral_as_Suc(3)
  by (simp add: bytes_of_nat_Suc bytes_of_nat_0 flip: div_mult2_eq)

section \<open>Splitting numerals\<close>

lemma be_digits_add: "be_digits B (j + k) n = be_digits B j (n div B ^ k) @ be_digits B k n"
  by (induction k arbitrary: n) (auto simp: div_mult2_eq)

lemma bytes_of_nat_add: "bytes_of_nat (j + k) n = bytes_of_nat j (n div 256 ^ k) @ bytes_of_nat k n"
  by (simp add: bytes_of_nat_def be_digits_add)

lemma be_digits_mod: "be_digits B k (n mod B ^ k) = be_digits B k n"
proof (induction k arbitrary: n)
  case 0
  then show ?case by simp
next
  case (Suc k)
  have "n mod B ^ Suc k div B = n div B mod B ^ k"
    by (cases "B = 0") (simp_all add: mod_mult2_eq)
  then show ?case by (simp add: Suc.IH mod_mult2_eq)
qed

lemma bytes_of_nat_mod: "bytes_of_nat k (n mod 256 ^ k) = bytes_of_nat k n"
  by (simp add: bytes_of_nat_def be_digits_mod)

lemma buf_put4:
  assumes "k + 4 \<le> length out"
  shows "out[k := a, Suc k := b, k + 2 := c, k + 3 := d] = buf_put out k [a, b, c, d]"
  using assms
  by (intro nth_equalityI) (auto simp: buf_put_def nth_append nth_list_update nth_Cons' not_less
      intro!: arg_cong [of _ _ "(!) out"])

end
