(* ===== verification/Simd.thy ===== *)
theory Simd
  imports Prelude
begin

text \<open>
  The vector instructions the SSE2 and NEON kernels are written in, on vectors given as lists of
  byte lanes (lane 0 is the byte at the lowest address). Each definition is the documented
  lane-wise meaning of the intrinsic it is named after.
\<close>

section \<open>Lane-wise operations\<close>

type_synonym vec = "u8 list"

definition lanes2 :: "(u8 \<Rightarrow> u8 \<Rightarrow> u8) \<Rightarrow> vec \<Rightarrow> vec \<Rightarrow> vec" where
  "lanes2 f a b = map2 f a b"

definition lane_mask :: "bool \<Rightarrow> u8" where
  "lane_mask b = (if b then 0xff else 0)"

definition mm_loadu_si128 :: "u8 list \<Rightarrow> vec" where "mm_loadu_si128 p = take 16 p"
definition mm_set1_epi8 :: "u8 \<Rightarrow> vec" where "mm_set1_epi8 c = replicate 16 c"
definition mm_add_epi8 :: "vec \<Rightarrow> vec \<Rightarrow> vec" where "mm_add_epi8 = lanes2 (+)"
definition mm_sub_epi8 :: "vec \<Rightarrow> vec \<Rightarrow> vec" where "mm_sub_epi8 = lanes2 (-)"
definition mm_min_epu8 :: "vec \<Rightarrow> vec \<Rightarrow> vec" where "mm_min_epu8 = lanes2 min"
definition mm_cmpeq_epi8 :: "vec \<Rightarrow> vec \<Rightarrow> vec" where
  "mm_cmpeq_epi8 = lanes2 (\<lambda>x y. lane_mask (x = y))"
definition mm_and_si128 :: "vec \<Rightarrow> vec \<Rightarrow> vec" where "mm_and_si128 = lanes2 (AND)"
definition mm_or_si128 :: "vec \<Rightarrow> vec \<Rightarrow> vec" where "mm_or_si128 = lanes2 (OR)"
definition mm_andnot_si128 :: "vec \<Rightarrow> vec \<Rightarrow> vec" where
  "mm_andnot_si128 = lanes2 (\<lambda>x y. NOT x AND y)"

text \<open>Bit \<open>i\<close> of the result is the most significant bit of lane \<open>i\<close>.\<close>

definition mm_movemask_epi8 :: "vec \<Rightarrow> u32" where
  "mm_movemask_epi8 a = horner_sum of_bool 2 (map (\<lambda>x. bit x 7) a)"

text \<open>\<open>__builtin_ctz\<close>: the number of trailing zero bits (of a nonzero argument).\<close>

definition builtin_ctz :: "u32 \<Rightarrow> nat" where
  "builtin_ctz x = length (takeWhile (\<lambda>i. \<not> bit x i) [0..<32])"

definition vld1q_u8 :: "u8 list \<Rightarrow> vec" where "vld1q_u8 p = take 16 p"
definition vdupq_n_u8 :: "u8 \<Rightarrow> vec" where "vdupq_n_u8 c = replicate 16 c"
definition vaddq_u8 :: "vec \<Rightarrow> vec \<Rightarrow> vec" where "vaddq_u8 = lanes2 (+)"
definition vsubq_u8 :: "vec \<Rightarrow> vec \<Rightarrow> vec" where "vsubq_u8 = lanes2 (-)"
definition vcleq_u8 :: "vec \<Rightarrow> vec \<Rightarrow> vec" where "vcleq_u8 = lanes2 (\<lambda>x y. lane_mask (x \<le> y))"
definition vceqq_u8 :: "vec \<Rightarrow> vec \<Rightarrow> vec" where "vceqq_u8 = lanes2 (\<lambda>x y. lane_mask (x = y))"
definition vandq_u8 :: "vec \<Rightarrow> vec \<Rightarrow> vec" where "vandq_u8 = lanes2 (AND)"
definition vorrq_u8 :: "vec \<Rightarrow> vec \<Rightarrow> vec" where "vorrq_u8 = lanes2 (OR)"
definition vbicq_u8 :: "vec \<Rightarrow> vec \<Rightarrow> vec" where "vbicq_u8 = lanes2 (\<lambda>x y. x AND NOT y)"
definition vminvq_u8 :: "vec \<Rightarrow> u8" where "vminvq_u8 a = fold min a 0xff"

definition vget_low_u8 :: "vec \<Rightarrow> vec" where "vget_low_u8 a = take 8 a"
definition vget_high_u8 :: "vec \<Rightarrow> vec" where "vget_high_u8 a = drop 8 a"
definition vand_u8 :: "vec \<Rightarrow> vec \<Rightarrow> vec" where "vand_u8 = lanes2 (AND)"
definition vget_lane_u8 :: "vec \<Rightarrow> nat \<Rightarrow> u8" where "vget_lane_u8 a i = a ! i"

fun pair_min :: "vec \<Rightarrow> vec" where
  "pair_min (x # y # r) = min x y # pair_min r"
| "pair_min r = []"

definition vpmin_u8 :: "vec \<Rightarrow> vec \<Rightarrow> vec" where
  "vpmin_u8 a b = pair_min (a @ b)"

lemmas mm_defs =
  mm_loadu_si128_def mm_set1_epi8_def mm_add_epi8_def mm_sub_epi8_def mm_min_epu8_def
  mm_cmpeq_epi8_def mm_and_si128_def mm_or_si128_def mm_andnot_si128_def

lemmas neon_defs =
  vld1q_u8_def vdupq_n_u8_def vaddq_u8_def vsubq_u8_def vcleq_u8_def vceqq_u8_def vandq_u8_def
  vorrq_u8_def vbicq_u8_def

section \<open>A straight-line kernel is a map of a byte function\<close>

lemma lanes2_maps: "lanes2 f (map g xs) (map h xs) = map (\<lambda>x. f (g x) (h x)) xs"
  by (induction xs) (auto simp: lanes2_def)

lemma lanes2_left: "lanes2 f xs (map h xs) = map (\<lambda>x. f x (h x)) xs"
  using lanes2_maps [where g = "\<lambda>x. x"] by simp

lemma lanes2_right: "lanes2 f (map g xs) xs = map (\<lambda>x. f (g x) x) xs"
  using lanes2_maps [where h = "\<lambda>x. x"] by simp

lemma lanes2_const_right: "length xs = n \<Longrightarrow> lanes2 f xs (replicate n c) = map (\<lambda>x. f x c) xs"
  using lanes2_left [of f xs "\<lambda>_. c"] by (auto simp: map_replicate_const)

lemma lanes2_const_left: "length xs = n \<Longrightarrow> lanes2 f (replicate n c) xs = map (\<lambda>x. f c x) xs"
  using lanes2_right [of f "\<lambda>_. c" xs] by (auto simp: map_replicate_const)

lemmas lane_simps =
  lanes2_maps lanes2_left lanes2_right lanes2_const_right lanes2_const_left

lemma lane_mask_eq: "lane_mask b = 0xff \<longleftrightarrow> b" "lane_mask b = 0 \<longleftrightarrow> \<not> b" "bit (lane_mask b) 7 \<longleftrightarrow> b"
  by (simp_all add: lane_mask_def)

lemma u8_and_ff [simp]: "0xff AND x = (x :: u8)" "x AND 0xff = x"
proof -
  have m: "(0xff :: u8) = - 1" by simp
  show "0xff AND x = x" "x AND 0xff = x" unfolding m by simp_all
qed

lemma lane_mask_logic [simp]:
  "lane_mask a OR lane_mask b = lane_mask (a \<or> b)"
  "lane_mask a AND lane_mask b = lane_mask (a \<and> b)"
  "NOT (lane_mask a) = lane_mask (\<not> a)"
  by (auto simp: lane_mask_def)

lemma lane_mask_and: "lane_mask b AND x = (if b then x else 0)"
  by (simp add: lane_mask_def)

section \<open>Reductions of a mask vector\<close>

lemma bit_movemask: "i < 32 \<Longrightarrow> bit (mm_movemask_epi8 a) i \<longleftrightarrow> i < length a \<and> bit (a ! i) 7"
  by (auto simp: mm_movemask_epi8_def bit_horner_sum_bit_word_iff)

lemma ffff_bit: "i < 32 \<Longrightarrow> bit (0xffff :: u32) i \<longleftrightarrow> i < 16"
proof -
  have "(0xffff :: u32) = mask 16" by (simp add: mask_eq_exp_minus_1)
  then show "i < 32 \<Longrightarrow> bit (0xffff :: u32) i \<longleftrightarrow> i < 16" by (simp only: bit_mask_iff) simp
qed

lemma movemask_full:
  assumes "length xs = 16"
  shows "mm_movemask_epi8 (map (\<lambda>x. lane_mask (P x)) xs) = 0xffff \<longleftrightarrow> list_all P xs"
proof
  assume eq: "mm_movemask_epi8 (map (\<lambda>x. lane_mask (P x)) xs) = 0xffff"
  have "bit (mm_movemask_epi8 (map (\<lambda>x. lane_mask (P x)) xs)) i" if "i < 16" for i
    unfolding eq using that ffff_bit by simp
  with assms have "bit (map (\<lambda>x. lane_mask (P x)) xs ! i) 7" if "i < 16" for i
    using that by (simp add: bit_movemask)
  with assms show "list_all P xs"
    by (simp add: lane_mask_eq list_all_length)
next
  assume "list_all P xs"
  with assms show "mm_movemask_epi8 (map (\<lambda>x. lane_mask (P x)) xs) = 0xffff"
    by (intro bit_word_eqI, subst ffff_bit) (auto simp: bit_movemask lane_mask_eq list_all_length)
qed

lemma fold_min_ff: "fold min (map (\<lambda>x. lane_mask (P x)) xs) (lane_mask b) = lane_mask (list_all P xs \<and> b)"
proof (induction xs arbitrary: b)
  case Nil
  then show ?case by simp
next
  case (Cons x xs)
  have "min (lane_mask (P x)) (lane_mask b) = lane_mask (P x \<and> b)"
    by (simp add: lane_mask_def)
  with Cons show ?case by (simp add: conj_ac)
qed

lemma minvq_full: "vminvq_u8 (map (\<lambda>x. lane_mask (P x)) xs) = 0xff \<longleftrightarrow> list_all P xs"
  using fold_min_ff [of P xs True] by (simp add: vminvq_u8_def lane_mask_eq lane_mask_def split: if_splits)

lemma pair_min_masks:
  "pair_min (map lane_mask (a # b # r)) = lane_mask (a \<and> b) # pair_min (map lane_mask r)"
  by (simp add: lane_mask_def)

lemma list_16:
  assumes "length xs = 16"
  obtains a b c d e f g h i j k l m n p q where "xs = [a, b, c, d, e, f, g, h, i, j, k, l, m, n, p, q]"
  using assms by (auto simp: eval_nat_numeral length_Suc_conv)

text \<open>The ARMv7 reduction: halves combined, then three pairwise minima.\<close>

lemma pmin_full:
  assumes "length xs = 16"
    and "both = vand_u8 (vget_low_u8 (map (\<lambda>x. lane_mask (P x)) xs))
                        (vget_high_u8 (map (\<lambda>x. lane_mask (P x)) xs))"
    and "r1 = vpmin_u8 both both" "r2 = vpmin_u8 r1 r1" "r3 = vpmin_u8 r2 r2"
  shows "vget_lane_u8 r3 0 = 0xff \<longleftrightarrow> list_all P xs"
proof -
  obtain a b c d e f g h i j k l m n p q where xs: "xs = [a, b, c, d, e, f, g, h, i, j, k, l, m, n, p, q]"
    using list_16 [OF assms(1)] .
  have min: "min (lane_mask u) (lane_mask v) = lane_mask (u \<and> v)" for u v
    by (simp add: lane_mask_def)
  show ?thesis
    unfolding assms(2-) xs
    by (auto simp: vand_u8_def vget_low_u8_def vget_high_u8_def vpmin_u8_def vget_lane_u8_def lanes2_def
        min lane_mask_eq)
qed

end
