(* ===== verification/Byteorder.thy ===== *)
theory Byteorder
  imports Prelude
begin

text \<open>
  \<open>chronoid/byteorder.h\<close>: big-endian loads and stores of 32- and 64-bit values, byte by byte. A
  pointer argument is the list of the bytes from that address on. The facts give each helper's
  value in terms of base-256 digit lists, which is all the other components use of them.
\<close>

section \<open>The helpers\<close>

definition chronoid_be32_load :: "u8 list \<Rightarrow> u32" where
  "chronoid_be32_load p =
     push_bit 24 (ucast (p ! 0)) OR push_bit 16 (ucast (p ! 1)) OR push_bit 8 (ucast (p ! 2))
     OR ucast (p ! 3)"

definition chronoid_be32_store :: "u8 list \<Rightarrow> u32 \<Rightarrow> u8 list" where
  "chronoid_be32_store p v =
     p[0 := ucast (drop_bit 24 v), 1 := ucast (drop_bit 16 v), 2 := ucast (drop_bit 8 v),
       3 := ucast v]"

definition chronoid_be64_load :: "u8 list \<Rightarrow> u64" where
  "chronoid_be64_load p =
     push_bit 56 (ucast (p ! 0)) OR push_bit 48 (ucast (p ! 1)) OR push_bit 40 (ucast (p ! 2))
     OR push_bit 32 (ucast (p ! 3)) OR push_bit 24 (ucast (p ! 4)) OR push_bit 16 (ucast (p ! 5))
     OR push_bit 8 (ucast (p ! 6)) OR ucast (p ! 7)"

definition chronoid_be64_store :: "u8 list \<Rightarrow> u64 \<Rightarrow> u8 list" where
  "chronoid_be64_store p v =
     p[0 := ucast (drop_bit 56 v), 1 := ucast (drop_bit 48 v), 2 := ucast (drop_bit 40 v),
       3 := ucast (drop_bit 32 v), 4 := ucast (drop_bit 24 v), 5 := ucast (drop_bit 16 v),
       6 := ucast (drop_bit 8 v), 7 := ucast v]"

section \<open>Their values\<close>

lemma take_upt: "n \<le> length p \<Longrightarrow> take n p = map ((!) p) [0..<n]"
  by (rule nth_equalityI) simp_all

lemma take_nth4: "4 \<le> length p \<Longrightarrow> take 4 p = [p ! 0, p ! 1, p ! 2, p ! 3]"
  by (simp add: take_upt upt_rec eval_nat_numeral)

lemma take_nth8:
  "8 \<le> length p \<Longrightarrow> take 8 p = [p ! 0, p ! 1, p ! 2, p ! 3, p ! 4, p ! 5, p ! 6, p ! 7]"
  by (simp add: take_upt upt_rec eval_nat_numeral)

lemma be32_load_val:
  assumes "4 \<le> length p"
  shows "unat (chronoid_be32_load p) = bytes_val (take 4 p)"
  using unat_u8_less [of "p ! 0"] unat_u8_less [of "p ! 1"] unat_u8_less [of "p ! 2"]
    unat_u8_less [of "p ! 3"]
  by (simp add: chronoid_be32_load_def unat_or_byte take_nth4 [OF assms] bytes_val_def)

lemma be64_load_val:
  assumes "8 \<le> length p"
  shows "unat (chronoid_be64_load p) = bytes_val (take 8 p)"
  using unat_u8_less [of "p ! 0"] unat_u8_less [of "p ! 1"] unat_u8_less [of "p ! 2"]
    unat_u8_less [of "p ! 3"] unat_u8_less [of "p ! 4"] unat_u8_less [of "p ! 5"]
    unat_u8_less [of "p ! 6"] unat_u8_less [of "p ! 7"]
  by (simp add: chronoid_be64_load_def unat_or_byte take_nth8 [OF assms] bytes_val_def)

lemma be32_store_bytes:
  assumes "4 \<le> length p"
  shows "chronoid_be32_store p v = buf_put p 0 (bytes_of_nat 4 (unat v))"
proof -
  obtain a b c d q where p: "p = [a, b, c, d] @ q"
    using take_nth4 [OF assms] append_take_drop_id [of 4 p] by metis
  show ?thesis
    by (simp add: p chronoid_be32_store_def buf_put_def byte_drop bytes_of_nat_4)
qed

lemma be64_store_bytes:
  assumes "8 \<le> length p"
  shows "chronoid_be64_store p v = buf_put p 0 (bytes_of_nat 8 (unat v))"
proof -
  obtain a b c d a' b' c' d' q where p: "p = [a, b, c, d, a', b', c', d'] @ q"
    using take_nth8 [OF assms] append_take_drop_id [of 8 p] by metis
  show ?thesis
    by (simp add: p chronoid_be64_store_def buf_put_def byte_drop bytes_of_nat_8)
qed

lemma length_be32_store [simp]: "length (chronoid_be32_store p v) = length p"
  by (simp add: chronoid_be32_store_def)

lemma be32_roundtrips:
  assumes "4 \<le> length p"
  shows "chronoid_be32_load (chronoid_be32_store p v) = v"
    and "chronoid_be32_store p (chronoid_be32_load p) = p"
proof -
  have "unat v < 256 ^ 4" using unsigned_less [of v, where ?'a = nat] by simp
  then have "unat (chronoid_be32_load (chronoid_be32_store p v)) = unat v"
    using assms
    by (simp add: be32_load_val) (simp add: be32_store_bytes buf_put_def bytes_val_of_nat)
  then show "chronoid_be32_load (chronoid_be32_store p v) = v" by (rule unsigned_word_eqI)
  show "chronoid_be32_store p (chronoid_be32_load p) = p"
    using assms
    by (simp add: be32_store_bytes be32_load_val bytes_of_nat_val buf_put_def)
qed

lemma be64_roundtrips:
  assumes "8 \<le> length p"
  shows "chronoid_be64_load (chronoid_be64_store p v) = v"
    and "chronoid_be64_store p (chronoid_be64_load p) = p"
proof -
  have "unat v < 256 ^ 8" using unsigned_less [of v, where ?'a = nat] by simp
  moreover have "8 \<le> length (chronoid_be64_store p v)"
    using assms by (simp add: chronoid_be64_store_def)
  ultimately have "unat (chronoid_be64_load (chronoid_be64_store p v)) = unat v"
    using assms
    by (simp add: be64_load_val) (simp add: be64_store_bytes buf_put_def bytes_val_of_nat)
  then show "chronoid_be64_load (chronoid_be64_store p v) = v" by (rule unsigned_word_eqI)
  show "chronoid_be64_store p (chronoid_be64_load p) = p"
    using assms
    by (simp add: be64_store_bytes be64_load_val bytes_of_nat_val buf_put_def)
qed

end
