(* ===== verification/Ksuid_Types.thy ===== *)
theory Ksuid_Types
  imports Prelude
begin

text \<open>
  The data of the public KSUID header (\<open>chronoid/ksuid.h\<close>): the wire-format constants, the
  20-byte identifier, the error codes and the two sentinel values.
\<close>

abbreviation (input) "CHRONOID_KSUID_BYTES \<equiv> (20::nat)"
abbreviation (input) "CHRONOID_KSUID_STRING_LEN \<equiv> (27::nat)"
abbreviation (input) "CHRONOID_KSUID_PAYLOAD_LEN \<equiv> (16::nat)"
abbreviation (input) "CHRONOID_KSUID_TIMESTAMP_LEN \<equiv> (4::nat)"
abbreviation (input) "CHRONOID_KSUID_EPOCH_SECONDS \<equiv> (1400000000::int)"

record ksuid =
  ksuid_b :: "u8 list"

text \<open>The C type is an array of exactly 20 bytes.\<close>

definition wf_ksuid :: "ksuid \<Rightarrow> bool" where
  "wf_ksuid k \<longleftrightarrow> length (ksuid_b k) = CHRONOID_KSUID_BYTES"

datatype ksuid_err =
    CHRONOID_KSUID_OK
  | CHRONOID_KSUID_ERR_SIZE
  | CHRONOID_KSUID_ERR_STR_SIZE
  | CHRONOID_KSUID_ERR_STR_VALUE
  | CHRONOID_KSUID_ERR_PAYLOAD_SIZE
  | CHRONOID_KSUID_ERR_RNG
  | CHRONOID_KSUID_ERR_EXHAUSTED
  | CHRONOID_KSUID_ERR_TIME_RANGE

fun ksuid_err_code :: "ksuid_err \<Rightarrow> int" where
  "ksuid_err_code CHRONOID_KSUID_OK = 0"
| "ksuid_err_code CHRONOID_KSUID_ERR_SIZE = - 1"
| "ksuid_err_code CHRONOID_KSUID_ERR_STR_SIZE = - 2"
| "ksuid_err_code CHRONOID_KSUID_ERR_STR_VALUE = - 3"
| "ksuid_err_code CHRONOID_KSUID_ERR_PAYLOAD_SIZE = - 4"
| "ksuid_err_code CHRONOID_KSUID_ERR_RNG = - 5"
| "ksuid_err_code CHRONOID_KSUID_ERR_EXHAUSTED = - 6"
| "ksuid_err_code CHRONOID_KSUID_ERR_TIME_RANGE = - 7"

definition CHRONOID_KSUID_NIL :: ksuid where
  "CHRONOID_KSUID_NIL = \<lparr>ksuid_b = replicate CHRONOID_KSUID_BYTES 0\<rparr>"

definition CHRONOID_KSUID_MAX :: ksuid where
  "CHRONOID_KSUID_MAX = \<lparr>ksuid_b = replicate CHRONOID_KSUID_BYTES 0xff\<rparr>"

lemma ksuid_err_code_inj: "ksuid_err_code a = ksuid_err_code b \<longleftrightarrow> a = b"
  by (cases a; cases b) simp_all

lemma ksuid_err_code_ok: "ksuid_err_code e \<le> 0" "ksuid_err_code e = 0 \<longleftrightarrow> e = CHRONOID_KSUID_OK"
  by (cases e; simp)+

section \<open>The order of identifiers\<close>

text \<open>
  Identifiers are ordered by their bytes, lexicographically (the field extension of the record
  breaks ties, so that the instance is for every extension of the type).
\<close>

instantiation ksuid_ext :: (linorder) linorder
begin

definition less_eq_ksuid_ext :: "'a ksuid_ext \<Rightarrow> 'a ksuid_ext \<Rightarrow> bool" where
  "less_eq_ksuid_ext a b \<longleftrightarrow>
     ksuid_b a < ksuid_b b \<or> ksuid_b a = ksuid_b b \<and> ksuid.more a \<le> ksuid.more b"

definition less_ksuid_ext :: "'a ksuid_ext \<Rightarrow> 'a ksuid_ext \<Rightarrow> bool" where
  "less_ksuid_ext a b \<longleftrightarrow>
     ksuid_b a < ksuid_b b \<or> ksuid_b a = ksuid_b b \<and> ksuid.more a < ksuid.more b"

instance
proof
  fix x y z :: "'a ksuid_ext"
  show "x < y \<longleftrightarrow> x \<le> y \<and> \<not> y \<le> x"
    by (auto simp: less_eq_ksuid_ext_def less_ksuid_ext_def)
  show "x \<le> x" by (simp add: less_eq_ksuid_ext_def)
  show "x \<le> y \<Longrightarrow> y \<le> z \<Longrightarrow> x \<le> z" by (auto simp: less_eq_ksuid_ext_def)
  show "x \<le> y \<Longrightarrow> y \<le> x \<Longrightarrow> x = y"
    by (auto simp: less_eq_ksuid_ext_def intro: ksuid.equality)
  show "x \<le> y \<or> y \<le> x" by (auto simp: less_eq_ksuid_ext_def)
qed

end

lemma ksuid_less_iff: "(a :: ksuid) < b \<longleftrightarrow> ksuid_b a < ksuid_b b"
  by (simp add: less_ksuid_ext_def)

lemma ksuid_eq_iff: "(a :: ksuid) = b \<longleftrightarrow> ksuid_b a = ksuid_b b"
  by (metis ksuid.equality unit.exhaust)

end
