(* ===== verification/Long_Division.thy ===== *)
theory Long_Division
  imports Prelude
begin

text \<open>
  Reference algorithm of both base-62 routines: one pass of schoolbook division of a big-endian
  digit list by a small divisor, which drops the quotient's leading zeros. The facts say what one
  pass computes; the codecs show that their machine-word loops are this pass.
\<close>

section \<open>One pass of division\<close>

fun long_div :: "nat \<Rightarrow> nat \<Rightarrow> nat list \<Rightarrow> nat list \<Rightarrow> nat \<Rightarrow> nat list \<times> nat" where
  "long_div B D [] q r = (q, r)"
| "long_div B D (x # xs) q r =
     (let v = x + r * B; d = v div D
      in long_div B D xs (if q \<noteq> [] \<or> d \<noteq> 0 then q @ [d] else q) (v mod D))"

lemma long_div_val:
  assumes "long_div B D xs q r = (q', r')"
  shows "be_val B q' * D + r' = (be_val B q * D + r) * B ^ length xs + be_val B xs"
  using assms
proof (induction xs arbitrary: q r)
  case Nil
  then show ?case by simp
next
  case (Cons x xs)
  define v where "v = x + r * B"
  define q1 where "q1 = (if q \<noteq> [] \<or> v div D \<noteq> 0 then q @ [v div D] else q)"
  have q1: "be_val B q1 = be_val B q * B + v div D"
    by (auto simp: q1_def)
  have "long_div B D xs q1 (v mod D) = (q', r')"
    using Cons.prems(1) by (simp only: long_div.simps Let_def v_def q1_def)
  from Cons.IH [OF this]
  have "be_val B q' * D + r' = ((be_val B q * B + v div D) * D + v mod D) * B ^ length xs + be_val B xs"
    by (simp add: q1)
  also have "(be_val B q * B + v div D) * D + v mod D = be_val B q * B * D + v"
    using div_mult_mod_eq [of v D] by (simp only: distrib_right add.assoc)
  finally show ?case by (simp add: v_def algebra_simps)
qed

lemma long_div_digits:
  assumes "long_div B D xs q r = (q', r')" "r < D" "\<forall>x \<in> set xs. x < B" "\<forall>x \<in> set q. x < B"
    and "q \<noteq> [] \<Longrightarrow> hd q \<noteq> 0"
  shows "r' < D \<and> (\<forall>x \<in> set q'. x < B) \<and> (q' \<noteq> [] \<longrightarrow> hd q' \<noteq> 0) \<and> length q' \<le> length q + length xs"
  using assms
proof (induction xs arbitrary: q r)
  case Nil
  then show ?case by simp
next
  case (Cons x xs)
  define v where "v = x + r * B"
  define q1 where "q1 = (if q \<noteq> [] \<or> v div D \<noteq> 0 then q @ [v div D] else q)"
  have "v < D * B"
  proof -
    have "Suc r * B \<le> D * B" using Cons.prems(2) by (intro mult_right_mono) auto
    then show ?thesis using Cons.prems(3) by (simp add: v_def)
  qed
  then have "v div D < B" by (simp add: less_mult_imp_div_less mult.commute)
  then have q1: "\<forall>x \<in> set q1. x < B" "q1 \<noteq> [] \<Longrightarrow> hd q1 \<noteq> 0" "length q1 \<le> Suc (length q)"
    using Cons.prems(4,5) by (auto simp: q1_def hd_append)
  have "long_div B D xs q1 (v mod D) = (q', r')"
    using Cons.prems(1) by (simp only: long_div.simps Let_def v_def q1_def)
  moreover have "v mod D < D" using Cons.prems(2) by simp
  ultimately have "r' < D \<and> (\<forall>x \<in> set q'. x < B) \<and> (q' \<noteq> [] \<longrightarrow> hd q' \<noteq> 0) \<and> length q' \<le> length q1 + length xs"
    using Cons.IH [of q1] Cons.prems(3) q1 by auto
  with q1(3) show ?case by auto
qed

lemma long_div_spec:
  assumes "long_div B D xs [] 0 = (q, r)" "0 < D" "\<forall>x \<in> set xs. x < B"
  shows "be_val B q = be_val B xs div D" "r = be_val B xs mod D" "\<forall>x \<in> set q. x < B"
    and "length q \<le> length xs" "q \<noteq> [] \<longleftrightarrow> D \<le> be_val B xs"
proof -
  have v: "be_val B q * D + r = be_val B xs" using long_div_val [OF assms(1)] by simp
  have d: "r < D" "\<forall>x \<in> set q. x < B" "q \<noteq> [] \<Longrightarrow> hd q \<noteq> 0" "length q \<le> length xs"
    using long_div_digits [OF assms(1)] assms(2,3) by auto
  show q: "be_val B q = be_val B xs div D" using d(1) by (simp flip: v)
  show "r = be_val B xs mod D" using d(1) by (simp flip: v)
  show "\<forall>x \<in> set q. x < B" "length q \<le> length xs" by (fact d)+
  have "be_val B q \<noteq> 0" if "q \<noteq> []"
  proof -
    have "0 < B" using d(2) that by (cases q) auto
    then show ?thesis using d(3) that by (cases q) auto
  qed
  then show "q \<noteq> [] \<longleftrightarrow> D \<le> be_val B xs"
    using q assms(2) by (metis be_val.simps(1) div_eq_0_iff linorder_not_less not_gr_zero)
qed

end
