(* ===== verification/Base62.thy ===== *)
theory Base62
  imports Byteorder Ksuid_Types Long_Division
begin

text \<open>
  \<open>chronoid/ksuid/base62.c\<close>: the two tables, the encoder (long division of five base-\<open>2^32\<close> limbs
  by 62) and the decoder (validation through a 16-byte kernel, then long division of 27 base-62
  digits by \<open>2^32\<close>). Both routines are shown to compute the positional numerals of
  \<open>be_digits\<close>, which makes them inverse to each other and order preserving.
\<close>

section \<open>The tables\<close>

text \<open>The alphabet's C array also holds the terminating NUL, at index 62.\<close>

definition kB62Alphabet :: "u8 list" where
  "kB62Alphabet =
     bytes_of ''0123456789ABCDEFGHIJKLMNOPQRSTUVWXYZabcdefghijklmnopqrstuvwxyz'' @ [0]"

definition kB62Value :: "u8 list" where
  "kB62Value =
     replicate 48 0xff
     @ [0x00, 0x01, 0x02, 0x03, 0x04, 0x05, 0x06, 0x07, 0x08, 0x09]
     @ replicate 7 0xff
     @ [0x0a, 0x0b, 0x0c, 0x0d, 0x0e, 0x0f, 0x10, 0x11, 0x12, 0x13, 0x14, 0x15, 0x16, 0x17,
        0x18, 0x19, 0x1a, 0x1b, 0x1c, 0x1d, 0x1e, 0x1f, 0x20, 0x21, 0x22, 0x23]
     @ replicate 6 0xff
     @ [0x24, 0x25, 0x26, 0x27, 0x28, 0x29, 0x2a, 0x2b, 0x2c, 0x2d, 0x2e, 0x2f, 0x30, 0x31,
        0x32, 0x33, 0x34, 0x35, 0x36, 0x37, 0x38, 0x39, 0x3a, 0x3b, 0x3c, 0x3d]
     @ replicate 133 0xff"

section \<open>Encoding\<close>

text \<open>
  The inner loop divides the limbs \<open>bp\<close> by 62: it appends the quotient's limbs to \<open>bq\<close>, leading
  zeros suppressed, and carries the remainder.
\<close>

fun base62_encode_divide :: "u32 list \<Rightarrow> u32 list \<Rightarrow> u64 \<Rightarrow> u32 list \<times> u64" where
  "base62_encode_divide [] bq remainder = (bq, remainder)"
| "base62_encode_divide (b # bp) bq remainder =
     (let value = ucast b + remainder * 4294967296;
          digit = value div 62;
          remainder' = value mod 62
      in base62_encode_divide bp
           (if bq \<noteq> [] \<or> digit \<noteq> 0 then bq @ [ucast digit] else bq) remainder')"

text \<open>
  The outer loop writes one character per division, from the right. \<open>n\<close> is the C variable \<open>n\<close>;
  a decrement below zero would write in front of the array.
\<close>

fun base62_encode_loop :: "u32 list \<Rightarrow> nat \<Rightarrow> u8 list \<Rightarrow> (nat \<times> u8 list) run" where
  "base62_encode_loop bp n out =
     (if bp = [] then Done (n, out)
      else case base62_encode_divide bp [] 0 of (bq, remainder) \<Rightarrow>
        (case n of
           0 \<Rightarrow> Undef
         | Suc m \<Rightarrow>
             run_bind (peek kB62Alphabet (unat remainder)) (\<lambda>c.
             run_bind (poke out m c) (\<lambda>out'.
             base62_encode_loop bq m out'))))"

declare base62_encode_loop.simps [simp del]

definition chronoid_base62_encode :: "u8 list \<Rightarrow> u8 list \<Rightarrow> u8 list run" where
  "chronoid_base62_encode out inp =
     (let bp = [chronoid_be32_load inp, chronoid_be32_load (drop 4 inp),
                chronoid_be32_load (drop 8 inp), chronoid_be32_load (drop 12 inp),
                chronoid_be32_load (drop 16 inp)]
      in run_bind (base62_encode_loop bp CHRONOID_KSUID_STRING_LEN out) (\<lambda>(n, out').
         Done (if n > 0 then buf_put out' 0 (replicate n 0x30) else out')))"

section \<open>Decoding\<close>

text \<open>
  A kernel translates 16 characters into digit values and returns the C result (negative when a
  character is outside the alphabet) with the 16 bytes it stored.
\<close>

type_synonym translate16 = "u8 list \<Rightarrow> int \<times> u8 list"

definition chronoid_base62_translate16_scalar :: translate16 where
  "chronoid_base62_translate16_scalar inp =
     (let out = map (\<lambda>i. kB62Value ! unat (inp ! i)) [0..<16];
          valid = list_all (\<lambda>v. v \<noteq> 0xff) out
      in (if valid then 0 else - 1, out))"

fun base62_decode_divide :: "u8 list \<Rightarrow> u8 list \<Rightarrow> u64 \<Rightarrow> u8 list \<times> u64" where
  "base62_decode_divide [] bq remainder = (bq, remainder)"
| "base62_decode_divide (b # bp) bq remainder =
     (let value = ucast b + remainder * 62;
          digit = value div 4294967296;
          remainder' = value mod 4294967296
      in base62_decode_divide bp
           (if bq \<noteq> [] \<or> digit \<noteq> 0 then bq @ [ucast digit] else bq) remainder')"

fun base62_decode_loop :: "u8 list \<Rightarrow> nat \<Rightarrow> u8 list \<Rightarrow> ksuid_err \<times> nat \<times> u8 list" where
  "base62_decode_loop bp n out =
     (if bp = [] then (CHRONOID_KSUID_OK, n, out)
      else case base62_decode_divide bp [] 0 of (bq, remainder) \<Rightarrow>
        if n < 4 then (CHRONOID_KSUID_ERR_STR_VALUE, n, out)
        else base62_decode_loop bq (n - 4)
          (out[n - 4 := ucast (drop_bit 24 remainder), n - 3 := ucast (drop_bit 16 remainder),
               n - 2 := ucast (drop_bit 8 remainder), n - 1 := ucast remainder]))"

declare base62_decode_loop.simps [simp del]

definition chronoid_base62_decode ::
    "translate16 \<Rightarrow> u8 list \<Rightarrow> u8 list \<Rightarrow> ksuid_err \<times> u8 list" where
  "chronoid_base62_decode tr16 out inp =
     (case tr16 inp of (rc, bp) \<Rightarrow>
        if rc < 0 then (CHRONOID_KSUID_ERR_STR_VALUE, out)
        else let tail = map (\<lambda>i. kB62Value ! unat (inp ! i)) [16..<CHRONOID_KSUID_STRING_LEN]
        in if list_ex (\<lambda>v. v = 0xff) tail then (CHRONOID_KSUID_ERR_STR_VALUE, out)
        else case base62_decode_loop (bp @ tail) CHRONOID_KSUID_BYTES out of (e, n, out') \<Rightarrow>
          if e \<noteq> CHRONOID_KSUID_OK then (e, out')
          else (CHRONOID_KSUID_OK, if n > 0 then buf_put out' 0 (replicate n 0) else out'))"

section \<open>The loops compute one pass of division\<close>

lemma encode_divide_refines:
  assumes "unat r < 62"
  shows "(case base62_encode_divide bp bq r of (q, r') \<Rightarrow> (map unat q, unat r')) =
         long_div 4294967296 62 (map unat bp) (map unat bq) (unat r)"
  using assms
proof (induction bp bq r rule: base62_encode_divide.induct)
  case (1 bq r)
  then show ?case by simp
next
  case (2 b bp bq r)
  define w where "w = ucast b + r * 4294967296"
  have b: "unat b < 4294967296" using unsigned_less [of b, where ?'a = nat] by simp
  have w: "unat w = unat b + unat r * 4294967296"
    using b "2.prems" by (simp add: w_def unat_word_ariths unsigned_ucast_eq take_bit_nat_eq_self)
  have d: "unat (w div 62) = unat w div 62" and m: "unat (w mod 62) = unat w mod 62"
    by (simp_all add: unat_div_distrib unat_mod_distrib)
  have "unat (w div 62) < 4294967296" using b "2.prems" by (simp add: d w)
  then have d': "unat (ucast (w div 62) :: u32) = unat w div 62"
    by (simp add: unsigned_ucast_eq take_bit_nat_eq_self d)
  have z: "w div 62 = 0 \<longleftrightarrow> unat w div 62 = 0"
    by (simp add: unat_eq_0 [symmetric] d del: unat_eq_0)
  have "unat (w mod 62) < 62" by (simp add: m)
  from "2.IH" [OF w_def refl refl, folded w_def, OF this] show ?case
    unfolding base62_encode_divide.simps Let_def long_div.simps list.map w_def [symmetric] w [symmetric]
    by (simp add: d d' m z)
qed

lemma decode_divide_refines:
  assumes "unat r < 4294967296"
  shows "(case base62_decode_divide bp bq r of (q, r') \<Rightarrow> (map unat q, unat r')) =
         long_div 62 4294967296 (map unat bp) (map unat bq) (unat r)"
  using assms
proof (induction bp bq r rule: base62_decode_divide.induct)
  case (1 bq r)
  then show ?case by simp
next
  case (2 b bp bq r)
  define w where "w = ucast b + r * 62"
  have b: "unat b < 256" by (rule unat_u8_less)
  have w: "unat w = unat b + unat r * 62"
    using b "2.prems" by (simp add: w_def unat_word_ariths)
  have d: "unat (w div 4294967296) = unat w div 4294967296"
    and m: "unat (w mod 4294967296) = unat w mod 4294967296"
    by (simp_all add: unat_div_distrib unat_mod_distrib)
  have "unat (w div 4294967296) < 256" using b "2.prems" by (simp add: d w)
  then have d': "unat (ucast (w div 4294967296) :: u8) = unat w div 4294967296"
    by (simp add: unsigned_ucast_eq take_bit_nat_eq_self d)
  have z: "w div 4294967296 = 0 \<longleftrightarrow> unat w div 4294967296 = 0"
    by (simp add: unat_eq_0 [symmetric] d del: unat_eq_0)
  have "unat (w mod 4294967296) < 4294967296" by (simp add: m)
  from "2.IH" [OF w_def refl refl, folded w_def, OF this] show ?case
    unfolding base62_decode_divide.simps Let_def long_div.simps list.map w_def [symmetric] w [symmetric]
    by (simp add: d d' m z)
qed

lemma encode_divide_spec:
  assumes "base62_encode_divide bp [] 0 = (bq, r)"
  shows "be_val 4294967296 (map unat bq) = be_val 4294967296 (map unat bp) div 62"
    and "unat r = be_val 4294967296 (map unat bp) mod 62"
    and "bq \<noteq> [] \<longleftrightarrow> 62 \<le> be_val 4294967296 (map unat bp)"
proof -
  have "long_div 4294967296 62 (map unat bp) [] 0 = (map unat bq, unat r)"
    using encode_divide_refines [of 0 bp "[]"] assms by simp
  note spec = long_div_spec [OF this, simplified]
  have "\<forall>x \<in> set (map unat bp). x < 4294967296"
    using unsigned_less [where ?'a = nat and 'b = 32] by auto
  then show "be_val 4294967296 (map unat bq) = be_val 4294967296 (map unat bp) div 62"
    and "unat r = be_val 4294967296 (map unat bp) mod 62"
    and "bq \<noteq> [] \<longleftrightarrow> 62 \<le> be_val 4294967296 (map unat bp)"
    using spec by auto
qed

lemma decode_divide_spec:
  assumes "base62_decode_divide bp [] 0 = (bq, r)" "\<forall>x \<in> set (map unat bp). x < 62"
  shows "be_val 62 (map unat bq) = be_val 62 (map unat bp) div 4294967296"
    and "unat r = be_val 62 (map unat bp) mod 4294967296"
    and "bq \<noteq> [] \<longleftrightarrow> 4294967296 \<le> be_val 62 (map unat bp)"
    and "\<forall>x \<in> set (map unat bq). x < 62"
proof -
  have "long_div 62 4294967296 (map unat bp) [] 0 = (map unat bq, unat r)"
    using decode_divide_refines [of 0 bp "[]"] assms(1) by simp
  note spec = long_div_spec [OF this, simplified]
  show "be_val 62 (map unat bq) = be_val 62 (map unat bp) div 4294967296"
    and "unat r = be_val 62 (map unat bp) mod 4294967296"
    and "bq \<noteq> [] \<longleftrightarrow> 4294967296 \<le> be_val 62 (map unat bp)"
    and "\<forall>x \<in> set (map unat bq). x < 62"
    using spec assms(2) by auto
qed

section \<open>Characters and digits\<close>

lemma kB62Alphabet_runs:
  "kB62Alphabet = map word_of_nat [48..<58] @ map word_of_nat [65..<91] @ map word_of_nat [97..<123] @ [0]"
  by (simp add: kB62Alphabet_def upt_rec)

lemma length_kB62Alphabet [simp]: "length kB62Alphabet = 63"
  by (simp add: kB62Alphabet_runs)

lemma kB62Alphabet_nth:
  "d < 62 \<Longrightarrow> unat (kB62Alphabet ! d) =
     (if d < 10 then d + 48 else if d < 36 then d + 55 else d + 61)"
  by (auto simp: kB62Alphabet_runs nth_append unat_of_nat simp del: upt_rec_numeral of_nat_add)

lemma kB62Value_unats:
  "map unat kB62Value = replicate 48 255 @ [0..<10] @ replicate 7 255 @ [10..<36]
     @ replicate 6 255 @ [36..<62] @ replicate 133 255"
  by (simp add: kB62Value_def upt_rec)

lemma length_kB62Value [simp]: "length kB62Value = 256"
  by (simp add: kB62Value_def)

lemma kB62Value_nth:
  assumes "i < 256"
  shows "unat (kB62Value ! i) =
     (if 48 \<le> i \<and> i < 58 then i - 48 else if 65 \<le> i \<and> i < 91 then i - 55
      else if 97 \<le> i \<and> i < 123 then i - 61 else 255)"
proof -
  have eq: "unat (kB62Value ! i) = map unat kB62Value ! i" using assms by simp
  consider "i < 48" | "48 \<le> i" "i < 58" | "58 \<le> i" "i < 65" | "65 \<le> i" "i < 91"
    | "91 \<le> i" "i < 97" | "97 \<le> i" "i < 123" | "123 \<le> i" by linarith
  then show ?thesis using assms
    by cases (simp_all add: eq kB62Value_unats nth_append less_diff_conv2 del: upt_rec_numeral)
qed

definition b62_char :: "nat \<Rightarrow> u8" where "b62_char d = kB62Alphabet ! d"
definition b62_valid :: "u8 \<Rightarrow> bool" where "b62_valid c \<longleftrightarrow> kB62Value ! unat c \<noteq> 0xff"
definition b62_digit :: "u8 \<Rightarrow> nat" where "b62_digit c = unat (kB62Value ! unat c)"

lemma b62_digit_ranges:
  "b62_digit c = (if 48 \<le> unat c \<and> unat c < 58 then unat c - 48
     else if 65 \<le> unat c \<and> unat c < 91 then unat c - 55
     else if 97 \<le> unat c \<and> unat c < 123 then unat c - 61 else 255)"
  using kB62Value_nth [OF unat_u8_less, of c] by (simp add: b62_digit_def)

lemma b62_valid_iff: "b62_valid c \<longleftrightarrow> b62_digit c \<noteq> 255"
  by (simp add: b62_valid_def b62_digit_def word_unat_eq_iff)

lemma b62_char_digit:
  assumes "b62_valid c"
  shows "b62_digit c < 62" "b62_char (b62_digit c) = c"
  using assms unat_u8_less [of c]
  by (auto simp: b62_valid_iff b62_digit_def b62_char_def kB62Value_nth kB62Alphabet_nth
      word_unat_eq_iff split: if_splits)

lemma b62_digit_char:
  assumes "d < 62"
  shows "b62_digit (b62_char d) = d" "b62_valid (b62_char d)"
  using assms
  by (auto simp: b62_valid_iff b62_digit_def b62_char_def kB62Value_nth kB62Alphabet_nth
      split: if_splits)

lemma b62_char_less:
  assumes "i < 62" "j < 62"
  shows "b62_char i < b62_char j \<longleftrightarrow> i < j"
  using assms by (auto simp: b62_char_def kB62Alphabet_nth word_less_nat_alt)

definition b62_string :: "nat \<Rightarrow> u8 list" where
  "b62_string n = map b62_char (be_digits 62 27 n)"

section \<open>What the encoder computes\<close>

lemma encode_loop_spec:
  assumes "V = be_val 4294967296 (map unat bp)" "V < 62 ^ n" "bp = [] \<or> 0 < n" "n \<le> length out"
  shows "\<exists>m out'. base62_encode_loop bp n out = Done (m, out') \<and> m \<le> n \<and> length out' = length out \<and>
    replicate m 0x30 @ drop m out' = map b62_char (be_digits 62 n V) @ drop n out"
  using assms
proof (induction n arbitrary: bp out V)
  case 0
  then show ?case by (simp add: base62_encode_loop.simps)
next
  case (Suc m)
  show ?case
  proof (cases "bp = []")
    case True
    have zero: "be_digits 62 k 0 = replicate k 0" for k
      by (induction k) (auto simp: replicate_append_same)
    have "b62_char 0 = 0x30" by (simp add: b62_char_def kB62Alphabet_def)
    with True Suc.prems(1) show ?thesis
      by (auto simp: base62_encode_loop.simps zero simp del: be_digits.simps replicate_Suc)
  next
    case False
    obtain bq r where d: "base62_encode_divide bp [] 0 = (bq, r)" by fastforce
    note sp = encode_divide_spec [OF d, folded Suc.prems(1)]
    have r: "unat r < 62" by (simp add: sp(2))
    have lt: "V div 62 < 62 ^ m" using Suc.prems(2) by (simp add: div_less_iff_less_mult mult.commute)
    have "bq = [] \<or> 0 < m" using sp(3) lt by (cases m) auto
    then obtain k out' where ih: "base62_encode_loop bq m (out[m := kB62Alphabet ! unat r]) = Done (k, out')"
      "k \<le> m" "length out' = length out"
      "replicate k 0x30 @ drop k out' = map b62_char (be_digits 62 m (V div 62)) @ drop m (out[m := kB62Alphabet ! unat r])"
      using Suc.IH [of "V div 62" bq "out[m := kB62Alphabet ! unat r]"] Suc.prems(4) lt sp(1) by auto
    have "base62_encode_loop bp (Suc m) out = Done (k, out')"
      using False d r Suc.prems(4) ih(1)
      by (simp add: base62_encode_loop.simps [of bp] peek_def poke_def)
    moreover have "drop m (out[m := kB62Alphabet ! unat r]) = b62_char (V mod 62) # drop (Suc m) out"
      using Suc.prems(4) sp(2) by (simp add: b62_char_def drop_update_swap Cons_nth_drop_Suc [symmetric])
    ultimately show ?thesis using ih by auto
  qed
qed

lemma b62_fits: "(256::nat) ^ 20 < 62 ^ 27"
  by simp

lemma limbs_val:
  assumes "length inp = 20"
  shows "be_val 4294967296 (map unat [chronoid_be32_load inp, chronoid_be32_load (drop 4 inp),
                chronoid_be32_load (drop 8 inp), chronoid_be32_load (drop 12 inp),
                chronoid_be32_load (drop 16 inp)]) = bytes_val inp"
proof -
  define gs where "gs = map (\<lambda>k. map unat (take 4 (drop k inp))) [0, 4, 8, 12, 16]"
  have "inp = take 4 inp @ take 4 (drop 4 inp) @ take 4 (drop 8 inp) @ take 4 (drop 12 inp) @ take 4 (drop 16 inp)"
    using assms append_take_drop_id [of 4 "drop 4 inp"] append_take_drop_id [of 4 "drop 8 inp"] append_take_drop_id [of 4 "drop 12 inp"] append_take_drop_id [of 4 inp]
    by (simp add: add.commute)
  then have "map unat inp = concat gs"
    unfolding gs_def by (simp flip: map_append)
  moreover have "\<forall>g \<in> set gs. length g = 4" using assms by (auto simp: gs_def)
  ultimately have "bytes_val inp = be_val 4294967296 (map (be_val 256) gs)"
    using be_val_concat [of gs 4 256] by (simp add: bytes_val_def)
  then show ?thesis using assms
    by (simp add: gs_def be32_load_val bytes_val_def)
qed

lemma encode_spec:
  assumes "length inp = 20" "length out = 27"
  shows "chronoid_base62_encode out inp = Done (b62_string (bytes_val inp))"
proof -
  let ?bp = "[chronoid_be32_load inp, chronoid_be32_load (drop 4 inp),
                chronoid_be32_load (drop 8 inp), chronoid_be32_load (drop 12 inp),
                chronoid_be32_load (drop 16 inp)]"
  have "bytes_val inp < 62 ^ 27"
    using bytes_val_less [of inp] b62_fits assms(1) by simp
  then obtain m out' where "base62_encode_loop ?bp 27 out = Done (m, out')" "m \<le> 27" "length out' = 27"
    "replicate m 0x30 @ drop m out' = b62_string (bytes_val inp)"
    using encode_loop_spec [OF limbs_val [OF assms(1), symmetric], of 27 out] assms(2)
    by (auto simp: b62_string_def)
  then show ?thesis
    by (auto simp: chronoid_base62_encode_def Let_def buf_put_def)
qed

section \<open>What the decoder computes\<close>

lemma decode_loop_spec:
  assumes "V = be_val 62 (map unat bp)" "\<forall>x \<in> set (map unat bp). x < 62"
    and "bp = [] \<or> 0 < k \<or> 0 < V" "4 * k \<le> length out"
  shows "\<exists>e m out'. base62_decode_loop bp (4 * k) out = (e, m, out') \<and> m \<le> 4 * k \<and> length out' = length out \<and>
    (if V < 256 ^ (4 * k) then e = CHRONOID_KSUID_OK \<and> replicate m 0 @ drop m out' = bytes_of_nat (4 * k) V @ drop (4 * k) out
     else e = CHRONOID_KSUID_ERR_STR_VALUE)"
  using assms
proof (induction k arbitrary: bp out V)
  case 0
  then show ?case
    by (auto simp: base62_decode_loop.simps [of bp] bytes_of_nat_0 split: prod.splits)
next
  case (Suc k)
  show ?case
  proof (cases "bp = []")
    case True
    have zero: "bytes_of_nat j 0 = replicate j 0" for j
      by (induction j) (auto simp: bytes_of_nat_0 bytes_of_nat_Suc replicate_append_same)
    with True Suc.prems(1) show ?thesis
      by (auto simp: base62_decode_loop.simps simp del: replicate_Suc mult_Suc_right)
  next
    case False
    obtain bq r where d: "base62_decode_divide bp [] 0 = (bq, r)" by fastforce
    note sp = decode_divide_spec [OF d Suc.prems(2), folded Suc.prems(1)]
    define out1 where "out1 = buf_put out (4 * k) (bytes_of_nat 4 (unat r))"
    have "out[4 * k := ucast (drop_bit 24 r), Suc (4 * k) := ucast (drop_bit 16 r), 4 * k + 2 := ucast (drop_bit 8 r), 4 * k + 3 := ucast r] = out1"
      using Suc.prems(4) unfolding out1_def
      by (subst buf_put4) (simp_all add: byte_drop bytes_of_nat_4)
    then have step: "base62_decode_loop bp (4 * Suc k) out = base62_decode_loop bq (4 * k) out1"
      using False d by (simp add: base62_decode_loop.simps [of bp] numeral_3_eq_3)
    have len: "length out1 = length out" using Suc.prems(4) by (simp add: out1_def len_simps)
    have lt: "V div 4294967296 < 256 ^ (4 * k) \<longleftrightarrow> V < 256 ^ (4 * Suc k)"
      by (simp add: div_less_iff_less_mult power_add mult.commute)
    have "bq = [] \<or> 0 < k \<or> 0 < V div 4294967296" using sp(3) by auto
    then obtain e m out' where ih: "base62_decode_loop bq (4 * k) out1 = (e, m, out')" "m \<le> 4 * k" "length out' = length out"
       "if V < 256 ^ (4 * Suc k) then e = CHRONOID_KSUID_OK \<and> replicate m 0 @ drop m out' = bytes_of_nat (4 * k) (V div 4294967296) @ drop (4 * k) out1
     else e = CHRONOID_KSUID_ERR_STR_VALUE"
      using Suc.IH [of "V div 4294967296" bq out1] sp(1,4) Suc.prems(4) len unfolding lt by auto
    have "drop (4 * k) out1 = bytes_of_nat 4 V @ drop (4 * Suc k) out"
      using Suc.prems(4) sp(2) bytes_of_nat_mod [of 4 V] by (simp add: out1_def buf_put_def add.commute)
    then have "bytes_of_nat (4 * k) (V div 4294967296) @ drop (4 * k) out1 = bytes_of_nat (4 * Suc k) V @ drop (4 * Suc k) out"
      using bytes_of_nat_add [of "4 * k" 4 V] by (simp add: add.commute)
    with ih step show ?thesis by auto
  qed
qed

section \<open>Decoding over any kernel\<close>

text \<open>
  What the decoder relies on: the kernel says no exactly when one of its 16 characters is outside
  the alphabet, and otherwise it has stored their digit values.
\<close>

locale b62_kernel =
  fixes tr16 :: translate16
  assumes rejects: "16 \<le> length inp \<Longrightarrow> fst (tr16 inp) < 0 \<longleftrightarrow> \<not> list_all b62_valid (take 16 inp)"
    and translates: "16 \<le> length inp \<Longrightarrow> list_all b62_valid (take 16 inp) \<Longrightarrow>
      snd (tr16 inp) = map (\<lambda>c. kB62Value ! unat c) (take 16 inp)"

text \<open>The number a string of alphabet characters writes.\<close>

definition b62_val :: "u8 list \<Rightarrow> nat" where
  "b62_val s = be_val 62 (map b62_digit s)"

text \<open>The strings the decoder accepts.\<close>

definition b62_decodable :: "u8 list \<Rightarrow> bool" where
  "b62_decodable s \<longleftrightarrow> list_all b62_valid s \<and> b62_val s < 256 ^ CHRONOID_KSUID_BYTES"

lemmas b62_eval =
  b62_decodable_def b62_valid_iff b62_digit_ranges b62_val_def bytes_of_nat_def be_digits_numeral

lemma map_drop_nth: "n = length xs \<Longrightarrow> map (\<lambda>i. f (xs ! i)) [k..<n] = map f (drop k xs)"
  by (rule nth_equalityI) simp_all

lemma list_all_take_drop: "list_all P xs \<longleftrightarrow> list_all P (take k xs) \<and> list_all P (drop k xs)"
  by (metis append_take_drop_id list_all_append)

lemma unat_b62_digits: "map unat (map (\<lambda>c. kB62Value ! unat c) s) = map b62_digit s"
  by (simp add: b62_digit_def)

lemma b62_digits_less: "list_all b62_valid s \<Longrightarrow> \<forall>d \<in> set (map b62_digit s). d < 62"
  by (auto simp: list_all_iff b62_char_digit)

context b62_kernel
begin

lemma decode_unfold:
  assumes "length inp = 27"
  shows "chronoid_base62_decode tr16 out inp =
    (if \<not> list_all b62_valid inp then (CHRONOID_KSUID_ERR_STR_VALUE, out)
     else case base62_decode_loop (map (\<lambda>c. kB62Value ! unat c) inp) CHRONOID_KSUID_BYTES out of
       (e, n, out') \<Rightarrow>
          if e \<noteq> CHRONOID_KSUID_OK then (e, out')
          else (CHRONOID_KSUID_OK, if n > 0 then buf_put out' 0 (replicate n 0) else out'))"
proof -
  have tail: "map (\<lambda>i. kB62Value ! unat (inp ! i)) [16..<27] = map (\<lambda>c. kB62Value ! unat c) (drop 16 inp)"
    by (rule map_drop_nth) (simp add: assms)
  have bad: "list_ex (\<lambda>v. v = 0xff) (map (\<lambda>c. kB62Value ! unat c) (drop 16 inp)) \<longleftrightarrow> \<not> list_all b62_valid (drop 16 inp)"
    by (auto simp: list_ex_iff list_all_iff b62_valid_def)
  have all: "list_all b62_valid inp \<longleftrightarrow> list_all b62_valid (take 16 inp) \<and> list_all b62_valid (drop 16 inp)"
    by (rule list_all_take_drop)
  show ?thesis
  proof (cases "list_all b62_valid (take 16 inp)")
    case True
    then have "map (\<lambda>c. kB62Value ! unat c) inp = snd (tr16 inp) @ map (\<lambda>c. kB62Value ! unat c) (drop 16 inp)"
      using translates [of inp] assms by (simp flip: map_append)
    moreover have "\<not> fst (tr16 inp) < 0" using True rejects [of inp] assms by simp
    ultimately show ?thesis
      unfolding chronoid_base62_decode_def tail Let_def bad all
      by (simp add: True split_beta)
  next
    case False
    then have "fst (tr16 inp) < 0" using rejects [of inp] assms by simp
    with False show ?thesis
      unfolding chronoid_base62_decode_def all by (simp add: split_beta)
  qed
qed

lemma decode_spec:
  assumes "length inp = 27" "length out = 20"
  shows "\<exists>out'. length out' = 20 \<and> chronoid_base62_decode tr16 out inp =
    (if b62_decodable inp then (CHRONOID_KSUID_OK, bytes_of_nat 20 (b62_val inp))
     else (CHRONOID_KSUID_ERR_STR_VALUE, out'))"
proof (cases "list_all b62_valid inp")
  case False
  then show ?thesis using assms(2) decode_unfold [OF assms(1)] by (auto simp: b62_decodable_def)
next
  case True
  define bp where "bp = map (\<lambda>c. kB62Value ! unat c) inp"
  have bp: "map unat bp = map b62_digit inp" unfolding bp_def by (rule unat_b62_digits)
  obtain e m out' where l: "base62_decode_loop bp 20 out = (e, m, out')" "m \<le> 20" "length out' = 20"
    "if b62_val inp < 256 ^ 20 then e = CHRONOID_KSUID_OK \<and> replicate m 0 @ drop m out' = bytes_of_nat 20 (b62_val inp)
     else e = CHRONOID_KSUID_ERR_STR_VALUE"
    using decode_loop_spec [OF refl, of bp 5 out] assms(2) b62_digits_less [OF True]
    by (auto simp: bp b62_val_def)
  then show ?thesis
    using True assms decode_unfold [OF assms(1), of out] by (auto simp: bp_def b62_decodable_def buf_put_def split: if_splits)
qed

end

interpretation scalar16: b62_kernel chronoid_base62_translate16_scalar
  by unfold_locales
     (simp_all add: chronoid_base62_translate16_scalar_def take_upt list_all_iff b62_valid_def Ball_def)

section \<open>Strings and numbers\<close>

lemma length_b62_string [simp]: "length (b62_string n) = 27"
  by (simp add: b62_string_def)

lemma b62_string_valid: "list_all b62_valid (b62_string n)"
  using be_digits_less [of 62 27 n] by (auto simp: b62_string_def list_all_iff b62_digit_char)

lemma b62_digits_string: "map b62_digit (b62_string n) = be_digits 62 27 n"
  using be_digits_less [of 62 27 n]
  by (auto simp: b62_string_def b62_digit_char intro!: map_idI)

lemma b62_val_string: "n < 62 ^ 27 \<Longrightarrow> b62_val (b62_string n) = n"
  by (simp add: b62_val_def b62_digits_string be_val_digits_fits)

lemma b62_string_val:
  assumes "list_all b62_valid s" "length s = 27"
  shows "b62_string (b62_val s) = s"
proof -
  have "be_digits 62 27 (b62_val s) = map b62_digit s"
    using be_digits_val [OF b62_digits_less [OF assms(1)]] assms(2) by (simp add: b62_val_def)
  then show ?thesis
    using assms(1) by (auto simp: b62_string_def list_all_iff b62_char_digit intro!: map_idI)
qed

lemma bytes_val_20: "length inp = 20 \<Longrightarrow> bytes_val inp < 62 ^ 27"
  using bytes_val_less [of inp] b62_fits by simp

lemma b62_string_decodable:
  "length inp = 20 \<Longrightarrow> b62_decodable (b62_string (bytes_val inp))"
  using bytes_val_less [of inp]
  by (simp add: b62_decodable_def b62_string_valid b62_val_string bytes_val_20)

lemma map_b62_char_less:
  assumes "length xs = length ys" "\<forall>d \<in> set xs. d < 62" "\<forall>d \<in> set ys. d < 62"
  shows "map b62_char xs < map b62_char ys \<longleftrightarrow> xs < ys"
  using assms
proof (induction xs ys rule: list_induct2)
  case Nil
  then show ?case by simp
next
  case (Cons x xs y ys)
  moreover have "b62_char x = b62_char y \<longleftrightarrow> x = y"
    using Cons.prems b62_digit_char by (metis list.set_intros(1))
  ultimately show ?case by (simp add: b62_char_less)
qed

text \<open>The alphabet is in ASCII order, so strings compare as the numbers they write.\<close>

lemma b62_string_less:
  assumes "m < 62 ^ 27" "n < 62 ^ 27"
  shows "b62_string m < b62_string n \<longleftrightarrow> m < n"
proof -
  have "b62_string m < b62_string n \<longleftrightarrow> be_digits 62 27 m < be_digits 62 27 n"
    unfolding b62_string_def by (rule map_b62_char_less) (use be_digits_less [of 62] in simp_all)
  also have "\<dots> \<longleftrightarrow> m < n"
    using be_val_mono [of "be_digits 62 27 m" "be_digits 62 27 n" 62] be_digits_less [of 62 27]
    by (simp only: length_be_digits be_val_digits_fits [OF assms(1)] be_val_digits_fits [OF assms(2)])
       simp
  finally show ?thesis .
qed

lemma b62_val_bytes: "length k = 20 \<Longrightarrow> b62_val (b62_string (bytes_val k)) = bytes_val k"
  by (rule b62_val_string [OF bytes_val_20])

lemma b62_string_bytes_less:
  "length j = 20 \<Longrightarrow> length k = 20 \<Longrightarrow> b62_string (bytes_val j) < b62_string (bytes_val k) \<longleftrightarrow> j < k"
  by (subst b62_string_less [OF bytes_val_20 bytes_val_20]) (simp_all add: bytes_val_mono)

end
