(* ===== verification/Base62_Simd.thy ===== *)
theory Base62_Simd
  imports Base62 Simd
begin

text \<open>
  The vectorised translate kernels of the base-62 decoder (\<open>chronoid/ksuid/base62_sse2.c\<close>,
  \<open>base62_neon.c\<close>) and the compile-time choice between them (\<open>base62_simd.h\<close>). Both are shown to
  meet the decoder's contract, so the decoder does the same on every build.
\<close>

section \<open>The SSE2 kernel\<close>

definition chronoid_base62_translate16_sse2 :: translate16 where
  "chronoid_base62_translate16_sse2 inp =
     (let v = mm_loadu_si128 inp;
          d = mm_sub_epi8 v (mm_set1_epi8 (of_char (CHR ''0'')));
          d_mask = mm_cmpeq_epi8 (mm_min_epu8 d (mm_set1_epi8 9)) d;
          d_val = mm_and_si128 d_mask d;
          u = mm_sub_epi8 v (mm_set1_epi8 (of_char (CHR ''A'')));
          u_mask = mm_cmpeq_epi8 (mm_min_epu8 u (mm_set1_epi8 25)) u;
          u_val = mm_and_si128 u_mask (mm_add_epi8 u (mm_set1_epi8 10));
          l = mm_sub_epi8 v (mm_set1_epi8 (of_char (CHR ''a'')));
          l_mask = mm_cmpeq_epi8 (mm_min_epu8 l (mm_set1_epi8 25)) l;
          l_val = mm_and_si128 l_mask (mm_add_epi8 l (mm_set1_epi8 36));
          any_mask = mm_or_si128 (mm_or_si128 d_mask u_mask) l_mask;
          values = mm_or_si128 (mm_or_si128 d_val u_val) l_val;
          invalid_fill = mm_andnot_si128 any_mask (mm_set1_epi8 0xff);
          result = mm_or_si128 values invalid_fill
      in (if mm_movemask_epi8 any_mask = 0xffff then 0 else - 1, result))"

section \<open>The NEON kernel\<close>

text \<open>The validity reduction has an AArch64 and an ARMv7 form, chosen at compile time.\<close>

definition neon_min_is_ff :: "bool \<Rightarrow> vec \<Rightarrow> bool" where
  "neon_min_is_ff aarch64 m =
     (if aarch64 then vminvq_u8 m = 0xff
      else let lo = vget_low_u8 m;
               hi = vget_high_u8 m;
               both = vand_u8 lo hi;
               r = vpmin_u8 both both;
               r' = vpmin_u8 r r;
               r'' = vpmin_u8 r' r'
           in vget_lane_u8 r'' 0 = 0xff)"

definition chronoid_base62_translate16_neon :: "bool \<Rightarrow> translate16" where
  "chronoid_base62_translate16_neon aarch64 inp =
     (let v = vld1q_u8 inp;
          d = vsubq_u8 v (vdupq_n_u8 (of_char (CHR ''0'')));
          d_mask = vcleq_u8 d (vdupq_n_u8 9);
          d_val = vandq_u8 d_mask d;
          u = vsubq_u8 v (vdupq_n_u8 (of_char (CHR ''A'')));
          u_mask = vcleq_u8 u (vdupq_n_u8 25);
          u_val = vandq_u8 u_mask (vaddq_u8 u (vdupq_n_u8 10));
          l = vsubq_u8 v (vdupq_n_u8 (of_char (CHR ''a'')));
          l_mask = vcleq_u8 l (vdupq_n_u8 25);
          l_val = vandq_u8 l_mask (vaddq_u8 l (vdupq_n_u8 36));
          any_mask = vorrq_u8 (vorrq_u8 d_mask u_mask) l_mask;
          values = vorrq_u8 (vorrq_u8 d_val u_val) l_val;
          invalid_fill = vbicq_u8 (vdupq_n_u8 0xff) any_mask;
          result = vorrq_u8 values invalid_fill
      in (if neon_min_is_ff aarch64 any_mask then 0 else - 1, result))"

section \<open>The compile-time choice\<close>

datatype simd_target = Sse2 | Neon bool | Scalar

text \<open>
  \<open>CHRONOID_HAVE_SSE2\<close> wins over \<open>CHRONOID_HAVE_NEON\<close>; the argument of \<open>Neon\<close> says whether the
  compiler targets AArch64.
\<close>

fun CHRONOID_BASE62_TRANSLATE16 :: "simd_target \<Rightarrow> translate16" where
  "CHRONOID_BASE62_TRANSLATE16 Sse2 = chronoid_base62_translate16_sse2"
| "CHRONOID_BASE62_TRANSLATE16 (Neon aarch64) = chronoid_base62_translate16_neon aarch64"
| "CHRONOID_BASE62_TRANSLATE16 Scalar = chronoid_base62_translate16_scalar"

section \<open>One lane\<close>

text \<open>What all three range tests together do to one byte.\<close>

definition b62_lane :: "u8 \<Rightarrow> u8" where
  "b62_lane x =
     (lane_mask (x - 0x30 \<le> 9) AND (x - 0x30)) OR (lane_mask (x - 0x41 \<le> 25) AND (x - 0x41 + 10))
     OR (lane_mask (x - 0x61 \<le> 25) AND (x - 0x61 + 36))
     OR lane_mask (\<not> (x - 0x30 \<le> 9 \<or> x - 0x41 \<le> 25 \<or> x - 0x61 \<le> 25))"

lemma u8_range:
  "unat c + unat w < 256 \<Longrightarrow> (x :: u8) - c \<le> w \<longleftrightarrow> unat c \<le> unat x \<and> unat x \<le> unat c + unat w"
  using unat_u8_less [of x] unat_u8_less [of c] by (auto simp: word_le_nat_alt unat_sub_if')

lemma b62_ranges:
  "x - 0x30 \<le> (9 :: u8) \<longleftrightarrow> 48 \<le> unat x \<and> unat x < 58"
  "x - 0x41 \<le> (25 :: u8) \<longleftrightarrow> 65 \<le> unat x \<and> unat x < 91"
  "x - 0x61 \<le> (25 :: u8) \<longleftrightarrow> 97 \<le> unat x \<and> unat x < 123"
  by (auto simp: u8_range)

lemma b62_lane_table: "b62_lane x = kB62Value ! unat x"
proof (rule unsigned_word_eqI)
  have x: "unat x < 256" by (rule unat_u8_less)
  consider "48 \<le> unat x \<and> unat x < 58" | "65 \<le> unat x \<and> unat x < 91"
    | "97 \<le> unat x \<and> unat x < 123"
    | "\<not> (48 \<le> unat x \<and> unat x < 58)" "\<not> (65 \<le> unat x \<and> unat x < 91)"
      "\<not> (97 \<le> unat x \<and> unat x < 123)" by blast
  then show "unat (b62_lane x) = unat (kB62Value ! unat x)"
    by cases (auto simp: b62_lane_def b62_ranges kB62Value_nth [OF x] lane_mask_def unat_sub_if'
        unat_word_ariths)
qed

lemma b62_lane_valid: "b62_valid x \<longleftrightarrow> x - 0x30 \<le> 9 \<or> x - 0x41 \<le> 25 \<or> x - 0x61 \<le> 25"
  using unat_u8_less [of x]
  by (auto simp: b62_valid_iff b62_digit_def b62_ranges kB62Value_nth split: if_splits)

section \<open>The kernels meet the contract\<close>

lemma min_eq_iff: "min x c = x \<longleftrightarrow> x \<le> (c :: u8)"
  by (auto simp: min_def)

lemma sse2_lanes:
  assumes "16 \<le> length inp"
  shows "chronoid_base62_translate16_sse2 inp =
     (if list_all b62_valid (take 16 inp) then 0 else - 1, map b62_lane (take 16 inp))"
  using assms
  by (simp add: chronoid_base62_translate16_sse2_def Let_def mm_defs lane_simps min_eq_iff
      movemask_full b62_lane_valid [abs_def] b62_lane_def [abs_def] or.assoc)

lemma neon_min_masks:
  "length xs = 16 \<Longrightarrow> neon_min_is_ff aarch64 (map (\<lambda>x. lane_mask (P x)) xs) \<longleftrightarrow> list_all P xs"
  by (simp add: neon_min_is_ff_def minvq_full Let_def pmin_full [OF _ refl refl refl refl])

lemma neon_lanes:
  assumes "16 \<le> length inp"
  shows "chronoid_base62_translate16_neon aarch64 inp =
     (if list_all b62_valid (take 16 inp) then 0 else - 1, map b62_lane (take 16 inp))"
  using assms
  by (simp add: chronoid_base62_translate16_neon_def Let_def neon_defs lane_simps
      neon_min_masks b62_lane_valid [abs_def] b62_lane_def [abs_def] or.assoc)

lemma scalar_lanes:
  assumes "16 \<le> length inp"
  shows "chronoid_base62_translate16_scalar inp =
     (if list_all b62_valid (take 16 inp) then 0 else - 1, map b62_lane (take 16 inp))"
  using assms
  by (simp add: chronoid_base62_translate16_scalar_def take_upt list_all_iff b62_valid_def Ball_def
      b62_lane_table [abs_def])

interpretation sse2_16: b62_kernel chronoid_base62_translate16_sse2
  by unfold_locales (simp_all add: sse2_lanes b62_lane_table)

interpretation neon16: b62_kernel "chronoid_base62_translate16_neon aarch64"
  by unfold_locales (simp_all add: neon_lanes b62_lane_table)

lemma target_lanes:
  "16 \<le> length inp \<Longrightarrow> CHRONOID_BASE62_TRANSLATE16 t inp =
     (if list_all b62_valid (take 16 inp) then 0 else - 1, map b62_lane (take 16 inp))"
  by (cases t) (simp_all add: sse2_lanes neon_lanes scalar_lanes)

interpretation any16: b62_kernel "CHRONOID_BASE62_TRANSLATE16 t"
  by unfold_locales (simp_all add: target_lanes b62_lane_table)

end
