(* ===== verification/Compare.thy ===== *)
theory Compare
  imports Simd Base62_Simd
begin

text \<open>
  The 20-byte comparison kernels (\<open>chronoid/ksuid/compare_scalar.c\<close>, \<open>compare_sse2.c\<close>,
  \<open>compare_neon.c\<close>) and the compile-time choice (\<open>compare_simd.h\<close>). The contract every kernel
  has to meet is a locale; each kernel is an interpretation of it.
\<close>

section \<open>The kernels\<close>

text \<open>
  \<open>memcmp\<close>: only the sign of its result is specified, and only its sign is used. The value here
  is that sign.
\<close>

definition memcmp :: "u8 list \<Rightarrow> u8 list \<Rightarrow> nat \<Rightarrow> int" where
  "memcmp a b n = (if take n a < take n b then - 1 else if take n a = take n b then 0 else 1)"

definition chronoid_ksuid_compare20_scalar :: "u8 list \<Rightarrow> u8 list \<Rightarrow> int" where
  "chronoid_ksuid_compare20_scalar a b =
     (let r = memcmp a b 20 in of_bool (r > 0) - of_bool (r < 0))"

text \<open>
  The loop \<open>for (i ...; i < i + k; ++i) if (a[i] != b[i]) return ...\<close>; \<open>None\<close> is falling through.
\<close>

fun first_difference :: "u8 list \<Rightarrow> u8 list \<Rightarrow> nat \<Rightarrow> nat \<Rightarrow> int option" where
  "first_difference a b i 0 = None"
| "first_difference a b i (Suc k) =
     (if a ! i \<noteq> b ! i then Some (if a ! i < b ! i then - 1 else 1)
      else first_difference a b (Suc i) k)"

definition chronoid_ksuid_first_diff_sse2 :: "u32 \<Rightarrow> nat" where
  "chronoid_ksuid_first_diff_sse2 eq_mask =
     (let diff = NOT eq_mask AND 0xffff in if diff = 0 then 16 else builtin_ctz diff)"

definition chronoid_ksuid_compare20_sse2 :: "u8 list \<Rightarrow> u8 list \<Rightarrow> int" where
  "chronoid_ksuid_compare20_sse2 a b =
     (let va = mm_loadu_si128 a;
          vb = mm_loadu_si128 b;
          veq = mm_cmpeq_epi8 va vb;
          eq_mask = mm_movemask_epi8 veq;
          idx = chronoid_ksuid_first_diff_sse2 eq_mask
      in if idx < 16 then (if a ! idx < b ! idx then - 1 else 1)
      else case first_difference a b 16 4 of Some r \<Rightarrow> r | None \<Rightarrow> 0)"

definition chronoid_ksuid_compare20_neon :: "bool \<Rightarrow> u8 list \<Rightarrow> u8 list \<Rightarrow> int" where
  "chronoid_ksuid_compare20_neon aarch64 a b =
     (let va = vld1q_u8 a;
          vb = vld1q_u8 b;
          veq = vceqq_u8 va vb;
          head = (if \<not> neon_min_is_ff aarch64 veq then first_difference a b 0 16 else None)
      in case head of
           Some r \<Rightarrow> r
         | None \<Rightarrow> (case first_difference a b 16 4 of Some r \<Rightarrow> r | None \<Rightarrow> 0))"

fun CHRONOID_KSUID_COMPARE20 :: "simd_target \<Rightarrow> u8 list \<Rightarrow> u8 list \<Rightarrow> int" where
  "CHRONOID_KSUID_COMPARE20 Sse2 = chronoid_ksuid_compare20_sse2"
| "CHRONOID_KSUID_COMPARE20 (Neon aarch64) = chronoid_ksuid_compare20_neon aarch64"
| "CHRONOID_KSUID_COMPARE20 Scalar = chronoid_ksuid_compare20_scalar"

section \<open>The contract\<close>

definition byte_order :: "u8 list \<Rightarrow> u8 list \<Rightarrow> int" where
  "byte_order a b = (if a < b then - 1 else if a = b then 0 else 1)"

text \<open>
  What the clients of a comparison use: it is the three-way form of a linear order on the byte
  strings of one length.
\<close>

locale compare_kernel =
  fixes cmp :: "u8 list \<Rightarrow> u8 list \<Rightarrow> int"
  assumes three_way: "length a = 20 \<Longrightarrow> length b = 20 \<Longrightarrow> cmp a b = byte_order a b"
begin

lemma zero_iff: "length a = 20 \<Longrightarrow> length b = 20 \<Longrightarrow> cmp a b = 0 \<longleftrightarrow> a = b"
  by (simp add: three_way byte_order_def)

lemma negative_iff: "length a = 20 \<Longrightarrow> length b = 20 \<Longrightarrow> cmp a b < 0 \<longleftrightarrow> a < b"
  by (simp add: three_way byte_order_def)

lemma antisymmetric: "length a = 20 \<Longrightarrow> length b = 20 \<Longrightarrow> cmp b a = - cmp a b"
  by (auto simp: three_way byte_order_def)

lemma range: "length a = 20 \<Longrightarrow> length b = 20 \<Longrightarrow> cmp a b \<in> {- 1, 0, 1}"
  by (simp add: three_way byte_order_def)

lemma chain:
  assumes "length a = 20" "length b = 20" "length c = 20" "cmp a b \<le> 0" "cmp b c \<le> 0"
  shows "cmp a c \<le> 0"
  using assms by (auto simp: three_way byte_order_def split: if_splits)

end

section \<open>The kernels meet it\<close>

interpretation scalar20: compare_kernel chronoid_ksuid_compare20_scalar
  by unfold_locales
     (simp add: chronoid_ksuid_compare20_scalar_def memcmp_def byte_order_def Let_def)

lemma less_at:
  assumes "length a = length b" "i < length a" "take i a = take i b" "a ! i < b ! i"
  shows "(a :: u8 list) < b"
  using assms
proof (induction a b arbitrary: i rule: list_induct2)
  case Nil
  then show ?case by simp
next
  case (Cons x xs y ys)
  then show ?case by (cases i) auto
qed

lemma byte_order_at:
  assumes "length a = length b" "i < length a" "take i a = take i b" "a ! i \<noteq> b ! i"
  shows "byte_order a b = (if a ! i < b ! i then - 1 else 1)"
proof (cases "a ! i < b ! i")
  case True
  then show ?thesis using less_at [OF assms(1-3)] by (simp add: byte_order_def)
next
  case False
  then have "b ! i < a ! i" using assms(4) by simp
  then have "b < a" using less_at [of b a i] assms by simp
  then show ?thesis using False by (auto simp: byte_order_def)
qed

lemma first_difference_order:
  assumes "length a = length b" "i + k = length a" "take i a = take i b"
  shows "(case first_difference a b i k of Some r \<Rightarrow> r | None \<Rightarrow> 0) = byte_order a b"
  using assms
proof (induction a b i k rule: first_difference.induct)
  case (1 a b i)
  then show ?case by (simp add: byte_order_def)
next
  case (2 a b i k)
  show ?case
  proof (cases "a ! i = b ! i")
    case True
    with 2 show ?thesis by (simp add: take_Suc_conv_app_nth)
  next
    case False
    with 2 show ?thesis using byte_order_at [of a b i] by simp
  qed
qed

lemma first_difference_append:
  "first_difference a b i (j + k) =
     (case first_difference a b i j of Some r \<Rightarrow> Some r | None \<Rightarrow> first_difference a b (i + j) k)"
  by (induction a b i j rule: first_difference.induct) (auto split: option.splits)

lemma first_difference_None: "first_difference a b i k = None \<longleftrightarrow> (\<forall>j < k. a ! (i + j) = b ! (i + j))"
proof (induction a b i k rule: first_difference.induct)
  case (1 a b i)
  then show ?case by simp
next
  case (2 a b i k)
  have "(\<forall>j < Suc k. a ! (i + j) = b ! (i + j)) \<longleftrightarrow>
      a ! i = b ! i \<and> (\<forall>j < k. a ! (Suc i + j) = b ! (Suc i + j))"
    by (simp add: All_less_Suc2)
  with 2 show ?case by auto
qed

definition eq_lanes :: "u8 list \<Rightarrow> u8 list \<Rightarrow> bool list" where
  "eq_lanes a b = map (\<lambda>i. a ! i = b ! i) [0..<16]"

lemma cmpeq_lanes:
  assumes "16 \<le> length a" "16 \<le> length b"
  shows "mm_cmpeq_epi8 (mm_loadu_si128 a) (mm_loadu_si128 b) = map lane_mask (eq_lanes a b)"
    and "vceqq_u8 (vld1q_u8 a) (vld1q_u8 b) = map lane_mask (eq_lanes a b)"
  using assms
  by (auto simp: mm_defs neon_defs lanes2_def eq_lanes_def intro!: nth_equalityI)

lemma length_takeWhile_less: "x \<in> set xs \<Longrightarrow> \<not> P x \<Longrightarrow> length (takeWhile P xs) < length xs"
  by (induction xs) auto

lemma first_diff_index:
  assumes "idx = chronoid_ksuid_first_diff_sse2 (mm_movemask_epi8 (map lane_mask (eq_lanes a b)))"
  shows "\<forall>j < idx. j < 16 \<longrightarrow> a ! j = b ! j" "idx < 16 \<Longrightarrow> a ! idx \<noteq> b ! idx" "idx \<le> 16"
proof -
  define diff where "diff = NOT (mm_movemask_epi8 (map lane_mask (eq_lanes a b))) AND 0xffff"
  have bits: "bit diff i \<longleftrightarrow> i < 16 \<and> a ! i \<noteq> b ! i" for i
  proof (cases "i < 32")
    case True
    then have "bit diff i \<longleftrightarrow> \<not> bit (mm_movemask_epi8 (map lane_mask (eq_lanes a b))) i \<and> i < 16"
      unfolding diff_def bit_and_iff bit_not_iff ffff_bit [OF True] by simp
    also have "\<dots> \<longleftrightarrow> i < 16 \<and> a ! i \<noteq> b ! i"
      using True by (auto simp: bit_movemask eq_lanes_def lane_mask_eq)
    finally show ?thesis .
  next
    case False
    then show ?thesis using bit_imp_le_length [of diff i] by auto
  qed
  show "\<forall>j < idx. j < 16 \<longrightarrow> a ! j = b ! j" "idx < 16 \<Longrightarrow> a ! idx \<noteq> b ! idx" "idx \<le> 16"
  proof -
    have "(\<forall>j < idx. j < 16 \<longrightarrow> a ! j = b ! j) \<and> (idx < 16 \<longrightarrow> a ! idx \<noteq> b ! idx) \<and> idx \<le> 16"
    proof (cases "diff = 0")
      case True
      then have "idx = 16" "\<forall>j. \<not> bit diff j"
        by (simp_all add: assms chronoid_ksuid_first_diff_sse2_def Let_def flip: diff_def)
      then show ?thesis using bits by blast
    next
      case False
      then have idx: "idx = length (takeWhile (\<lambda>i. \<not> bit diff i) [0..<32])"
        by (simp add: assms chronoid_ksuid_first_diff_sse2_def builtin_ctz_def Let_def flip: diff_def)
      from False obtain i where i: "bit diff i" by (auto simp: bit_eq_iff)
      then have "i < 32" using bits by auto
      then have lt: "idx < 32"
        unfolding idx using i length_takeWhile_less [of i "[0..<32]" "\<lambda>i. \<not> bit diff i"] by simp
      then have "bit diff idx"
        using nth_length_takeWhile [of "\<lambda>i. \<not> bit diff i" "[0..<32]"] by (simp flip: idx)
      moreover have "\<not> bit diff j" if "j < idx" for j
        using nth_mem [of j "takeWhile (\<lambda>i. \<not> bit diff i) [0..<32]"] that lt
        by (auto simp: takeWhile_nth idx dest: set_takeWhileD)
      ultimately show ?thesis using bits by auto
    qed
    then show "\<forall>j < idx. j < 16 \<longrightarrow> a ! j = b ! j" "idx < 16 \<Longrightarrow> a ! idx \<noteq> b ! idx" "idx \<le> 16"
      by auto
  qed
qed

lemma take_eq_iff_nth:
  "n \<le> length a \<Longrightarrow> n \<le> length b \<Longrightarrow> take n a = take n b \<longleftrightarrow> (\<forall>j < n. a ! j = b ! j)"
  by (auto simp: list_eq_iff_nth_eq)

interpretation sse2_20: compare_kernel chronoid_ksuid_compare20_sse2
proof
  fix a b :: "u8 list"
  assume len: "length a = 20" "length b = 20"
  define idx where
    "idx = chronoid_ksuid_first_diff_sse2 (mm_movemask_epi8 (map lane_mask (eq_lanes a b)))"
  note ix = first_diff_index [OF idx_def]
  then have pre: "take idx a = take idx b" using len by (simp add: take_eq_iff_nth)
  have "byte_order a b =
      (if idx < 16 then (if a ! idx < b ! idx then - 1 else 1)
       else case first_difference a b 16 4 of Some r \<Rightarrow> r | None \<Rightarrow> 0)"
  proof (cases "idx < 16")
    case True
    then show ?thesis using ix pre len byte_order_at [of a b idx] by simp
  next
    case False
    then show ?thesis using ix pre len first_difference_order [of a b 16 4] by simp
  qed
  then show "chronoid_ksuid_compare20_sse2 a b = byte_order a b"
    using len
    by (simp add: chronoid_ksuid_compare20_sse2_def Let_def cmpeq_lanes flip: idx_def)
qed

interpretation neon20: compare_kernel "chronoid_ksuid_compare20_neon aarch64"
proof
  fix a b :: "u8 list"
  assume len: "length a = 20" "length b = 20"
  have "neon_min_is_ff aarch64 (map lane_mask (eq_lanes a b)) \<longleftrightarrow> list_all (\<lambda>x. x) (eq_lanes a b)"
    using neon_min_masks [of "eq_lanes a b" aarch64 "\<lambda>x. x"] by (simp add: eq_lanes_def)
  also have "\<dots> \<longleftrightarrow> first_difference a b 0 16 = None"
    by (simp add: first_difference_None list_all_length eq_lanes_def)
  finally have "chronoid_ksuid_compare20_neon aarch64 a b =
      (case first_difference a b 0 (16 + 4) of Some r \<Rightarrow> r | None \<Rightarrow> 0)"
    unfolding first_difference_append
    using len by (auto simp: chronoid_ksuid_compare20_neon_def Let_def cmpeq_lanes split: option.splits)
  then show "chronoid_ksuid_compare20_neon aarch64 a b = byte_order a b"
    using first_difference_order [of a b 0 20] len by simp
qed

interpretation any20: compare_kernel "CHRONOID_KSUID_COMPARE20 t"
  by unfold_locales (cases t; simp add: scalar20.three_way sse2_20.three_way neon20.three_way)

end
