(* ===== verification/Codec.thy ===== *)
theory Codec
  imports Prelude
begin

text \<open>
  The interface between the identifiers and their textual form, shared by the two identifier
  kinds: a text encoder, a partial decoder, and the identifiers they are for.
\<close>

section \<open>Codecs\<close>

locale id_codec =
  fixes enc :: "'a::linorder \<Rightarrow> u8 list"
    and dec :: "u8 list \<Rightarrow> 'a option"
    and wf :: "'a \<Rightarrow> bool"
  assumes dec_enc: "wf a \<Longrightarrow> dec (enc a) = Some a"
    and dec_wf: "dec s = Some a \<Longrightarrow> wf a"
begin

lemma enc_inj: "wf a \<Longrightarrow> wf b \<Longrightarrow> enc a = enc b \<longleftrightarrow> a = b"
  by (metis dec_enc option.inject)

lemma accepted_iff: "(\<exists>a. dec s = Some a) \<longleftrightarrow> (\<exists>a. wf a \<and> dec s = dec (enc a))"
  by (metis dec_enc dec_wf)

text \<open>Reformatting what was parsed is a normal form: parsing it again changes nothing.\<close>

lemma normal_form: "dec s = Some a \<Longrightarrow> dec (enc a) = dec s"
  by (simp add: dec_enc dec_wf)

end

text \<open>A codec whose texts sort as the identifiers do.\<close>

locale ordered_codec = id_codec +
  assumes enc_mono: "wf a \<Longrightarrow> wf b \<Longrightarrow> enc a < enc b \<longleftrightarrow> a < b"
begin

lemma sorted_texts:
  assumes "\<forall>a \<in> set ids. wf a"
  shows "sorted_wrt (<) (map enc ids) \<longleftrightarrow> sorted_wrt (<) ids"
  using assms by (induction ids) (auto simp: enc_mono)

end

text \<open>A codec that accepts one text per identifier only.\<close>

locale canonical_codec = id_codec +
  assumes enc_dec: "dec s = Some a \<Longrightarrow> enc a = s"
begin

lemma dec_Some_iff: "dec s = Some a \<longleftrightarrow> wf a \<and> s = enc a"
  by (metis dec_enc dec_wf enc_dec)

lemma dec_inj: "dec s = Some a \<Longrightarrow> dec t = Some a \<Longrightarrow> s = t"
  by (metis enc_dec)

lemma dec_None_iff: "dec s = None \<longleftrightarrow> (\<forall>a. wf a \<longrightarrow> s \<noteq> enc a)"
  by (metis dec_Some_iff not_None_eq)

end

end
