(* ===== verification/Ksuid.thy ===== *)
theory Ksuid
  imports Compare Codec
begin

text \<open>
  \<open>chronoid/ksuid/ksuid.c\<close>, without the generators: the sentinel test, comparison, construction
  from bytes and from parts, the accessors, and the text form. An output parameter is passed with
  the value it has before the call and returned with the value it has after it, so that
  \<^emph>\<open>untouched on failure\<close> is a statement about the result.
\<close>

section \<open>Operations\<close>

definition chronoid_ksuid_is_nil :: "ksuid \<Rightarrow> bool" where
  "chronoid_ksuid_is_nil i = (memcmp (ksuid_b i) (replicate 20 0) 20 = 0)"

definition chronoid_ksuid_compare :: "simd_target \<Rightarrow> ksuid \<Rightarrow> ksuid \<Rightarrow> int" where
  "chronoid_ksuid_compare t a b = CHRONOID_KSUID_COMPARE20 t (ksuid_b a) (ksuid_b b)"

definition chronoid_ksuid_from_bytes :: "ksuid \<Rightarrow> u8 list \<Rightarrow> nat \<Rightarrow> ksuid_err \<times> ksuid" where
  "chronoid_ksuid_from_bytes out b n =
     (if n \<noteq> CHRONOID_KSUID_BYTES then (CHRONOID_KSUID_ERR_SIZE, out)
      else (CHRONOID_KSUID_OK, \<lparr>ksuid_b = buf_put (ksuid_b out) 0 (take CHRONOID_KSUID_BYTES b)\<rparr>))"

text \<open>The common tail of \<open>from_parts\<close> and \<open>new_with_time\<close>: store the timestamp, copy the payload.\<close>

definition ksuid_store_parts :: "ksuid \<Rightarrow> u32 \<Rightarrow> u8 list \<Rightarrow> ksuid" where
  "ksuid_store_parts out corrected payload =
     \<lparr>ksuid_b = buf_put (chronoid_be32_store (ksuid_b out) corrected) CHRONOID_KSUID_TIMESTAMP_LEN
        (take CHRONOID_KSUID_PAYLOAD_LEN payload)\<rparr>"

text \<open>The subtraction is on \<open>int64_t\<close>: it is undefined when its result does not fit.\<close>

definition chronoid_ksuid_from_parts ::
    "ksuid \<Rightarrow> i64 \<Rightarrow> u8 list \<Rightarrow> nat \<Rightarrow> (ksuid_err \<times> ksuid) run" where
  "chronoid_ksuid_from_parts out unix_seconds payload payload_len =
     (if payload_len \<noteq> CHRONOID_KSUID_PAYLOAD_LEN
      then Done (CHRONOID_KSUID_ERR_PAYLOAD_SIZE, out)
      else run_bind (i64_chk (unix_seconds - CHRONOID_KSUID_EPOCH_SECONDS)) (\<lambda>corrected.
        if corrected < 0 \<or> corrected > 4294967295
        then Done (CHRONOID_KSUID_ERR_TIME_RANGE, out)
        else Done (CHRONOID_KSUID_OK, ksuid_store_parts out (word_of_int corrected) payload)))"

definition chronoid_ksuid_timestamp :: "ksuid \<Rightarrow> u32" where
  "chronoid_ksuid_timestamp i = chronoid_be32_load (ksuid_b i)"

definition chronoid_ksuid_time_unix :: "ksuid \<Rightarrow> i64" where
  "chronoid_ksuid_time_unix i =
     uint (chronoid_ksuid_timestamp i) + CHRONOID_KSUID_EPOCH_SECONDS"

definition chronoid_ksuid_payload :: "ksuid \<Rightarrow> u8 list" where
  "chronoid_ksuid_payload i = drop CHRONOID_KSUID_TIMESTAMP_LEN (ksuid_b i)"

text \<open>
  \<open>tmp\<close> is the content of the uninitialised stack temporary the decoder writes to.
\<close>

definition chronoid_ksuid_parse ::
    "simd_target \<Rightarrow> u8 list \<Rightarrow> ksuid \<Rightarrow> u8 list \<Rightarrow> nat \<Rightarrow> ksuid_err \<times> ksuid" where
  "chronoid_ksuid_parse t tmp out s len =
     (if len \<noteq> CHRONOID_KSUID_STRING_LEN then (CHRONOID_KSUID_ERR_STR_SIZE, out)
      else case chronoid_base62_decode (CHRONOID_BASE62_TRANSLATE16 t) tmp s of (e, b) \<Rightarrow>
        if e \<noteq> CHRONOID_KSUID_OK then (e, out) else (CHRONOID_KSUID_OK, \<lparr>ksuid_b = b\<rparr>))"

definition chronoid_ksuid_format :: "ksuid \<Rightarrow> u8 list \<Rightarrow> u8 list run" where
  "chronoid_ksuid_format i out = chronoid_base62_encode out (ksuid_b i)"

section \<open>Well-formed identifiers\<close>

lemma wf_ksuid_nil [simp]: "wf_ksuid CHRONOID_KSUID_NIL"
  and wf_ksuid_max [simp]: "wf_ksuid CHRONOID_KSUID_MAX"
  by (simp_all add: wf_ksuid_def CHRONOID_KSUID_NIL_def CHRONOID_KSUID_MAX_def)

lemma wf_length: "wf_ksuid k \<Longrightarrow> length (ksuid_b k) = 20"
  by (simp add: wf_ksuid_def)

lemma store_parts_bytes:
  assumes "wf_ksuid out" "16 \<le> length payload"
  shows "ksuid_b (ksuid_store_parts out v payload) = bytes_of_nat 4 (unat v) @ take 16 payload"
  using assms
  by (simp add: ksuid_store_parts_def wf_ksuid_def be32_store_bytes buf_put_def)

lemma store_parts_wf:
  "wf_ksuid out \<Longrightarrow> 16 \<le> length payload \<Longrightarrow> wf_ksuid (ksuid_store_parts out v payload)"
  using store_parts_bytes [of out payload v] by (simp add: wf_ksuid_def)

section \<open>The text form as a codec\<close>

definition ksuid_text :: "ksuid \<Rightarrow> u8 list" where
  "ksuid_text k = b62_string (bytes_val (ksuid_b k))"

definition ksuid_of_text :: "u8 list \<Rightarrow> ksuid option" where
  "ksuid_of_text s =
     (if length s = 27 \<and> b62_decodable s then Some \<lparr>ksuid_b = bytes_of_nat 20 (b62_val s)\<rparr> else None)"

lemma format_refines:
  "wf_ksuid k \<Longrightarrow> length out = 27 \<Longrightarrow> chronoid_ksuid_format k out = Done (ksuid_text k)"
  by (simp add: chronoid_ksuid_format_def encode_spec wf_ksuid_def ksuid_text_def)

lemma parse_refines:
  assumes "length tmp = 20" "length s = len"
  shows "chronoid_ksuid_parse t tmp out s len =
     (if len \<noteq> 27 then (CHRONOID_KSUID_ERR_STR_SIZE, out)
      else case ksuid_of_text s of
        None \<Rightarrow> (CHRONOID_KSUID_ERR_STR_VALUE, out)
      | Some k \<Rightarrow> (CHRONOID_KSUID_OK, k))"
  using any16.decode_spec [of s tmp t] assms
  by (auto simp: chronoid_ksuid_parse_def ksuid_of_text_def)

interpretation ksuid_codec: canonical_codec ksuid_text ksuid_of_text wf_ksuid
proof
  fix a s
  show "wf_ksuid a \<Longrightarrow> ksuid_of_text (ksuid_text a) = Some a"
    using bytes_val_20 [of "ksuid_b a"]
    by (simp add: ksuid_of_text_def ksuid_text_def wf_ksuid_def b62_string_decodable
        b62_val_string bytes_of_nat_val)
  show "ksuid_of_text s = Some a \<Longrightarrow> wf_ksuid a"
    by (auto simp: ksuid_of_text_def wf_ksuid_def split: if_splits)
  show "ksuid_of_text s = Some a \<Longrightarrow> ksuid_text a = s"
    by (auto simp: ksuid_of_text_def ksuid_text_def b62_decodable_def bytes_val_of_nat
        b62_string_val split: if_splits)
qed

interpretation ksuid_order: ordered_codec ksuid_text ksuid_of_text wf_ksuid
proof
  fix a b
  show "wf_ksuid a \<Longrightarrow> wf_ksuid b \<Longrightarrow> ksuid_text a < ksuid_text b \<longleftrightarrow> a < b"
    by (simp add: ksuid_text_def wf_ksuid_def b62_string_bytes_less ksuid_less_iff)
qed

section \<open>Properties\<close>

text \<open>
  Claim C31. Formatting is total: whatever the caller's 27-character buffer held, the encoder
  stays inside its arrays and leaves 27 alphabet characters in it that write, in base 62, the
  number the 20 bytes are.
\<close>

theorem ksuid_format_spec:
  assumes "wf_ksuid k" "length out = CHRONOID_KSUID_STRING_LEN"
  shows "\<exists>s. chronoid_ksuid_format k out = Done s \<and> length s = CHRONOID_KSUID_STRING_LEN
    \<and> list_all b62_valid s \<and> b62_val s = bytes_val (ksuid_b k)"
  using assms
  by (simp add: format_refines ksuid_text_def b62_string_valid b62_val_bytes wf_length)

lemma ksuid_format_spec_witness:
  "\<exists>s. chronoid_ksuid_format CHRONOID_KSUID_MAX (replicate 27 0) = Done s \<and> length s = 27
    \<and> list_all b62_valid s \<and> b62_val s = bytes_val (ksuid_b CHRONOID_KSUID_MAX)"
  by (rule ksuid_format_spec) simp_all

text \<open>
  Claim C1. Parsing is decided by the text alone, on every build: a wrong length is a size error;
  a character outside the alphabet, or a number that needs more than 160 bits, is a value error;
  anything else succeeds with the 20 bytes of the number. On both errors the caller's identifier
  is what it was, although the decoder itself may have written to its destination.
\<close>

theorem ksuid_parse_spec:
  assumes "length tmp = CHRONOID_KSUID_BYTES" "length s = len"
  shows "chronoid_ksuid_parse t tmp out s len =
     (if len \<noteq> CHRONOID_KSUID_STRING_LEN then (CHRONOID_KSUID_ERR_STR_SIZE, out)
      else if list_all b62_valid s \<and> b62_val s < 2 ^ 160
           then (CHRONOID_KSUID_OK, \<lparr>ksuid_b = bytes_of_nat CHRONOID_KSUID_BYTES (b62_val s)\<rparr>)
           else (CHRONOID_KSUID_ERR_STR_VALUE, out))"
  using assms by (simp add: parse_refines ksuid_of_text_def b62_decodable_def)

lemma ksuid_parse_spec_witness:
  "chronoid_ksuid_parse Sse2 (replicate 20 7) CHRONOID_KSUID_MAX (bytes_of ''abc'') 3 =
     (CHRONOID_KSUID_ERR_STR_SIZE, CHRONOID_KSUID_MAX)"
  using ksuid_parse_spec [of "replicate 20 7" "bytes_of ''abc''" 3 Sse2] by simp

text \<open>
  Claim C5. Round trip: the text of every identifier parses back to that identifier, whichever
  kernel the parser is built with.
\<close>

theorem ksuid_parse_format:
  assumes "wf_ksuid k" "length buf = CHRONOID_KSUID_STRING_LEN" "length tmp = CHRONOID_KSUID_BYTES"
  shows "\<exists>s. chronoid_ksuid_format k buf = Done s
    \<and> chronoid_ksuid_parse t tmp out s (length s) = (CHRONOID_KSUID_OK, k)"
  using assms by (simp add: format_refines parse_refines ksuid_codec.dec_enc) (simp add: ksuid_text_def)

lemma ksuid_parse_format_witness:
  "\<exists>s. chronoid_ksuid_format CHRONOID_KSUID_NIL (replicate 27 0) = Done s
    \<and> chronoid_ksuid_parse Sse2 (replicate 20 7) CHRONOID_KSUID_MAX s (length s) =
      (CHRONOID_KSUID_OK, CHRONOID_KSUID_NIL)"
  by (rule ksuid_parse_format) simp_all

text \<open>
  Claim C27. Texts are canonical: a text that parses is exactly the text its identifier formats to,
  so no two texts name one identifier.
\<close>

theorem ksuid_parse_canonical:
  assumes "length tmp = CHRONOID_KSUID_BYTES" "length s = len" "length buf = CHRONOID_KSUID_STRING_LEN"
    and "chronoid_ksuid_parse t tmp out s len = (CHRONOID_KSUID_OK, k)"
  shows "wf_ksuid k \<and> chronoid_ksuid_format k buf = Done s"
proof -
  have "ksuid_of_text s = Some k"
    using assms by (auto simp: parse_refines split: if_splits option.splits)
  then show ?thesis
    using assms(3) by (simp add: ksuid_codec.dec_Some_iff format_refines)
qed

definition sample_text :: "u8 list" where
  "sample_text = bytes_of ''0ujtsYcgvSTl8PAuAdqWYSMnLOv''"

definition sample_ksuid :: ksuid where
  "sample_ksuid =
     \<lparr>ksuid_b = [0x06, 0x69, 0xf7, 0xef, 0xb5, 0xa1, 0xcd, 0x34, 0xb5, 0xf9, 0x9d, 0x11, 0x54, 0xfb,
        0x68, 0x53, 0x34, 0x5c, 0x97, 0x35]\<rparr>"

lemma sample_parses: "ksuid_of_text sample_text = Some sample_ksuid"
  by (simp add: ksuid_of_text_def b62_eval sample_text_def sample_ksuid_def)

lemma length_sample_text: "length sample_text = 27"
  by (simp add: sample_text_def)

lemma wf_sample [simp]: "wf_ksuid sample_ksuid"
  by (simp add: sample_ksuid_def wf_ksuid_def)

lemma ksuid_parse_canonical_witness:
  "chronoid_ksuid_format sample_ksuid (replicate 27 0) = Done sample_text"
  using ksuid_parse_canonical
    [of "replicate 20 7" sample_text 27 "replicate 27 0" Scalar CHRONOID_KSUID_NIL sample_ksuid]
  by (simp add: parse_refines sample_parses length_sample_text)

lemma max_text: "ksuid_text CHRONOID_KSUID_MAX = bytes_of ''aWgEPTl1tmebfsQzFP4bxwgy80V''"
proof -
  have "ksuid_of_text (bytes_of ''aWgEPTl1tmebfsQzFP4bxwgy80V'') = Some CHRONOID_KSUID_MAX"
    by (simp add: ksuid_of_text_def b62_eval CHRONOID_KSUID_MAX_def replicate_numeral)
  then show ?thesis by (rule ksuid_codec.enc_dec)
qed

lemma decodable_iff_le_max:
  assumes "list_all b62_valid s" "length s = 27"
  shows "b62_decodable s \<longleftrightarrow> s \<le> ksuid_text CHRONOID_KSUID_MAX"
proof -
  have v: "b62_val s < 62 ^ 27"
    using be_val_less [OF b62_digits_less [OF assms(1)]] assms(2) by (simp add: b62_val_def)
  have m: "bytes_val (ksuid_b CHRONOID_KSUID_MAX) = 2 ^ 160 - 1"
    by (simp add: CHRONOID_KSUID_MAX_def)
  have lim: "(2 :: nat) ^ 160 - 1 < 62 ^ 27" by simp
  have "ksuid_text CHRONOID_KSUID_MAX < s \<longleftrightarrow> 2 ^ 160 - 1 < b62_val s"
    using b62_string_less [OF lim v]
    by (simp only: ksuid_text_def m b62_string_val [OF assms])
  then have "s \<le> ksuid_text CHRONOID_KSUID_MAX \<longleftrightarrow> b62_val s < 2 ^ 160"
    by (auto simp: not_less [symmetric])
  then show ?thesis using assms(1) by (simp add: b62_decodable_def)
qed

text \<open>
  The parser's upper limit is the documented text: among the 27-character texts over the
  alphabet it accepts exactly those that are not greater, in ASCII order, than
  \<open>aWgEPTl1tmebfsQzFP4bxwgy80V\<close>, the text of \<open>CHRONOID_KSUID_MAX\<close>.
\<close>

theorem ksuid_parse_limit:
  assumes "length tmp = CHRONOID_KSUID_BYTES" "length s = CHRONOID_KSUID_STRING_LEN"
    and "list_all b62_valid s"
  shows "fst (chronoid_ksuid_parse t tmp out s CHRONOID_KSUID_STRING_LEN) =
     (if s \<le> bytes_of ''aWgEPTl1tmebfsQzFP4bxwgy80V'' then CHRONOID_KSUID_OK
      else CHRONOID_KSUID_ERR_STR_VALUE)"
  using assms decodable_iff_le_max [OF assms(3,2)]
  by (simp add: parse_refines ksuid_of_text_def max_text del: bytes_of_simps)

lemma ksuid_parse_limit_witness:
  "fst (chronoid_ksuid_parse (Neon True) (replicate 20 7) CHRONOID_KSUID_NIL
     (bytes_of ''aWgEPTl1tmebfsQzFP4bxwgy80W'') 27) = CHRONOID_KSUID_ERR_STR_VALUE"
  by (subst ksuid_parse_limit) (simp_all add: b62_valid_iff b62_digit_ranges)

text \<open>
  Texts sort as identifiers: comparing two formatted identifiers byte by byte gives the
  answer \<open>chronoid_ksuid_compare\<close> gives, which is \<open>-1\<close>, \<open>0\<close> or \<open>1\<close> on every build.
\<close>

theorem ksuid_compare_text:
  assumes "wf_ksuid a" "wf_ksuid b" "length p = CHRONOID_KSUID_STRING_LEN"
    and "length q = CHRONOID_KSUID_STRING_LEN"
  shows "\<exists>s s'. chronoid_ksuid_format a p = Done s \<and> chronoid_ksuid_format b q = Done s'
    \<and> chronoid_ksuid_compare t a b = (if s < s' then - 1 else if s = s' then 0 else 1)"
  using assms
  by (simp add: format_refines ksuid_order.enc_mono ksuid_codec.enc_inj chronoid_ksuid_compare_def
      any20.three_way byte_order_def wf_length ksuid_less_iff ksuid_eq_iff)

lemma ksuid_compare_text_witness:
  "\<exists>s s'. chronoid_ksuid_format CHRONOID_KSUID_NIL (replicate 27 0) = Done s
    \<and> chronoid_ksuid_format sample_ksuid (replicate 27 1) = Done s'
    \<and> chronoid_ksuid_compare Sse2 CHRONOID_KSUID_NIL sample_ksuid =
      (if s < s' then - 1 else if s = s' then 0 else 1)"
  by (rule ksuid_compare_text) simp_all

lemma nil_least: "wf_ksuid a \<Longrightarrow> \<not> ksuid_b a < ksuid_b CHRONOID_KSUID_NIL"
  by (simp add: bytes_val_mono wf_ksuid_def CHRONOID_KSUID_NIL_def)

lemma max_greatest: "wf_ksuid a \<Longrightarrow> \<not> ksuid_b CHRONOID_KSUID_MAX < ksuid_b a"
  using bytes_val_less [of "ksuid_b a"]
  by (simp add: bytes_val_mono wf_ksuid_def CHRONOID_KSUID_MAX_def)

lemma is_nil_iff: "wf_ksuid a \<Longrightarrow> chronoid_ksuid_is_nil a \<longleftrightarrow> a = CHRONOID_KSUID_NIL"
  by (simp add: chronoid_ksuid_is_nil_def memcmp_def wf_ksuid_def ksuid_eq_iff CHRONOID_KSUID_NIL_def)

text \<open>
  Comparison is a total order on identifiers, on every build: it is antisymmetric and
  transitive, it answers \<open>0\<close> on equal identifiers only, and the two sentinels are its least and
  greatest elements.
\<close>

theorem ksuid_compare_order:
  assumes "wf_ksuid a" "wf_ksuid b" "wf_ksuid c"
  shows "chronoid_ksuid_compare t b a = - chronoid_ksuid_compare t a b
    \<and> (chronoid_ksuid_compare t a b = 0 \<longleftrightarrow> a = b)
    \<and> (chronoid_ksuid_compare t a b \<le> 0 \<and> chronoid_ksuid_compare t b c \<le> 0 \<longrightarrow>
        chronoid_ksuid_compare t a c \<le> 0)
    \<and> 0 \<le> chronoid_ksuid_compare t a CHRONOID_KSUID_NIL
    \<and> chronoid_ksuid_compare t a CHRONOID_KSUID_MAX \<le> 0
    \<and> (chronoid_ksuid_is_nil a \<longleftrightarrow> chronoid_ksuid_compare t a CHRONOID_KSUID_NIL = 0)"
proof -
  note len = wf_length [OF assms(1)] wf_length [OF assms(2)] wf_length [OF assms(3)]
    wf_length [OF wf_ksuid_nil] wf_length [OF wf_ksuid_max]
  have "chronoid_ksuid_compare t b a = - chronoid_ksuid_compare t a b"
    unfolding chronoid_ksuid_compare_def by (rule any20.antisymmetric) (fact len)+
  moreover have "chronoid_ksuid_compare t a c \<le> 0"
    if "chronoid_ksuid_compare t a b \<le> 0" "chronoid_ksuid_compare t b c \<le> 0"
    using any20.chain [OF len(1-3)] that by (simp add: chronoid_ksuid_compare_def)
  moreover have "0 \<le> chronoid_ksuid_compare t a CHRONOID_KSUID_NIL"
    using any20.negative_iff [OF len(1,4), of t] nil_least [OF assms(1)]
    by (simp add: chronoid_ksuid_compare_def not_less)
  moreover have "chronoid_ksuid_compare t a CHRONOID_KSUID_MAX \<le> 0"
    using any20.negative_iff [OF len(5,1), of t] any20.antisymmetric [OF len(1,5), of t]
      max_greatest [OF assms(1)]
    by (simp add: chronoid_ksuid_compare_def not_less)
  ultimately show ?thesis
    using len by (auto simp: is_nil_iff [OF assms(1)] chronoid_ksuid_compare_def any20.zero_iff ksuid_eq_iff)
qed

lemma ksuid_compare_order_witness:
  "chronoid_ksuid_compare Scalar sample_ksuid CHRONOID_KSUID_NIL =
     - chronoid_ksuid_compare Scalar CHRONOID_KSUID_NIL sample_ksuid"
  using ksuid_compare_order [of CHRONOID_KSUID_NIL sample_ksuid CHRONOID_KSUID_MAX Scalar] by simp

section \<open>Construction and accessors\<close>

lemma timestamp_val: "wf_ksuid k \<Longrightarrow> unat (chronoid_ksuid_timestamp k) = bytes_val (take 4 (ksuid_b k))"
  by (simp add: chronoid_ksuid_timestamp_def be32_load_val wf_ksuid_def)

lemma time_unix_val:
  "wf_ksuid k \<Longrightarrow> chronoid_ksuid_time_unix k = int (bytes_val (take 4 (ksuid_b k))) + 1400000000"
  by (simp add: chronoid_ksuid_time_unix_def timestamp_val flip: timestamp_val)

lemma time_range_val:
  "0 \<le> c \<Longrightarrow> c \<le> 4294967295 \<Longrightarrow> unat (word_of_int c :: u32) = nat c"
  by (simp add: unsigned_of_int take_bit_int_eq_self nat_take_bit_eq)

text \<open>
  Claim C24. \<open>from_parts\<close> on every input: the payload length is checked first; a time outside the
  32-bit range after the KSUID epoch is a range error that leaves the output alone; inside the
  range the result is the big-endian offset followed by the payload. The subtraction comes before
  the range check and is undefined for the 1400000000 smallest values of \<open>int64_t\<close>.
\<close>

theorem ksuid_from_parts_spec:
  assumes "wf_ksuid out" "in_i64 unix_seconds" "payload_len \<le> length payload"
  shows "chronoid_ksuid_from_parts out unix_seconds payload payload_len =
     (if payload_len \<noteq> CHRONOID_KSUID_PAYLOAD_LEN then Done (CHRONOID_KSUID_ERR_PAYLOAD_SIZE, out)
      else if unix_seconds < i64_min + 1400000000 then Undef
      else if unix_seconds < 1400000000 \<or> 1400000000 + 4294967295 < unix_seconds
           then Done (CHRONOID_KSUID_ERR_TIME_RANGE, out)
      else Done (CHRONOID_KSUID_OK,
             \<lparr>ksuid_b = bytes_of_nat 4 (nat (unix_seconds - 1400000000)) @ take 16 payload\<rparr>))"
proof -
  have "in_i64 (unix_seconds - 1400000000) \<longleftrightarrow> \<not> unix_seconds < i64_min + 1400000000"
    using assms(2) by (auto simp: i64_defs)
  moreover have "ksuid_store_parts out (word_of_int c) payload =
      \<lparr>ksuid_b = bytes_of_nat 4 (nat c) @ take 16 payload\<rparr>"
    if "0 \<le> c" "c \<le> 4294967295" "payload_len = 16" for c
    using that assms by (simp add: ksuid_eq_iff store_parts_bytes time_range_val)
  ultimately show ?thesis
    by (simp add: chronoid_ksuid_from_parts_def i64_chk_def run_simps del: of_int_diff)
qed

lemma ksuid_from_parts_spec_witness:
  "chronoid_ksuid_from_parts CHRONOID_KSUID_MAX 1400000258 (replicate 16 9) 16 =
     Done (CHRONOID_KSUID_OK, \<lparr>ksuid_b = [0, 0, 1, 2] @ replicate 16 9\<rparr>)"
  by (subst ksuid_from_parts_spec) (simp_all add: i64_defs bytes_of_nat_4)

text \<open>
  Taking an identifier apart and putting it together again gives it back, and the parts
  an identifier was made of are the parts its accessors return.
\<close>

theorem ksuid_parts_roundtrip:
  assumes "wf_ksuid k" "wf_ksuid out"
    and "1400000000 \<le> s" "s \<le> 1400000000 + 4294967295" "length p = CHRONOID_KSUID_PAYLOAD_LEN"
  shows "chronoid_ksuid_from_parts out (chronoid_ksuid_time_unix k) (chronoid_ksuid_payload k)
       CHRONOID_KSUID_PAYLOAD_LEN = Done (CHRONOID_KSUID_OK, k)
    \<and> (\<exists>k'. chronoid_ksuid_from_parts out s p CHRONOID_KSUID_PAYLOAD_LEN = Done (CHRONOID_KSUID_OK, k')
          \<and> chronoid_ksuid_time_unix k' = s \<and> chronoid_ksuid_payload k' = p)"
proof
  let ?v = "bytes_val (take 4 (ksuid_b k))"
  have v: "?v < 4294967296"
    using bytes_val_less [of "take 4 (ksuid_b k)"] assms(1) by (simp add: wf_ksuid_def)
  have "ksuid_store_parts out (word_of_int (int ?v)) (chronoid_ksuid_payload k) = k"
    using assms v append_take_drop_id [of 4 "ksuid_b k"]
    by (simp add: ksuid_eq_iff store_parts_bytes chronoid_ksuid_payload_def wf_length
        bytes_of_nat_val unat_of_nat)
  then show "chronoid_ksuid_from_parts out (chronoid_ksuid_time_unix k) (chronoid_ksuid_payload k) 16
      = Done (CHRONOID_KSUID_OK, k)"
    using assms(1) v
    by (simp add: chronoid_ksuid_from_parts_def time_unix_val i64_chk_def i64_defs run_simps)
  define k' where "k' = ksuid_store_parts out (word_of_int (s - 1400000000)) p"
  have b: "ksuid_b k' = bytes_of_nat 4 (nat (s - 1400000000)) @ p"
    using assms by (simp add: k'_def store_parts_bytes time_range_val del: of_int_diff)
  then have "wf_ksuid k'" using assms(5) by (simp add: wf_ksuid_def)
  then have "chronoid_ksuid_time_unix k' = s" "chronoid_ksuid_payload k' = p"
    using assms(3,4) b
    by (simp_all add: time_unix_val bytes_val_of_nat chronoid_ksuid_payload_def nat_less_iff)
  moreover have "chronoid_ksuid_from_parts out s p 16 = Done (CHRONOID_KSUID_OK, k')"
    using assms(3,4)
    by (simp add: chronoid_ksuid_from_parts_def i64_chk_def i64_defs run_simps k'_def del: of_int_diff)
  ultimately show "\<exists>k'. chronoid_ksuid_from_parts out s p 16 = Done (CHRONOID_KSUID_OK, k')
      \<and> chronoid_ksuid_time_unix k' = s \<and> chronoid_ksuid_payload k' = p" by blast
qed

lemma ksuid_parts_roundtrip_witness:
  "chronoid_ksuid_from_parts CHRONOID_KSUID_NIL (chronoid_ksuid_time_unix sample_ksuid)
     (chronoid_ksuid_payload sample_ksuid) 16 = Done (CHRONOID_KSUID_OK, sample_ksuid)"
  using ksuid_parts_roundtrip
    [of sample_ksuid CHRONOID_KSUID_NIL 1400000000 "replicate 16 1"] by simp

end
