(* ===== verification/Generator.thy ===== *)
theory Generator
  imports Prelude
begin

text \<open>
  What a generator of sortable identifiers promises, shared by the KSUID sequence and the UUIDv7
  sequence: whatever the inputs of the calls and however some of them fail, the identifiers it
  does hand out come in strictly ascending order.
\<close>

section \<open>Runs of a generator\<close>

text \<open>
  One call takes an input (the clock, the random bytes, the caller's buffer) and the state; it
  hands out an identifier or fails.
\<close>

primrec gen_run :: "('i \<Rightarrow> 's \<Rightarrow> 'k option \<times> 's) \<Rightarrow> 'i list \<Rightarrow> 's \<Rightarrow> 'k list \<times> 's" where
  "gen_run step [] s = ([], s)"
| "gen_run step (i # is) s =
     (case step i s of (r, s') \<Rightarrow>
        case gen_run step is s' of (xs, s'') \<Rightarrow>
          (case r of None \<Rightarrow> xs | Some x \<Rightarrow> x # xs, s''))"

lemma gen_run_append:
  "gen_run step (is @ js) s =
     (case gen_run step is s of (xs, s') \<Rightarrow>
        case gen_run step js s' of (ys, s'') \<Rightarrow> (xs @ ys, s''))"
  by (induction "is" arbitrary: s) (auto split: prod.splits option.splits)

section \<open>The contract\<close>

text \<open>
  \<open>inv\<close> is an invariant of the state, and \<open>below y s\<close> says that everything still to come after
  state \<open>s\<close> is greater than \<open>y\<close>.
\<close>

locale monotone_generator =
  fixes step :: "'i \<Rightarrow> 's \<Rightarrow> ('k::linorder) option \<times> 's"
    and inv :: "'s \<Rightarrow> bool"
    and below :: "'k \<Rightarrow> 's \<Rightarrow> bool"
  assumes inv_step: "inv s \<Longrightarrow> step i s = (r, s') \<Longrightarrow> inv s'"
    and below_emitted: "inv s \<Longrightarrow> step i s = (Some x, s') \<Longrightarrow> below x s'"
    and below_kept: "inv s \<Longrightarrow> below y s \<Longrightarrow> step i s = (r, s') \<Longrightarrow> below y s'"
    and emitted_above: "inv s \<Longrightarrow> below y s \<Longrightarrow> step i s = (Some x, s') \<Longrightarrow> y < x"
begin

lemma run_inv: "inv s \<Longrightarrow> gen_run step is s = (xs, s') \<Longrightarrow> inv s'"
  by (induction "is" arbitrary: s xs) (auto split: prod.splits dest: inv_step)

lemma run_above:
  "inv s \<Longrightarrow> below y s \<Longrightarrow> gen_run step is s = (xs, s') \<Longrightarrow> x \<in> set xs \<Longrightarrow> y < x"
proof (induction "is" arbitrary: s xs)
  case Nil
  then show ?case by simp
next
  case (Cons i "is")
  obtain r s1 where st: "step i s = (r, s1)" by fastforce
  obtain ys where ys: "gen_run step is s1 = (ys, s')" "xs = (case r of None \<Rightarrow> ys | Some z \<Rightarrow> z # ys)"
    using Cons.prems(3) st by (auto split: prod.splits)
  have "y < x" if "x \<in> set ys"
    using Cons.IH [OF inv_step [OF Cons.prems(1) st] below_kept [OF Cons.prems(1,2) st] ys(1) that] .
  then show ?case
    using Cons.prems(4) ys(2) emitted_above [OF Cons.prems(1,2)] st by (auto split: option.splits)
qed

theorem run_sorted: "inv s \<Longrightarrow> sorted_wrt (<) (fst (gen_run step is s))"
proof (induction "is" arbitrary: s)
  case Nil
  then show ?case by simp
next
  case (Cons i "is")
  obtain r s1 where st: "step i s = (r, s1)" by fastforce
  obtain ys s2 where ys: "gen_run step is s1 = (ys, s2)" by fastforce
  have "inv s1" by (rule inv_step [OF Cons.prems st])
  then have "sorted_wrt (<) ys" using Cons.IH [of s1] ys by simp
  moreover have "x < y" if "r = Some x" "y \<in> set ys" for x y
    using run_above [OF \<open>inv s1\<close> below_emitted [OF Cons.prems] ys that(2)] st that(1) by simp
  ultimately show ?case using st ys by (auto split: option.splits)
qed

lemma run_distinct: "inv s \<Longrightarrow> distinct (fst (gen_run step is s))"
  using run_sorted [of s "is"] by (induction "fst (gen_run step is s)") (auto simp: strict_sorted_iff)

end

end
