(* ===== verification/Ksuid_Sequence.thy ===== *)
theory Ksuid_Sequence
  imports Ksuid Generator
begin

text \<open>
  \<open>chronoid/ksuid/sequence.c\<close>: the deterministic run of 65536 identifiers that share the first 18
  bytes of a seed and count in the last two. The sequence is shown to hand out exactly the numbers
  0, 1, ..., 65535 in this order and then to refuse, and to be a monotone generator.
\<close>

section \<open>State and operations\<close>

record ksuid_sequence =
  seed :: ksuid
  count :: u32

abbreviation (input) "UINT16_MAX \<equiv> (65535 :: u32)"

definition chronoid_ksuid_sequence_apply_count :: "ksuid \<Rightarrow> u16 \<Rightarrow> ksuid" where
  "chronoid_ksuid_sequence_apply_count i n =
     \<lparr>ksuid_b = (ksuid_b i)[CHRONOID_KSUID_BYTES - 2 := ucast (drop_bit 8 n),
                            CHRONOID_KSUID_BYTES - 1 := ucast n]\<rparr>"

definition chronoid_ksuid_sequence_init :: "ksuid \<Rightarrow> ksuid_sequence" where
  "chronoid_ksuid_sequence_init sd = \<lparr>seed = sd, count = 0\<rparr>"

definition chronoid_ksuid_sequence_next ::
    "ksuid_sequence \<Rightarrow> ksuid \<Rightarrow> ksuid_err \<times> ksuid_sequence \<times> ksuid" where
  "chronoid_ksuid_sequence_next s out =
     (if count s > UINT16_MAX then (CHRONOID_KSUID_ERR_EXHAUSTED, s, out)
      else (CHRONOID_KSUID_OK, s\<lparr>count := count s + 1\<rparr>,
            chronoid_ksuid_sequence_apply_count (seed s) (ucast (count s))))"

definition chronoid_ksuid_sequence_bounds :: "ksuid_sequence \<Rightarrow> ksuid \<times> ksuid" where
  "chronoid_ksuid_sequence_bounds s =
     (let lo = (if count s > UINT16_MAX then UINT16_MAX else count s)
      in (chronoid_ksuid_sequence_apply_count (seed s) (ucast lo),
          chronoid_ksuid_sequence_apply_count (seed s) (ucast UINT16_MAX)))"

section \<open>The identifiers of a sequence\<close>

text \<open>The \<open>n\<close>-th identifier of a seed.\<close>

definition seq_id :: "ksuid \<Rightarrow> nat \<Rightarrow> ksuid" where
  "seq_id sd n = \<lparr>ksuid_b = take 18 (ksuid_b sd) @ bytes_of_nat 2 n\<rparr>"

lemma apply_count_id:
  assumes "wf_ksuid sd"
  shows "chronoid_ksuid_sequence_apply_count sd n = seq_id sd (unat n)"
proof -
  have len: "length (ksuid_b sd) = 20" using assms by (simp add: wf_ksuid_def)
  have "bytes_of_nat 2 (unat n) = [ucast (drop_bit 8 n), ucast n]"
    by (simp add: bytes_of_nat_2 byte_drop)
  then show ?thesis
    using len
    by (auto simp: chronoid_ksuid_sequence_apply_count_def seq_id_def nth_append nth_list_update
        nth_Cons' intro!: nth_equalityI)
qed

lemma seq_id_wf: "wf_ksuid sd \<Longrightarrow> wf_ksuid (seq_id sd n)"
  by (simp add: seq_id_def wf_ksuid_def)

lemma seq_id_less:
  assumes "m < 65536" "n < 65536"
  shows "seq_id sd m < seq_id sd n \<longleftrightarrow> m < n"
proof -
  have "seq_id sd m < seq_id sd n \<longleftrightarrow> bytes_of_nat 2 m < bytes_of_nat 2 n"
  proof -
    have "(xs @ ys < xs @ zs) = (ys < zs)" for xs ys zs :: "u8 list" by (induction xs) auto
    then show ?thesis by (simp add: seq_id_def ksuid_less_iff)
  qed
  also have "\<dots> \<longleftrightarrow> m < n" using assms by (simp add: bytes_val_mono bytes_val_of_nat)
  finally show ?thesis .
qed

lemma count_le: "\<not> count s > UINT16_MAX \<longleftrightarrow> unat (count s) < 65536"
  by (auto simp: word_less_nat_alt)

lemma ucast_count: "unat (count s) < 65536 \<Longrightarrow> unat (ucast (count s) :: u16) = unat (count s)"
  by (simp add: unsigned_ucast_eq take_bit_nat_eq_self)

lemma next_spec:
  assumes "wf_ksuid (seed s)"
  shows "chronoid_ksuid_sequence_next s out =
     (if unat (count s) < 65536
      then (CHRONOID_KSUID_OK, s\<lparr>count := count s + 1\<rparr>, seq_id (seed s) (unat (count s)))
      else (CHRONOID_KSUID_ERR_EXHAUSTED, s, out))"
  using assms count_le [of s]
  by (auto simp: chronoid_ksuid_sequence_next_def apply_count_id ucast_count)

lemma unat_count_Suc: "unat (count s) < 65536 \<Longrightarrow> unat (count s + 1) = Suc (unat (count s))"
  by (simp add: unat_word_ariths)

section \<open>A monotone generator\<close>

text \<open>One call as the generator interface sees it; the input is the caller's output buffer.\<close>

definition seq_step :: "ksuid \<Rightarrow> ksuid_sequence \<Rightarrow> ksuid option \<times> ksuid_sequence" where
  "seq_step out s =
     (case chronoid_ksuid_sequence_next s out of (e, s', k) \<Rightarrow>
        (if e = CHRONOID_KSUID_OK then Some k else None, s'))"

definition seq_inv :: "ksuid_sequence \<Rightarrow> bool" where
  "seq_inv s \<longleftrightarrow> wf_ksuid (seed s) \<and> unat (count s) \<le> 65536"

definition seq_below :: "ksuid \<Rightarrow> ksuid_sequence \<Rightarrow> bool" where
  "seq_below y s \<longleftrightarrow> (\<forall>n < 65536. unat (count s) \<le> n \<longrightarrow> y < seq_id (seed s) n)"

lemma seq_step_spec:
  "seq_inv s \<Longrightarrow> seq_step out s =
     (if unat (count s) < 65536
      then (Some (seq_id (seed s) (unat (count s))), s\<lparr>count := count s + 1\<rparr>) else (None, s))"
  by (simp add: seq_step_def next_spec seq_inv_def)

interpretation ksuid_seq: monotone_generator seq_step seq_inv seq_below
proof
  fix s s' i r x y
  assume inv: "seq_inv s"
  show "seq_step i s = (r, s') \<Longrightarrow> seq_inv s'"
    using inv by (auto simp: seq_step_spec seq_inv_def unat_count_Suc split: if_splits)
  show "seq_step i s = (Some x, s') \<Longrightarrow> seq_below x s'"
    using inv by (auto simp: seq_step_spec seq_below_def unat_count_Suc seq_id_less split: if_splits)
  show "seq_below y s \<Longrightarrow> seq_step i s = (r, s') \<Longrightarrow> seq_below y s'"
    using inv by (auto simp: seq_step_spec seq_below_def unat_count_Suc split: if_splits)
  show "seq_below y s \<Longrightarrow> seq_step i s = (Some x, s') \<Longrightarrow> y < x"
    using inv by (auto simp: seq_step_spec seq_below_def split: if_splits)
qed

lemma run_ids:
  "seq_inv s \<Longrightarrow> fst (gen_run seq_step outs s) =
     map (seq_id (seed s)) [unat (count s)..<min 65536 (unat (count s) + length outs)]"
proof (induction outs arbitrary: s)
  case Nil
  then show ?case by (simp add: seq_inv_def)
next
  case (Cons out outs)
  show ?case
  proof (cases "unat (count s) < 65536")
    case True
    have st: "seq_step out s = (Some (seq_id (seed s) (unat (count s))), s\<lparr>count := count s + 1\<rparr>)"
      using True Cons.prems by (simp add: seq_step_spec)
    have "seq_inv (s\<lparr>count := count s + 1\<rparr>)" by (rule ksuid_seq.inv_step [OF Cons.prems st])
    note ih = Cons.IH [OF this]
    have "[c..<min 65536 (c + Suc l)] = c # [Suc c..<min 65536 (Suc c + l)]" if "c < 65536" for c l
      using that by (simp add: upt_conv_Cons del: upt_Suc)
    from this [OF True] show ?thesis
      using True st ih by (simp add: unat_count_Suc split_beta del: upt_Suc)
  next
    case False
    then show ?thesis
      using Cons by (simp add: seq_step_spec seq_inv_def split: prod.splits)
  qed
qed

lemma run_state:
  "seq_inv s \<Longrightarrow> snd (gen_run seq_step outs s) =
     s\<lparr>count := word_of_nat (min 65536 (unat (count s) + length outs))\<rparr>"
proof (induction outs arbitrary: s)
  case Nil
  then show ?case by (simp add: seq_inv_def)
next
  case (Cons out outs)
  then show ?case
  proof (cases "unat (count s) < 65536")
    case True
    have st: "seq_step out s = (Some (seq_id (seed s) (unat (count s))), s\<lparr>count := count s + 1\<rparr>)"
      using True Cons.prems by (simp add: seq_step_spec)
    have "seq_inv (s\<lparr>count := count s + 1\<rparr>)" by (rule ksuid_seq.inv_step [OF Cons.prems st])
    from Cons.IH [OF this] show ?thesis using True st by (simp add: unat_count_Suc split_beta)
  next
    case False
    then have "count s = 65536" using Cons.prems by (simp add: seq_inv_def word_unat_eq_iff)
    with Cons show ?thesis by (simp add: seq_step_spec split_beta)
  qed
qed

lemma seq_inv_init: "wf_ksuid sd \<Longrightarrow> seq_inv (chronoid_ksuid_sequence_init sd)"
  by (simp add: seq_inv_def chronoid_ksuid_sequence_init_def)

lemma bounds_spec:
  assumes "seq_inv s"
  shows "chronoid_ksuid_sequence_bounds s =
     (seq_id (seed s) (min 65535 (unat (count s))), seq_id (seed s) 65535)"
  using assms
  by (auto simp: chronoid_ksuid_sequence_bounds_def Let_def apply_count_id seq_inv_def
      word_less_nat_alt ucast_count min_def)

section \<open>Properties\<close>

text \<open>
  Claim C30. From a fresh sequence, any number of calls hands out the identifiers numbered 0, 1,
  2, ... of the seed, up to number 65535 and no further, in strictly ascending order.
\<close>

theorem ksuid_sequence_run:
  assumes "wf_ksuid sd"
  shows "fst (gen_run seq_step outs (chronoid_ksuid_sequence_init sd)) =
      map (seq_id sd) [0..<min 65536 (length outs)]
    \<and> sorted_wrt (<) (fst (gen_run seq_step outs (chronoid_ksuid_sequence_init sd)))"
  using run_ids [OF seq_inv_init [OF assms], of outs]
    ksuid_seq.run_sorted [OF seq_inv_init [OF assms], of outs]
  by (simp add: chronoid_ksuid_sequence_init_def)

lemma ksuid_sequence_run_witness:
  "fst (gen_run seq_step [CHRONOID_KSUID_MAX, CHRONOID_KSUID_MAX]
     (chronoid_ksuid_sequence_init CHRONOID_KSUID_NIL)) =
     [seq_id CHRONOID_KSUID_NIL 0, seq_id CHRONOID_KSUID_NIL 1]"
  using ksuid_sequence_run
    [of CHRONOID_KSUID_NIL "[CHRONOID_KSUID_MAX, CHRONOID_KSUID_MAX]"]
  by (simp add: upt_rec)

text \<open>
  Claim C7. The call after \<open>n\<close> calls: while \<open>n\<close> is below 65536 it succeeds and overwrites the
  caller's buffer with identifier number \<open>n\<close>; from then on it reports exhaustion for ever and
  changes neither the sequence nor the buffer.
\<close>

theorem ksuid_sequence_next_after:
  assumes "wf_ksuid sd" "s = snd (gen_run seq_step outs (chronoid_ksuid_sequence_init sd))"
  shows "chronoid_ksuid_sequence_next s out =
     (if length outs < 65536
      then (CHRONOID_KSUID_OK, s\<lparr>count := word_of_nat (Suc (length outs))\<rparr>, seq_id sd (length outs))
      else (CHRONOID_KSUID_ERR_EXHAUSTED, s, out))"
proof -
  have s: "s = \<lparr>seed = sd, count = word_of_nat (min 65536 (length outs))\<rparr>"
    using run_state [OF seq_inv_init [OF assms(1)], of outs] assms(2)
    by (simp add: chronoid_ksuid_sequence_init_def)
  then have "unat (count s) = min 65536 (length outs)" by (simp add: unat_of_nat)
  with s show ?thesis
    using next_spec [of s out] assms(1) by (cases "length outs < 65536") simp_all
qed

lemma ksuid_sequence_next_after_witness:
  "fst (chronoid_ksuid_sequence_next
     (snd (gen_run seq_step (replicate 65536 CHRONOID_KSUID_NIL)
       (chronoid_ksuid_sequence_init sample_ksuid))) CHRONOID_KSUID_MAX) =
     CHRONOID_KSUID_ERR_EXHAUSTED"
  by (subst ksuid_sequence_next_after [OF wf_sample refl]) simp

text \<open>
  Claim C36. The bounds are exact: everything the sequence still hands out lies between them, the
  lower bound is the very next identifier, and the upper bound is the last one.
\<close>

theorem ksuid_sequence_bounds_exact:
  assumes "seq_inv s" "chronoid_ksuid_sequence_bounds s = (lo, hi)"
    and "xs = fst (gen_run seq_step outs s)"
  shows "list_all (\<lambda>x. lo \<le> x \<and> x \<le> hi) xs
    \<and> (xs \<noteq> [] \<longrightarrow> hd xs = lo)
    \<and> (unat (count s) < 65536 \<and> 65536 \<le> unat (count s) + length outs \<longrightarrow> last xs = hi)"
proof -
  let ?c = "unat (count s)"
  have xs: "xs = map (seq_id (seed s)) [?c..<min 65536 (?c + length outs)]"
    using run_ids [OF assms(1)] assms(3) by simp
  have b: "lo = seq_id (seed s) (min 65535 ?c)" "hi = seq_id (seed s) 65535"
    using bounds_spec [OF assms(1)] assms(2) by auto
  have le: "seq_id (seed s) m \<le> seq_id (seed s) n \<longleftrightarrow> m \<le> n" if "m < 65536" "n < 65536" for m n
    using seq_id_less [of n m] that by (simp add: not_less [symmetric])
  have "list_all (\<lambda>x. lo \<le> x \<and> x \<le> hi) xs"
    by (auto simp: xs b list_all_iff le)
  moreover have "hd xs = lo" if "xs \<noteq> []"
  proof -
    have lt: "?c < min 65536 (?c + length outs)"
      using that unfolding xs by (metis list.map_disc_iff linorder_not_le upt_conv_Nil)
    then have "min 65535 ?c = ?c" by linarith
    then show ?thesis by (simp add: xs b upt_conv_Cons [OF lt])
  qed
  moreover have "last xs = hi" if "?c < 65536" "65536 \<le> ?c + length outs"
    using that by (simp add: xs b last_map min_def)
  ultimately show ?thesis by blast
qed

lemma ksuid_sequence_bounds_exact_witness:
  "list_all (\<lambda>x. x \<le> snd (chronoid_ksuid_sequence_bounds \<lparr>seed = sample_ksuid, count = 65534\<rparr>))
     (fst (gen_run seq_step (replicate 7 CHRONOID_KSUID_NIL) \<lparr>seed = sample_ksuid, count = 65534\<rparr>))"
  using ksuid_sequence_bounds_exact [of "\<lparr>seed = sample_ksuid, count = 65534\<rparr>" _ _ _
      "replicate 7 CHRONOID_KSUID_NIL", OF _ prod.collapse [symmetric] refl]
  by (simp add: seq_inv_def list_all_iff)

end
