(* ===== verification/Uuidv7_Types.thy ===== *)
theory Uuidv7_Types
  imports Prelude
begin

text \<open>
  The data of the public UUIDv7 header (\<open>chronoid/uuidv7.h\<close>): the wire-format constants, the
  16-byte identifier, the error codes and the two sentinel values.
\<close>

abbreviation (input) "CHRONOID_UUIDV7_BYTES \<equiv> (16::nat)"
abbreviation (input) "CHRONOID_UUIDV7_STRING_LEN \<equiv> (36::nat)"

record uuidv7 =
  uuid_b :: "u8 list"

definition wf_uuidv7 :: "uuidv7 \<Rightarrow> bool" where
  "wf_uuidv7 u \<longleftrightarrow> length (uuid_b u) = CHRONOID_UUIDV7_BYTES"

datatype uuidv7_err =
    CHRONOID_UUIDV7_OK
  | CHRONOID_UUIDV7_ERR_SIZE
  | CHRONOID_UUIDV7_ERR_STR_SIZE
  | CHRONOID_UUIDV7_ERR_STR_VALUE
  | CHRONOID_UUIDV7_ERR_RNG
  | CHRONOID_UUIDV7_ERR_TIME_RANGE

text \<open>The slots \<open>-4\<close> and \<open>-6\<close> are left free, so that codes agree with those of the KSUID header.\<close>

fun uuidv7_err_code :: "uuidv7_err \<Rightarrow> int" where
  "uuidv7_err_code CHRONOID_UUIDV7_OK = 0"
| "uuidv7_err_code CHRONOID_UUIDV7_ERR_SIZE = - 1"
| "uuidv7_err_code CHRONOID_UUIDV7_ERR_STR_SIZE = - 2"
| "uuidv7_err_code CHRONOID_UUIDV7_ERR_STR_VALUE = - 3"
| "uuidv7_err_code CHRONOID_UUIDV7_ERR_RNG = - 5"
| "uuidv7_err_code CHRONOID_UUIDV7_ERR_TIME_RANGE = - 7"

definition CHRONOID_UUIDV7_NIL :: uuidv7 where
  "CHRONOID_UUIDV7_NIL = \<lparr>uuid_b = replicate CHRONOID_UUIDV7_BYTES 0\<rparr>"

definition CHRONOID_UUIDV7_MAX :: uuidv7 where
  "CHRONOID_UUIDV7_MAX = \<lparr>uuid_b = replicate CHRONOID_UUIDV7_BYTES 0xff\<rparr>"

section \<open>The order of identifiers\<close>

instantiation uuidv7_ext :: (linorder) linorder
begin

definition less_eq_uuidv7_ext :: "'a uuidv7_ext \<Rightarrow> 'a uuidv7_ext \<Rightarrow> bool" where
  "less_eq_uuidv7_ext a b \<longleftrightarrow>
     uuid_b a < uuid_b b \<or> uuid_b a = uuid_b b \<and> uuidv7.more a \<le> uuidv7.more b"

definition less_uuidv7_ext :: "'a uuidv7_ext \<Rightarrow> 'a uuidv7_ext \<Rightarrow> bool" where
  "less_uuidv7_ext a b \<longleftrightarrow>
     uuid_b a < uuid_b b \<or> uuid_b a = uuid_b b \<and> uuidv7.more a < uuidv7.more b"

instance
proof
  fix x y z :: "'a uuidv7_ext"
  show "x < y \<longleftrightarrow> x \<le> y \<and> \<not> y \<le> x"
    by (auto simp: less_eq_uuidv7_ext_def less_uuidv7_ext_def)
  show "x \<le> x" by (simp add: less_eq_uuidv7_ext_def)
  show "x \<le> y \<Longrightarrow> y \<le> z \<Longrightarrow> x \<le> z" by (auto simp: less_eq_uuidv7_ext_def)
  show "x \<le> y \<Longrightarrow> y \<le> x \<Longrightarrow> x = y"
    by (auto simp: less_eq_uuidv7_ext_def intro: uuidv7.equality)
  show "x \<le> y \<or> y \<le> x" by (auto simp: less_eq_uuidv7_ext_def)
qed

end

lemma uuid_less_iff: "(a :: uuidv7) < b \<longleftrightarrow> uuid_b a < uuid_b b"
  by (simp add: less_uuidv7_ext_def)

lemma uuid_eq_iff: "(a :: uuidv7) = b \<longleftrightarrow> uuid_b a = uuid_b b"
  by (metis uuidv7.equality unit.exhaust)

lemma wf_uuid_nil [simp]: "wf_uuidv7 CHRONOID_UUIDV7_NIL"
  and wf_uuid_max [simp]: "wf_uuidv7 CHRONOID_UUIDV7_MAX"
  by (simp_all add: wf_uuidv7_def CHRONOID_UUIDV7_NIL_def CHRONOID_UUIDV7_MAX_def)

end
