(* ===== verification/Hex.thy ===== *)
theory Hex
  imports Simd
begin

text \<open>
  \<open>chronoid/uuidv7/hex.c\<close> and \<open>hex_ssse3.c\<close>: the hexadecimal codec of the 8-4-4-4-12 text form,
  scalar and vectorised, and the compile-time choice of \<open>hex_simd.h\<close>.
\<close>

section \<open>Tables\<close>

definition kHexLower :: "u8 list" where
  "kHexLower = bytes_of ''0123456789abcdef'' @ [0]"

definition kHexValue :: "u8 list" where
  "kHexValue =
     replicate 48 0xff
     @ [0x00, 0x01, 0x02, 0x03, 0x04, 0x05, 0x06, 0x07, 0x08, 0x09]
     @ replicate 7 0xff
     @ [0x0a, 0x0b, 0x0c, 0x0d, 0x0e, 0x0f]
     @ replicate 26 0xff
     @ [0x0a, 0x0b, 0x0c, 0x0d, 0x0e, 0x0f]
     @ replicate 153 0xff"

text \<open>The offset of each byte's high nibble; the same table stands in the encoder and the decoder.\<close>

definition kCharOff :: "nat list" where
  "kCharOff = [0, 2, 4, 6, 9, 11, 14, 16, 19, 21, 24, 26, 28, 30, 32, 34]"

abbreviation (input) "HYPHEN \<equiv> (0x2d :: u8)"

section \<open>The codec\<close>

definition chronoid_hex_encode_lower_scalar :: "u8 list \<Rightarrow> u8 list \<Rightarrow> u8 list" where
  "chronoid_hex_encode_lower_scalar out inp =
     (fold (\<lambda>i out. let b = inp ! i; off = kCharOff ! i in
         out[off := kHexLower ! unat (drop_bit 4 b AND 0x0f), off + 1 := kHexLower ! unat (b AND 0x0f)])
       [0..<16] out)
     [8 := HYPHEN, 13 := HYPHEN, 18 := HYPHEN, 23 := HYPHEN]"

text \<open>The loop keeps the OR of all table values and the decoded bytes.\<close>

definition hex_decode_step :: "u8 list \<Rightarrow> nat \<Rightarrow> u32 \<times> u8 list \<Rightarrow> u32 \<times> u8 list" where
  "hex_decode_step s i = (\<lambda>(bad, tmp).
     let off = kCharOff ! i;
         hi = kHexValue ! unat (s ! off);
         lo = kHexValue ! unat (s ! (off + 1))
     in (bad OR ucast hi OR ucast lo, tmp[i := push_bit 4 hi OR lo]))"

text \<open>\<open>tmp\<close> is the content of the uninitialised temporary.\<close>

definition chronoid_hex_decode :: "u8 list \<Rightarrow> u8 list \<Rightarrow> u8 list \<Rightarrow> nat \<Rightarrow> int \<times> u8 list" where
  "chronoid_hex_decode tmp out s len =
     (if len \<noteq> 36 then (- 1, out)
      else if s ! 8 \<noteq> HYPHEN \<or> s ! 13 \<noteq> HYPHEN \<or> s ! 18 \<noteq> HYPHEN \<or> s ! 23 \<noteq> HYPHEN then (- 1, out)
      else case fold (hex_decode_step s) [0..<16] (0, tmp) of (bad, tmp') \<Rightarrow>
        if bad AND 0xf0 \<noteq> 0 then (- 1, out) else (0, buf_put out 0 (take 16 tmp')))"

section \<open>The SSSE3 kernel\<close>

fun mm_srli_epi16 :: "nat \<Rightarrow> vec \<Rightarrow> vec" where
  "mm_srli_epi16 k (a # b # r) =
     (let w = drop_bit k (push_bit 8 (ucast b) OR ucast a :: u16)
      in ucast w # ucast (drop_bit 8 w) # mm_srli_epi16 k r)"
| "mm_srli_epi16 k r = r"

definition mm_shuffle_epi8 :: "vec \<Rightarrow> vec \<Rightarrow> vec" where
  "mm_shuffle_epi8 lut idx = map (\<lambda>i. if bit i 7 then 0 else lut ! unat (i AND 0x0f)) idx"

definition mm_unpacklo_epi8 :: "vec \<Rightarrow> vec \<Rightarrow> vec" where
  "mm_unpacklo_epi8 a b = concat (map2 (\<lambda>x y. [x, y]) (take 8 a) (take 8 b))"

definition mm_unpackhi_epi8 :: "vec \<Rightarrow> vec \<Rightarrow> vec" where
  "mm_unpackhi_epi8 a b = concat (map2 (\<lambda>x y. [x, y]) (drop 8 a) (drop 8 b))"

definition kHexLowerLut :: "u8 list" where
  "kHexLowerLut = bytes_of ''0123456789abcdef''"

text \<open>The splice of the 32 digits \<open>tmp\<close> and the four hyphens into the 36 characters.\<close>

definition hex_splice :: "u8 list \<Rightarrow> u8 list \<Rightarrow> u8 list" where
  "hex_splice out tmp =
     (let out = buf_put out 0 (buf_get tmp 0 8);
          out = out[8 := HYPHEN];
          out = buf_put out 9 (buf_get tmp 8 4);
          out = out[13 := HYPHEN];
          out = buf_put out 14 (buf_get tmp 12 4);
          out = out[18 := HYPHEN];
          out = buf_put out 19 (buf_get tmp 16 4);
          out = out[23 := HYPHEN]
      in buf_put out 24 (buf_get tmp 20 12))"

definition chronoid_hex_encode_lower_ssse3 :: "u8 list \<Rightarrow> u8 list \<Rightarrow> u8 list" where
  "chronoid_hex_encode_lower_ssse3 out inp =
     (let v = mm_loadu_si128 inp;
          lut = mm_loadu_si128 kHexLowerLut;
          mask_low = mm_set1_epi8 0x0f;
          hi_nibbles = mm_and_si128 (mm_srli_epi16 4 v) mask_low;
          lo_nibbles = mm_and_si128 v mask_low;
          ascii_hi = mm_shuffle_epi8 lut hi_nibbles;
          ascii_lo = mm_shuffle_epi8 lut lo_nibbles;
          lo_half = mm_unpacklo_epi8 ascii_hi ascii_lo;
          hi_half = mm_unpackhi_epi8 ascii_hi ascii_lo;
          tmp = lo_half @ hi_half
      in hex_splice out tmp)"

text \<open>\<open>CHRONOID_HAVE_HEX_SSSE3\<close> selects the kernel at compile time.\<close>

definition chronoid_hex_encode_lower :: "bool \<Rightarrow> u8 list \<Rightarrow> u8 list \<Rightarrow> u8 list" where
  "chronoid_hex_encode_lower have_ssse3 out inp =
     (if have_ssse3 then chronoid_hex_encode_lower_ssse3 out inp
      else chronoid_hex_encode_lower_scalar out inp)"

section \<open>Digits\<close>

definition hex_char :: "nat \<Rightarrow> u8" where "hex_char d = kHexLower ! d"
definition hex_digit :: "u8 \<Rightarrow> nat" where "hex_digit c = unat (kHexValue ! unat c)"
definition is_hex :: "u8 \<Rightarrow> bool" where "is_hex c \<longleftrightarrow> kHexValue ! unat c \<noteq> 0xff"

text \<open>ASCII lower case, on the hexadecimal letters.\<close>

definition hex_lower :: "u8 \<Rightarrow> u8" where
  "hex_lower c = (if 65 \<le> unat c \<and> unat c < 71 then c + 32 else c)"

lemma length_kHexValue [simp]: "length kHexValue = 256"
  by (simp add: kHexValue_def)

lemma kHexValue_unats:
  "map unat kHexValue = replicate 48 255 @ [0..<10] @ replicate 7 255 @ [10..<16]
     @ replicate 26 255 @ [10..<16] @ replicate 153 255"
  by (simp add: kHexValue_def upt_rec)

lemma kHexValue_nth:
  assumes "i < 256"
  shows "unat (kHexValue ! i) =
     (if 48 \<le> i \<and> i < 58 then i - 48 else if 65 \<le> i \<and> i < 71 then i - 55
      else if 97 \<le> i \<and> i < 103 then i - 87 else 255)"
proof -
  have eq: "unat (kHexValue ! i) = map unat kHexValue ! i" using assms by simp
  consider "i < 48" | "48 \<le> i" "i < 58" | "58 \<le> i" "i < 65" | "65 \<le> i" "i < 71"
    | "71 \<le> i" "i < 97" | "97 \<le> i" "i < 103" | "103 \<le> i" by linarith
  then show ?thesis using assms
    by cases (simp_all add: eq kHexValue_unats nth_append less_diff_conv2 del: upt_rec_numeral)
qed

lemma hex_digit_ranges:
  "hex_digit c =
     (if 48 \<le> unat c \<and> unat c < 58 then unat c - 48 else if 65 \<le> unat c \<and> unat c < 71 then unat c - 55
      else if 97 \<le> unat c \<and> unat c < 103 then unat c - 87 else 255)"
  using kHexValue_nth [OF unat_u8_less, of c] by (simp add: hex_digit_def)

lemma is_hex_iff: "is_hex c \<longleftrightarrow> hex_digit c \<noteq> 255"
  by (simp add: is_hex_def hex_digit_def word_unat_eq_iff)

lemma hex_digit_less: "is_hex c \<Longrightarrow> hex_digit c < 16"
  by (auto simp: is_hex_iff hex_digit_ranges split: if_splits)

lemma kHexLower_unats: "map unat kHexLower = [48..<58] @ [97..<103] @ [0]"
  by (simp add: kHexLower_def upt_rec)

lemma hex_char_nth:
  assumes "d < 16"
  shows "unat (hex_char d) = (if d < 10 then d + 48 else d + 87)"
proof -
  have "length kHexLower = 17" by (simp add: kHexLower_def)
  then have eq: "unat (hex_char d) = map unat kHexLower ! d"
    using assms by (simp add: hex_char_def)
  show ?thesis using assms
    by (cases "d < 10") (simp_all add: eq kHexLower_unats nth_append less_diff_conv2 del: upt_rec_numeral)
qed

lemma hex_digit_char: "d < 16 \<Longrightarrow> hex_digit (hex_char d) = d \<and> is_hex (hex_char d)"
  by (auto simp: is_hex_iff hex_digit_ranges hex_char_nth)

lemma hex_char_digit: "is_hex c \<Longrightarrow> hex_char (hex_digit c) = hex_lower c"
  using unat_u8_less [of c]
  by (auto simp: is_hex_iff hex_digit_ranges hex_char_nth hex_lower_def word_unat_eq_iff
      unat_word_ariths split: if_splits)

lemma hex_char_less: "i < 16 \<Longrightarrow> j < 16 \<Longrightarrow> hex_char i < hex_char j \<longleftrightarrow> i < j"
  by (auto simp: hex_char_nth word_less_nat_alt)

lemma hex_char_eq: "i < 16 \<Longrightarrow> j < 16 \<Longrightarrow> hex_char i = hex_char j \<longleftrightarrow> i = j"
  by (metis hex_digit_char)

section \<open>The text of 16 bytes\<close>

definition hex_pair :: "u8 \<Rightarrow> u8 list" where
  "hex_pair b = [hex_char (unat b div 16), hex_char (unat b mod 16)]"

definition hex_digits :: "u8 list \<Rightarrow> u8 list" where
  "hex_digits bs = concat (map hex_pair bs)"

definition hex_text :: "u8 list \<Rightarrow> u8 list" where
  "hex_text bs =
     hex_digits (take 4 bs) @ HYPHEN # hex_digits (take 2 (drop 4 bs))
     @ HYPHEN # hex_digits (take 2 (drop 6 bs)) @ HYPHEN # hex_digits (take 2 (drop 8 bs))
     @ HYPHEN # hex_digits (drop 10 bs)"

lemma high_nibble: "unat (drop_bit 4 (b :: u8)) = unat b div 16"
  by (simp add: drop_bit_eq_div unat_div_distrib)

lemma low_nibble: "unat (b AND (0x0f :: u8)) = unat b mod 16"
proof -
  have m: "(0x0f :: u8) = mask 4" by (simp add: mask_eq_exp_minus_1)
  have "unat (b AND 0x0f) = take_bit 4 (unat b)"
    unfolding m take_bit_eq_mask [symmetric] by (rule unsigned_take_bit_eq)
  then show ?thesis by (simp add: take_bit_eq_mod)
qed

lemma nibbles:
  "unat (drop_bit 4 b AND (0x0f :: u8)) = unat b div 16" "unat (b AND (0x0f :: u8)) = unat b mod 16"
  by (use unat_u8_less [of b] in \<open>simp_all add: high_nibble low_nibble\<close>)

lemma nibbles_mod: "unat (drop_bit 4 (b :: u8)) mod 16 = unat b div 16"
  using unat_u8_less [of b] by (simp add: high_nibble)

lemma list_36:
  assumes "length xs = 36"
  obtains q0 q1 q2 q3 q4 q5 q6 q7 q8 q9 q10 q11 q12 q13 q14 q15 q16 q17 q18 q19 q20 q21 q22 q23 q24
    q25 q26 q27 q28 q29 q30 q31 q32 q33 q34 q35
  where "xs = [q0, q1, q2, q3, q4, q5, q6, q7, q8, q9, q10, q11, q12, q13, q14, q15, q16, q17, q18,
    q19, q20, q21, q22, q23, q24, q25, q26, q27, q28, q29, q30, q31, q32, q33, q34, q35]"
  using assms by (auto simp: eval_nat_numeral length_Suc_conv)

lemma scalar_text:
  assumes "length out = 36" "length inp = 16"
  shows "chronoid_hex_encode_lower_scalar out inp = hex_text inp"
proof -
  obtain a b c d e f g h i j k l m n p q where inp: "inp = [a, b, c, d, e, f, g, h, i, j, k, l, m, n, p, q]"
    using list_16 [OF assms(2)] .
  show ?thesis
    using assms(1)
    by (elim list_36)
       (simp add: chronoid_hex_encode_lower_scalar_def inp hex_text_def hex_digits_def hex_pair_def
        Let_def kCharOff_def nibbles nibbles_mod hex_char_def upt_rec)
qed

text \<open>One 16-bit lane of the shift, on its two bytes.\<close>

lemma srli_lane:
  "ucast (drop_bit 4 (push_bit 8 (ucast b) OR ucast a :: u16)) AND (0x0f :: u8) = drop_bit 4 a"
  "ucast (drop_bit 8 (drop_bit 4 (push_bit 8 (ucast b) OR ucast a :: u16))) AND (0x0f :: u8) = drop_bit 4 b"
proof -
  have m: "(0x0f :: u8) = mask 4" by (simp add: mask_eq_exp_minus_1)
  have u: "bit (x :: u8) n \<Longrightarrow> n < 8" for x n using bit_imp_le_length [of x n] by simp
  show "ucast (drop_bit 4 (push_bit 8 (ucast b) OR ucast a :: u16)) AND (0x0f :: u8) = drop_bit 4 a"
    unfolding m by (rule bit_word_eqI) (auto simp: bit_simps dest: u)
  show "ucast (drop_bit 8 (drop_bit 4 (push_bit 8 (ucast b) OR ucast a :: u16))) AND (0x0f :: u8) = drop_bit 4 b"
    unfolding m by (rule bit_word_eqI) (auto simp: bit_simps dest: u)
qed

lemma srli_nibbles:
  "even (length v) \<Longrightarrow> map (\<lambda>x. x AND 0x0f) (mm_srli_epi16 4 v) = map (drop_bit 4) v"
  by (induction "4 :: nat" v rule: mm_srli_epi16.induct) (simp_all add: Let_def srli_lane del: drop_bit_or drop_bit_drop_bit)

lemma length_srli [simp]: "length (mm_srli_epi16 k v) = length v"
  by (induction k v rule: mm_srli_epi16.induct) (simp_all add: Let_def)

lemma shuffle_nibbles:
  assumes "\<forall>i \<in> set idx. unat i < 16"
  shows "mm_shuffle_epi8 (mm_loadu_si128 kHexLowerLut) idx = map (\<lambda>i. hex_char (unat i)) idx"
proof -
  have "take 16 kHexLowerLut = take 16 kHexLower" by (simp add: kHexLowerLut_def kHexLower_def)
  moreover have "i AND 0x0f = i \<and> \<not> bit i 7" if "unat (i :: u8) < 16" for i
  proof
    show i: "i AND 0x0f = i" using that low_nibble [of i] by (intro unsigned_word_eqI) simp
    have "\<not> bit (i AND mask 4) 7" by (simp add: bit_simps)
    then show "\<not> bit i 7" using i by (simp add: mask_eq_exp_minus_1)
  qed
  ultimately show ?thesis
    using assms by (auto simp: mm_shuffle_epi8_def mm_loadu_si128_def hex_char_def)
qed

lemma ssse3_text:
  assumes "length out = 36" "length inp = 16"
  shows "chronoid_hex_encode_lower_ssse3 out inp = hex_text inp"
proof -
  have hi: "mm_and_si128 (mm_srli_epi16 4 inp) (mm_set1_epi8 0x0f) = map (drop_bit 4) inp"
    using assms(2) by (simp add: mm_and_si128_def mm_set1_epi8_def lane_simps srli_nibbles)
  have lo: "mm_and_si128 inp (mm_set1_epi8 0x0f) = map (\<lambda>x. x AND 0x0f) inp"
    using assms(2) by (simp add: mm_and_si128_def mm_set1_epi8_def lane_simps)
  have "unat (drop_bit 4 (b :: u8)) < 16" for b using unat_u8_less [of b] by (simp add: high_nibble)
  then have ahi: "mm_shuffle_epi8 (mm_loadu_si128 kHexLowerLut) (map (drop_bit 4) inp) =
      map (\<lambda>b. hex_char (unat b div 16)) inp"
    by (subst shuffle_nibbles) (auto simp: high_nibble)
  have alo: "mm_shuffle_epi8 (mm_loadu_si128 kHexLowerLut) (map (\<lambda>x. x AND 0x0f) inp) =
      map (\<lambda>b. hex_char (unat b mod 16)) inp"
    by (subst shuffle_nibbles) (auto simp: nibbles)
  obtain a b c d e f g h i j k l m n p q where inp: "inp = [a, b, c, d, e, f, g, h, i, j, k, l, m, n, p, q]"
    using list_16 [OF assms(2)] .
  have v: "mm_loadu_si128 inp = inp" using assms(2) by (simp add: mm_loadu_si128_def)
  show ?thesis
    unfolding chronoid_hex_encode_lower_ssse3_def Let_def v hi lo ahi alo
    using assms(1)
    by (elim list_36)
       (simp add: hex_splice_def buf_put_def buf_get_def Let_def mm_unpacklo_epi8_def mm_unpackhi_epi8_def
         inp hex_text_def hex_digits_def hex_pair_def)
qed

lemma encode_text:
  "length out = 36 \<Longrightarrow> length inp = 16 \<Longrightarrow> chronoid_hex_encode_lower ssse3 out inp = hex_text inp"
  by (simp add: chronoid_hex_encode_lower_def scalar_text ssse3_text)

section \<open>What the decoder accepts\<close>

definition hex_chars :: "u8 list \<Rightarrow> u8 list" where
  "hex_chars s =
     take 8 s @ take 4 (drop 9 s) @ take 4 (drop 14 s) @ take 4 (drop 19 s) @ drop 24 s"

definition hex_valid :: "u8 list \<Rightarrow> bool" where
  "hex_valid s \<longleftrightarrow> length s = 36 \<and> s ! 8 = HYPHEN \<and> s ! 13 = HYPHEN \<and> s ! 18 = HYPHEN
     \<and> s ! 23 = HYPHEN \<and> list_all is_hex (hex_chars s)"

fun hex_bytes :: "u8 list \<Rightarrow> u8 list" where
  "hex_bytes (h # l # r) = word_of_nat (16 * hex_digit h + hex_digit l) # hex_bytes r"
| "hex_bytes r = []"

lemma bad_or: "(x OR y) AND (0xf0 :: u32) = 0 \<longleftrightarrow> x AND 0xf0 = 0 \<and> y AND 0xf0 = 0"
  by (simp add: bit.conj_disj_distrib2 or_eq_0_iff)

lemma bad_digit: "ucast (kHexValue ! unat c) AND (0xf0 :: u32) = 0 \<longleftrightarrow> is_hex c"
proof (cases "is_hex c")
  case True
  then have "unat (kHexValue ! unat c) < 16" using hex_digit_less by (simp add: hex_digit_def)
  then have "take_bit 4 (ucast (kHexValue ! unat c) :: u32) = ucast (kHexValue ! unat c)"
    by (simp add: word_unat_eq_iff unsigned_take_bit_eq take_bit_nat_eq_self)
  then have "bit (ucast (kHexValue ! unat c) :: u32) n \<Longrightarrow> n < 4" for n by (metis bit_take_bit_iff)
  moreover have "bit (0xf0 :: u32) n \<Longrightarrow> 4 \<le> n" for n
  proof -
    have "(0xf0 :: u32) = push_bit 4 0xf" by simp
    then show "bit (0xf0 :: u32) n \<Longrightarrow> 4 \<le> n" by (metis bit_push_bit_iff)
  qed
  ultimately have "ucast (kHexValue ! unat c) AND (0xf0 :: u32) = 0"
    by (intro bit_word_eqI) (metis bit_and_iff bit_0_eq bot_apply bot_bool_def linorder_not_less)
  with True show ?thesis by simp
next
  case False
  then have "kHexValue ! unat c = 0xff" by (simp add: is_hex_def)
  with False show ?thesis by simp
qed

lemma hex_byte:
  assumes "is_hex h" "is_hex l"
  shows "push_bit 4 (kHexValue ! unat h) OR kHexValue ! unat l =
    (word_of_nat (16 * hex_digit h + hex_digit l) :: u8)"
proof -
  have "unat (push_bit 4 (kHexValue ! unat h) OR kHexValue ! unat l) = 16 * hex_digit h + hex_digit l"
    using hex_digit_less [OF assms(1)] hex_digit_less [OF assms(2)]
    by (simp add: hex_digit_def unat_or_push [where k = 4])
  from this [symmetric] show ?thesis by simp
qed

lemma decode_valid:
  assumes "length s = 36" "length tmp = 16" "length out = 16"
  shows "chronoid_hex_decode tmp out s 36 =
    (if hex_valid s then (0, hex_bytes (hex_chars s)) else (- 1, out))"
proof (cases "s ! 8 = HYPHEN \<and> s ! 13 = HYPHEN \<and> s ! 18 = HYPHEN \<and> s ! 23 = HYPHEN")
  case False
  then show ?thesis by (auto simp: chronoid_hex_decode_def hex_valid_def)
next
  case True
  obtain bad tmp' where f: "fold (hex_decode_step s) [0..<16] (0, tmp) = (bad, tmp')" by fastforce
  have fin: "bad AND 0xf0 = 0 \<longleftrightarrow> list_all is_hex (hex_chars s)"
    "list_all is_hex (hex_chars s) \<Longrightarrow> tmp' = hex_bytes (hex_chars s)"
  proof -
    obtain a b c d e g h i j k l m n p q r where t: "tmp = [a, b, c, d, e, g, h, i, j, k, l, m, n, p, q, r]"
      using list_16 [OF assms(2)] .
    show "bad AND 0xf0 = 0 \<longleftrightarrow> list_all is_hex (hex_chars s)" using f [symmetric] assms(1) 
      by (elim list_36) (simp add: upt_rec t hex_decode_step_def Let_def kCharOff_def hex_chars_def bad_or bad_digit conj_ac)
    show "list_all is_hex (hex_chars s) \<Longrightarrow> tmp' = hex_bytes (hex_chars s)" using f [symmetric] assms(1)
      by (elim list_36) (simp add: upt_rec t hex_decode_step_def Let_def kCharOff_def hex_chars_def hex_byte)
  qed
  moreover have "list_all is_hex (hex_chars s) \<Longrightarrow> length tmp' = 16"
    using fin(2) assms(1) by (elim list_36) (simp add: hex_chars_def)
  ultimately show ?thesis using True assms
    by (auto simp: chronoid_hex_decode_def f hex_valid_def buf_put_def)
qed

section \<open>Encoder against decoder\<close>

lemma length_hex_digits [simp]: "length (hex_digits bs) = 2 * length bs"
  by (induction bs) (simp_all add: hex_digits_def hex_pair_def)

lemma hex_digits_Cons: "hex_digits (b # bs) = hex_pair b @ hex_digits bs"
  by (simp add: hex_digits_def)

lemma hex_digits_Nil [simp]: "hex_digits [] = []"
  by (simp add: hex_digits_def)

lemma length_hex_text: "length bs = 16 \<Longrightarrow> length (hex_text bs) = 36"
  by (simp add: hex_text_def)

lemma nibbles_less: "unat (b :: u8) div 16 < 16" "unat b mod 16 < 16"
  using unat_u8_less [of b] by auto

lemma hex_bytes_digits: "hex_bytes (hex_digits bs) = bs"
  by (induction bs)
     (simp_all add: hex_digits_def hex_pair_def hex_digit_char nibbles_less word_unat_eq_iff)

lemma hex_digits_hex: "list_all is_hex (hex_digits bs)"
  by (induction bs) (simp_all add: hex_digits_def hex_pair_def hex_digit_char nibbles_less)

lemma hex_chars_text: "length bs = 16 \<Longrightarrow> hex_chars (hex_text bs) = hex_digits bs"
  by (erule list_16) (simp add: hex_chars_def hex_text_def hex_digits_def hex_pair_def)

lemma hex_valid_text: "length bs = 16 \<Longrightarrow> hex_valid (hex_text bs)"
  unfolding hex_valid_def
  by (simp add: length_hex_text hex_chars_text hex_digits_hex)
     (simp add: hex_text_def nth_append)

lemma hex_digits_bytes:
  "even (length cs) \<Longrightarrow> list_all is_hex cs \<Longrightarrow> hex_digits (hex_bytes cs) = map hex_lower cs"
proof (induction cs rule: hex_bytes.induct)
  case (1 h l r)
  have "16 * hex_digit h + hex_digit l < 256"
    using 1 hex_digit_less [of h] hex_digit_less [of l] by simp
  then have "unat (word_of_nat (16 * hex_digit h + hex_digit l) :: u8) = 16 * hex_digit h + hex_digit l"
    by (simp only: unat_of_nat) simp
  then have "hex_pair (word_of_nat (16 * hex_digit h + hex_digit l)) = [hex_lower h, hex_lower l]"
    using 1 hex_digit_less [of l] by (simp add: hex_pair_def hex_char_digit)
  with 1 show ?case by (simp add: hex_digits_Cons)
qed (auto simp: hex_digits_def)

lemma length_hex_bytes: "length (hex_bytes cs) = length cs div 2"
  by (induction cs rule: hex_bytes.induct) simp_all

lemma hex_text_bytes:
  assumes "hex_valid s"
  shows "hex_text (hex_bytes (hex_chars s)) = map hex_lower s"
proof -
  have len: "length s = 36" and hy: "s ! 8 = HYPHEN" "s ! 13 = HYPHEN" "s ! 18 = HYPHEN" "s ! 23 = HYPHEN"
    and hx: "list_all is_hex (hex_chars s)"
    using assms by (simp_all add: hex_valid_def)
  have low: "hex_lower HYPHEN = HYPHEN" by (simp add: hex_lower_def)
  have "length (hex_chars s) = 32" using len by (simp add: hex_chars_def)
  then have eq: "hex_digits (hex_bytes (hex_chars s)) = map hex_lower (hex_chars s)"
    and len16: "length (hex_bytes (hex_chars s)) = 16"
    using hex_digits_bytes [OF _ hx] by (simp_all add: length_hex_bytes)
  have split: "hex_text bs = take 8 (hex_digits bs) @ HYPHEN # take 4 (drop 8 (hex_digits bs))
      @ HYPHEN # take 4 (drop 12 (hex_digits bs)) @ HYPHEN # take 4 (drop 16 (hex_digits bs))
      @ HYPHEN # drop 20 (hex_digits bs)" if "length bs = 16" for bs
    using that by (elim list_16) (simp add: hex_text_def hex_digits_def hex_pair_def)
  show ?thesis
    unfolding split [OF len16] eq using len hy low
    by (elim list_36) (simp add: hex_chars_def)
qed

section \<open>Order\<close>

lemma div_mod_order:
  fixes x y :: nat
  shows "x < y \<longleftrightarrow> x div 16 < y div 16 \<or> x div 16 = y div 16 \<and> x mod 16 < y mod 16"
    and "x = y \<longleftrightarrow> x div 16 = y div 16 \<and> x mod 16 = y mod 16"
proof -
  have lin: "(16 * q + r < 16 * q' + r') = (q < q' \<or> q = q' \<and> r < r')"
    if "r < 16" "r' < 16" for q r q' r' :: nat
    using that by auto
  have m: "x mod 16 < 16" "y mod 16 < 16" by simp_all
  show "x < y \<longleftrightarrow> x div 16 < y div 16 \<or> x div 16 = y div 16 \<and> x mod 16 < y mod 16"
    using lin [OF m, of "x div 16" "y div 16"] by simp
  show "x = y \<longleftrightarrow> x div 16 = y div 16 \<and> x mod 16 = y mod 16"
    by (metis mult_div_mod_eq)
qed

lemma pair_order:
  "hex_pair a @ s < hex_pair b @ t \<longleftrightarrow> a < b \<or> a = b \<and> s < (t :: u8 list)"
  unfolding word_less_nat_alt word_unat_eq_iff div_mod_order [of "unat a"]
  by (auto simp: hex_pair_def hex_char_less hex_char_eq nibbles_less)

lemma hex_digits_less: "length xs = length ys \<Longrightarrow> hex_digits xs < hex_digits ys \<longleftrightarrow> xs < ys"
  by (induction xs ys rule: list_induct2) (simp_all add: hex_digits_Cons pair_order)

lemma insert_order:
  "length xs = length xs' \<Longrightarrow> xs @ p # ys < xs' @ p # ys' \<longleftrightarrow> xs @ ys < xs' @ (ys' :: u8 list)"
  by (induction xs xs' rule: list_induct2) auto

lemma splice_order:
  fixes e e' :: "u8 list"
  assumes "length a = length a'" "length b = length b'" "length c = length c'" "length d = length d'"
  shows "a @ p # b @ p # c @ p # d @ p # e < a' @ p # b' @ p # c' @ p # d' @ p # e' \<longleftrightarrow>
    a @ b @ c @ d @ e < a' @ b' @ c' @ d' @ e'"
proof -
  note ins = insert_order [OF assms(1)]
    insert_order [of "a @ b" "a' @ b'", unfolded append_assoc]
    insert_order [of "a @ b @ c" "a' @ b' @ c'", unfolded append_assoc]
    insert_order [of "a @ b @ c @ d" "a' @ b' @ c' @ d'", unfolded append_assoc]
  have len: "length (a @ b) = length (a' @ b')" "length (a @ b @ c) = length (a' @ b' @ c')"
    "length (a @ b @ c @ d) = length (a' @ b' @ c' @ d')"
    by (simp_all add: assms)
  show ?thesis
    unfolding ins(1) ins(2) [OF len(1)] ins(3) [OF len(2)] ins(4) [OF len(3)] ..
qed

lemma hex_text_less:
  assumes "length a = 16" "length b = 16"
  shows "hex_text a < hex_text b \<longleftrightarrow> a < b"
proof -
  have sp: "hex_digits (take 4 c) @ hex_digits (take 2 (drop 4 c)) @ hex_digits (take 2 (drop 6 c))
      @ hex_digits (take 2 (drop 8 c)) @ hex_digits (drop 10 c) = hex_digits c"
    if "length c = 16" for c
    using that by (elim list_16) (simp add: hex_digits_def)
  have "hex_text a < hex_text b \<longleftrightarrow> hex_digits a < hex_digits b"
    unfolding hex_text_def sp [OF assms(1), symmetric] sp [OF assms(2), symmetric]
    by (rule splice_order) (simp_all add: assms)
  then show ?thesis using assms by (simp add: hex_digits_less)
qed

end
