(* ===== verification/Uuidv7.thy ===== *)
theory Uuidv7
  imports Uuidv7_Types Hex Codec Compare
begin

text \<open>
  \<open>chronoid/uuidv7/uuidv7.c\<close>, without the generators: the sentinel test, comparison, construction
  from bytes and from parts, the accessors and the text form.
\<close>

section \<open>Operations\<close>

abbreviation (input) "UUIDV7_MAX_UNIX_MS \<equiv> (281474976710655 :: int)"

definition chronoid_uuidv7_is_nil :: "uuidv7 \<Rightarrow> bool" where
  "chronoid_uuidv7_is_nil i = (memcmp (uuid_b i) (replicate 16 0) 16 = 0)"

definition chronoid_uuidv7_compare :: "uuidv7 \<Rightarrow> uuidv7 \<Rightarrow> int" where
  "chronoid_uuidv7_compare a b = memcmp (uuid_b a) (uuid_b b) CHRONOID_UUIDV7_BYTES"

definition chronoid_uuidv7_from_bytes :: "uuidv7 \<Rightarrow> u8 list \<Rightarrow> nat \<Rightarrow> uuidv7_err \<times> uuidv7" where
  "chronoid_uuidv7_from_bytes out b n =
     (if n \<noteq> CHRONOID_UUIDV7_BYTES then (CHRONOID_UUIDV7_ERR_SIZE, out)
      else (CHRONOID_UUIDV7_OK, \<lparr>uuid_b = buf_put (uuid_b out) 0 (take CHRONOID_UUIDV7_BYTES b)\<rparr>))"

definition chronoid_uuidv7_from_parts ::
    "uuidv7 \<Rightarrow> i64 \<Rightarrow> u16 \<Rightarrow> u8 list \<Rightarrow> uuidv7_err \<times> uuidv7" where
  "chronoid_uuidv7_from_parts out unix_ms rand_a_12bit rand_b =
     (if unix_ms < 0 \<or> unix_ms > UUIDV7_MAX_UNIX_MS then (CHRONOID_UUIDV7_ERR_TIME_RANGE, out)
      else let ms = word_of_int unix_ms :: u64;
               rand_a = rand_a_12bit AND 0x0fff;
               tmp = [ucast (drop_bit 40 ms), ucast (drop_bit 32 ms), ucast (drop_bit 24 ms),
                      ucast (drop_bit 16 ms), ucast (drop_bit 8 ms), ucast ms,
                      ucast (0x70 OR (drop_bit 8 rand_a AND 0x0f)), ucast (rand_a AND 0xff),
                      0x80 OR (rand_b ! 0 AND 0x3f)]
                     @ take 7 (drop 1 rand_b)
           in (CHRONOID_UUIDV7_OK, \<lparr>uuid_b = buf_put (uuid_b out) 0 tmp\<rparr>))"

definition chronoid_uuidv7_unix_ms :: "uuidv7 \<Rightarrow> i64" where
  "chronoid_uuidv7_unix_ms i =
     (let ms = push_bit 40 (ucast (uuid_b i ! 0)) OR push_bit 32 (ucast (uuid_b i ! 1))
             OR push_bit 24 (ucast (uuid_b i ! 2)) OR push_bit 16 (ucast (uuid_b i ! 3))
             OR push_bit 8 (ucast (uuid_b i ! 4)) OR ucast (uuid_b i ! 5) :: u64
      in uint ms)"

definition chronoid_uuidv7_version :: "uuidv7 \<Rightarrow> u8" where
  "chronoid_uuidv7_version i = drop_bit 4 (uuid_b i ! 6) AND 0x0f"

definition chronoid_uuidv7_variant :: "uuidv7 \<Rightarrow> u8" where
  "chronoid_uuidv7_variant i = drop_bit 6 (uuid_b i ! 8) AND 0x03"

definition chronoid_uuidv7_format :: "bool \<Rightarrow> uuidv7 \<Rightarrow> u8 list \<Rightarrow> u8 list" where
  "chronoid_uuidv7_format have_ssse3 i out = chronoid_hex_encode_lower have_ssse3 out (uuid_b i)"

text \<open>\<open>tmp\<close> and \<open>tmp2\<close> are the uninitialised temporaries of the parser and of the codec.\<close>

definition chronoid_uuidv7_parse ::
    "u8 list \<Rightarrow> u8 list \<Rightarrow> uuidv7 \<Rightarrow> u8 list \<Rightarrow> nat \<Rightarrow> uuidv7_err \<times> uuidv7" where
  "chronoid_uuidv7_parse tmp tmp2 out s len =
     (if len \<noteq> CHRONOID_UUIDV7_STRING_LEN then (CHRONOID_UUIDV7_ERR_STR_SIZE, out)
      else case chronoid_hex_decode tmp2 tmp s len of (rc, b) \<Rightarrow>
        if rc \<noteq> 0 then (CHRONOID_UUIDV7_ERR_STR_VALUE, out)
        else (CHRONOID_UUIDV7_OK, \<lparr>uuid_b = buf_put (uuid_b out) 0 b\<rparr>))"

section \<open>The text form as a codec\<close>

definition uuid_text :: "uuidv7 \<Rightarrow> u8 list" where
  "uuid_text u = hex_text (uuid_b u)"

definition uuid_of_text :: "u8 list \<Rightarrow> uuidv7 option" where
  "uuid_of_text s = (if hex_valid s then Some \<lparr>uuid_b = hex_bytes (hex_chars s)\<rparr> else None)"

lemma uuid_format_refines:
  "wf_uuidv7 u \<Longrightarrow> length out = 36 \<Longrightarrow> chronoid_uuidv7_format ssse3 u out = uuid_text u"
  by (simp add: chronoid_uuidv7_format_def encode_text wf_uuidv7_def uuid_text_def)

lemma hex_valid_bytes: "hex_valid s \<Longrightarrow> length (hex_bytes (hex_chars s)) = 16"
  by (simp add: length_hex_bytes hex_valid_def hex_chars_def)

lemma uuid_parse_refines:
  assumes "wf_uuidv7 out" "length tmp = 16" "length tmp2 = 16" "length s = len"
  shows "chronoid_uuidv7_parse tmp tmp2 out s len =
     (if len \<noteq> 36 then (CHRONOID_UUIDV7_ERR_STR_SIZE, out)
      else case uuid_of_text s of
        None \<Rightarrow> (CHRONOID_UUIDV7_ERR_STR_VALUE, out)
      | Some u \<Rightarrow> (CHRONOID_UUIDV7_OK, u))"
  using assms
  by (auto simp: chronoid_uuidv7_parse_def decode_valid uuid_of_text_def buf_put_all
      hex_valid_bytes wf_uuidv7_def)

interpretation uuid_codec: ordered_codec uuid_text uuid_of_text wf_uuidv7
proof
  fix a b s
  show "wf_uuidv7 a \<Longrightarrow> uuid_of_text (uuid_text a) = Some a"
    by (simp add: uuid_of_text_def uuid_text_def wf_uuidv7_def hex_valid_text hex_chars_text
        hex_bytes_digits)
  show "uuid_of_text s = Some a \<Longrightarrow> wf_uuidv7 a"
    by (auto simp: uuid_of_text_def wf_uuidv7_def hex_valid_bytes split: if_splits)
  show "wf_uuidv7 a \<Longrightarrow> wf_uuidv7 b \<Longrightarrow> uuid_text a < uuid_text b \<longleftrightarrow> a < b"
    by (simp add: uuid_text_def wf_uuidv7_def hex_text_less uuid_less_iff)
qed

section \<open>The layout\<close>

text \<open>
  The 16 bytes of time \<open>ms\<close>, counter (or random) field \<open>c\<close> and tail \<open>rb\<close>, with the version and
  variant bits in place.
\<close>

definition uuid_layout :: "nat \<Rightarrow> nat \<Rightarrow> u8 list \<Rightarrow> u8 list" where
  "uuid_layout ms c rb =
     bytes_of_nat 6 ms @ bytes_of_nat 2 (0x7000 + c)
     @ word_of_nat (0x80 + unat (rb ! 0) mod 64) # take 7 (drop 1 rb)"

lemma and_mask_val: "unat (x AND mask n) = unat (x :: 'a::len word) mod 2 ^ n"
proof -
  have "unat (x AND mask n) = take_bit n (unat x)"
    unfolding take_bit_eq_mask [symmetric] by (rule unsigned_take_bit_eq)
  then show ?thesis by (simp add: take_bit_eq_mod)
qed

lemma and_0fff: "unat (x AND (0x0fff :: u16)) = unat x mod 4096"
  using and_mask_val [of x 12] by (simp add: mask_eq_exp_minus_1)

lemma and_00ff: "unat (x AND (0xff :: u16)) = unat x mod 256"
  using and_mask_val [of x 8] by (simp add: mask_eq_exp_minus_1)

lemma and_3f: "unat (x AND (0x3f :: u8)) = unat x mod 64"
  using and_mask_val [of x 6] by (simp add: mask_eq_exp_minus_1)

lemma ucast_u8_nat: "(ucast (x :: 'a::len word) :: u8) = word_of_nat (unat x)"
  by simp

lemma version_byte:
  "(ucast (0x70 OR (drop_bit 8 (x AND 0x0fff :: u16) AND 0x0f)) :: u8) =
     word_of_nat (0x70 + unat x mod 4096 div 256)"
proof -
  define h where "h = drop_bit 8 (x AND 0x0fff :: u16) AND 0x0f"
  have "unat (drop_bit 8 (x AND 0x0fff :: u16)) = unat x mod 4096 div 256"
    using and_0fff [of x] by (simp add: drop_bit_eq_div unat_div_distrib)
  moreover have "unat x mod 4096 div 256 < 16" by (simp add: less_mult_imp_div_less)
  ultimately have h: "unat h = unat x mod 4096 div 256" "unat h < 16"
    using and_mask_val [of "drop_bit 8 (x AND 0x0fff :: u16)" 4]
    by (simp_all add: h_def mask_eq_exp_minus_1)
  have "unat (push_bit 4 7 OR h) = 7 * 16 + unat h"
    using unat_or_push [of 4 3 h 7] h(2) by simp
  then have "unat (0x70 OR h) = 0x70 + unat h" by simp
  then show ?thesis unfolding h_def [symmetric] ucast_u8_nat h(1) [symmetric] by simp
qed

lemma variant_byte: "(0x80 OR (b AND 0x3f) :: u8) = word_of_nat (0x80 + unat b mod 64)"
proof -
  have "unat (push_bit 6 2 OR (b AND 0x3f)) = 2 * 64 + unat (b AND 0x3f)"
    using unat_or_push [of 6 2 "b AND 0x3f" 2] by (simp add: and_3f)
  then have "unat (0x80 OR (b AND 0x3f)) = 0x80 + unat b mod 64" by (simp add: and_3f)
  from this [symmetric] show ?thesis by simp
qed

lemma layout_bytes:
  assumes "length rb = 8"
  shows "[ucast (drop_bit 40 (ms :: u64)), ucast (drop_bit 32 ms), ucast (drop_bit 24 ms),
          ucast (drop_bit 16 ms), ucast (drop_bit 8 ms), ucast ms,
          ucast (0x70 OR (drop_bit 8 (ra AND 0x0fff :: u16) AND 0x0f)), ucast ((ra AND 0x0fff) AND 0xff),
          0x80 OR (rb ! 0 AND 0x3f)] @ take 7 (drop 1 rb) = uuid_layout (unat ms) (unat ra mod 4096) rb"
proof -
  have "bytes_of_nat 2 (0x7000 + unat ra mod 4096) =
     [word_of_nat (0x70 + unat ra mod 4096 div 256), word_of_nat (0x7000 + unat ra mod 4096)]"
  proof -
    have "(0x7000 + unat ra mod 4096) div 256 = 0x70 + unat ra mod 4096 div 256" by simp
    then show ?thesis unfolding bytes_of_nat_2 by simp
  qed
  moreover have "(word_of_nat (0x7000 + unat ra mod 4096) :: u8) = ucast ((ra AND 0x0fff) AND 0xff)"
  proof -
    have "(word_of_nat (0x7000 + unat ra mod 4096) :: u8) = word_of_nat (unat ra mod 4096 mod 256)"
    proof -
      have shift: "(0x7000 + y) mod 256 = y mod 256" for y :: nat
        using mod_mult_self3 [of 112 256 y] by simp
      show ?thesis
        using word_of_nat_mod_256 [of "0x7000 + unat ra mod 4096"]
        unfolding shift by (rule sym)
    qed
    then show ?thesis unfolding ucast_u8_nat and_00ff and_0fff .
  qed
  ultimately show ?thesis
    unfolding uuid_layout_def version_byte variant_byte
    by (simp add: bytes_of_nat_6 byte_drop)
qed

lemma length_layout [simp]: "length rb = 8 \<Longrightarrow> length (uuid_layout ms c rb) = 16"
  by (simp add: uuid_layout_def)

text \<open>The first eight bytes are one number, in which the time is above the counter.\<close>

lemma layout_prefix:
  assumes "c < 4096"
  shows "bytes_of_nat 6 ms @ bytes_of_nat 2 (0x7000 + c) = bytes_of_nat 8 (ms * 65536 + 0x7000 + c)"
proof -
  have "(ms * 65536 + 0x7000 + c) div 256 ^ 2 = ms" using assms by simp
  moreover have "bytes_of_nat 2 (ms * 65536 + 0x7000 + c) = bytes_of_nat 2 (0x7000 + c)"
    using bytes_of_nat_mod [of 2 "ms * 65536 + 0x7000 + c"] bytes_of_nat_mod [of 2 "0x7000 + c"] assms
    by (simp add: add.assoc)
  ultimately show ?thesis using bytes_of_nat_add [of 6 2 "ms * 65536 + 0x7000 + c"] by simp
qed

lemma prefix_less: "length xs = length ys \<Longrightarrow> xs < ys \<Longrightarrow> xs @ s < ys @ (t :: u8 list)"
  by (induction xs ys rule: list_induct2) auto

lemma layout_less:
  assumes "c < 4096" "c' < 4096" "ms' < 2 ^ 48" "ms < ms' \<or> ms = ms' \<and> c < c'"
  shows "uuid_layout ms c rb < uuid_layout ms' c' rb'"
proof -
  have "ms * 65536 + 0x7000 + c < ms' * 65536 + 0x7000 + c'" using assms by auto
  moreover have "ms' * 65536 + 0x7000 + c' < 256 ^ 8" using assms by simp
  ultimately have "bytes_of_nat 8 (ms * 65536 + 0x7000 + c) < bytes_of_nat 8 (ms' * 65536 + 0x7000 + c')"
    by (subst bytes_val_mono) (simp_all add: bytes_val_of_nat)
  then have "bytes_of_nat 8 (ms * 65536 + 0x7000 + c) @ s < bytes_of_nat 8 (ms' * 65536 + 0x7000 + c') @ t" for s t
    by (intro prefix_less) simp_all
  then show ?thesis
    by (simp add: uuid_layout_def layout_prefix [OF assms(1), symmetric] layout_prefix [OF assms(2), symmetric])
qed

section \<open>Construction and accessors\<close>

lemma ms_val: "0 \<le> m \<Longrightarrow> m \<le> UUIDV7_MAX_UNIX_MS \<Longrightarrow> unat (word_of_int m :: u64) = nat m"
  by (simp add: unsigned_of_int take_bit_int_eq_self nat_take_bit_eq)

lemma from_parts_layout:
  assumes "wf_uuidv7 out" "length rb = 8"
  shows "chronoid_uuidv7_from_parts out m ra rb =
     (if m < 0 \<or> m > UUIDV7_MAX_UNIX_MS then (CHRONOID_UUIDV7_ERR_TIME_RANGE, out)
      else (CHRONOID_UUIDV7_OK, \<lparr>uuid_b = uuid_layout (nat m) (unat ra mod 4096) rb\<rparr>))"
proof (cases "m < 0 \<or> m > UUIDV7_MAX_UNIX_MS")
  case True
  then show ?thesis by (auto simp: chronoid_uuidv7_from_parts_def)
next
  case False
  then show ?thesis
    unfolding chronoid_uuidv7_from_parts_def Let_def layout_bytes [OF assms(2)]
    using assms by (simp add: ms_val buf_put_all wf_uuidv7_def)
qed

lemma take_nth6:
  "6 \<le> length p \<Longrightarrow> take 6 p = [p ! 0, p ! 1, p ! 2, p ! 3, p ! 4, p ! 5]"
  by (rule nth_equalityI) (auto simp: less_Suc_eq eval_nat_numeral)

lemma unix_ms_val:
  assumes "wf_uuidv7 u"
  shows "chronoid_uuidv7_unix_ms u = int (bytes_val (take 6 (uuid_b u)))"
proof -
  have "unat (push_bit 40 (ucast (uuid_b u ! 0)) OR push_bit 32 (ucast (uuid_b u ! 1))
      OR push_bit 24 (ucast (uuid_b u ! 2)) OR push_bit 16 (ucast (uuid_b u ! 3))
      OR push_bit 8 (ucast (uuid_b u ! 4)) OR ucast (uuid_b u ! 5) :: u64) =
    bytes_val (take 6 (uuid_b u))"
    using assms unat_u8_less [of "uuid_b u ! 0"] unat_u8_less [of "uuid_b u ! 1"]
      unat_u8_less [of "uuid_b u ! 2"] unat_u8_less [of "uuid_b u ! 3"]
      unat_u8_less [of "uuid_b u ! 4"] unat_u8_less [of "uuid_b u ! 5"]
    by (simp add: unat_or_byte take_nth6 wf_uuidv7_def bytes_val_def)
  then show ?thesis unfolding chronoid_uuidv7_unix_ms_def Let_def uint_nat by (rule arg_cong)
qed

lemma layout_fields:
  assumes "length rb = 8" "ms < 2 ^ 48" "c < 4096" "u = \<lparr>uuid_b = uuid_layout ms c rb\<rparr>"
  shows "wf_uuidv7 u" "chronoid_uuidv7_unix_ms u = int ms" "chronoid_uuidv7_version u = 7"
    and "chronoid_uuidv7_variant u = 2"
    and "unat (uuid_b u ! 6) mod 16 * 256 + unat (uuid_b u ! 7) = c"
    and "unat (uuid_b u ! 8) mod 64 = unat (rb ! 0) mod 64" "drop 9 (uuid_b u) = drop 1 rb"
proof -
  have b: "uuid_b u = bytes_of_nat 6 ms @ [word_of_nat (112 + c div 256), word_of_nat c]
      @ word_of_nat (128 + unat (rb ! 0) mod 64) # drop 1 rb"
  proof -
    have "(0x7000 + c) div 256 = 112 + c div 256" by simp
    moreover have "(word_of_nat (0x7000 + c) :: u8) = word_of_nat c"
      using word_of_nat_mod_256 [of "0x7000 + c"] word_of_nat_mod_256 [of c] mod_mult_self3 [of 112 256 c]
      by simp
    ultimately have "bytes_of_nat 2 (0x7000 + c) = [word_of_nat (112 + c div 256), word_of_nat c]"
      unfolding bytes_of_nat_2 by simp
    then show ?thesis using assms(1) by (simp add: assms(4) uuid_layout_def)
  qed
  have n: "uuid_b u ! 6 = word_of_nat (112 + c div 256)" "uuid_b u ! 7 = word_of_nat c"
    "uuid_b u ! 8 = word_of_nat (128 + unat (rb ! 0) mod 64)"
    unfolding b by (simp_all add: nth_append del: of_nat_add)
  have c: "c div 256 < 16" using assms(3) by (simp add: less_mult_imp_div_less)
  have v6: "unat (uuid_b u ! 6) = 112 + c div 256"
    unfolding n by (subst unat_of_nat) (use c in simp)
  have r: "unat (rb ! 0) mod 64 < 64" by simp
  have v8: "unat (uuid_b u ! 8) = 128 + unat (rb ! 0) mod 64"
    unfolding n by (subst unat_of_nat) (use r in simp)
  show "wf_uuidv7 u" using assms(1) by (simp add: wf_uuidv7_def b)
  then show "chronoid_uuidv7_unix_ms u = int ms"
    using assms(2) by (simp add: unix_ms_val) (simp add: b bytes_val_of_nat)
  show "chronoid_uuidv7_version u = 7"
    using low_nibble [of "drop_bit 4 (uuid_b u ! 6)"] c
    by (simp add: chronoid_uuidv7_version_def word_unat_eq_iff high_nibble v6)
  show "chronoid_uuidv7_variant u = 2"
    using and_mask_val [of "drop_bit 6 (uuid_b u ! 8)" 2]
    by (simp add: chronoid_uuidv7_variant_def word_unat_eq_iff mask_eq_exp_minus_1 drop_bit_eq_div
        unat_div_distrib v8)
  show "unat (uuid_b u ! 6) mod 16 * 256 + unat (uuid_b u ! 7) = c"
  proof -
    have "(112 + c div 256) mod 16 = c div 256" using mod_mult_self3 [of 7 16 "c div 256"] c by simp
    then show ?thesis by (simp add: v6 n(2) unat_of_nat)
  qed
  show "unat (uuid_b u ! 8) mod 64 = unat (rb ! 0) mod 64"
    unfolding v8 using mod_mult_self3 [of 2 64 "unat (rb ! 0) mod 64"] by simp
  show "drop 9 (uuid_b u) = drop 1 rb" by (simp add: b)
qed

section \<open>Properties\<close>

text \<open>
  Claim C23. \<open>from_parts\<close> on every input. A time outside the 48-bit range is a range error and the
  output is left alone. Otherwise the result is an identifier of version 7 and the RFC variant
  whatever the caller's random fields hold, its time is the given one, and exactly the 12 low bits
  of the first field, the 6 low bits of the second field's first byte and its other seven bytes
  are kept.
\<close>

theorem uuidv7_from_parts_spec:
  assumes "wf_uuidv7 out" "length rand_b = 8"
  shows "if unix_ms < 0 \<or> unix_ms > 2 ^ 48 - 1
    then chronoid_uuidv7_from_parts out unix_ms rand_a rand_b = (CHRONOID_UUIDV7_ERR_TIME_RANGE, out)
    else \<exists>u. chronoid_uuidv7_from_parts out unix_ms rand_a rand_b = (CHRONOID_UUIDV7_OK, u)
      \<and> wf_uuidv7 u \<and> chronoid_uuidv7_unix_ms u = unix_ms
      \<and> chronoid_uuidv7_version u = 7 \<and> chronoid_uuidv7_variant u = 2
      \<and> unat (uuid_b u ! 6) mod 16 * 256 + unat (uuid_b u ! 7) = unat rand_a mod 4096
      \<and> unat (uuid_b u ! 8) mod 64 = unat (rand_b ! 0) mod 64
      \<and> drop 9 (uuid_b u) = drop 1 rand_b"
proof (cases "unix_ms < 0 \<or> unix_ms > 2 ^ 48 - 1")
  case True
  then show ?thesis using from_parts_layout [OF assms] by simp
next
  case False
  then have "nat unix_ms < 2 ^ 48" "unat rand_a mod 4096 < 4096" by auto
  note fields = layout_fields [OF assms(2) this refl]
  show ?thesis using from_parts_layout [OF assms, of unix_ms rand_a] False fields by simp
qed

lemma uuidv7_from_parts_spec_witness:
  "\<exists>u. chronoid_uuidv7_from_parts CHRONOID_UUIDV7_MAX 1645557742000 0x1cc3 (replicate 8 0xff) =
      (CHRONOID_UUIDV7_OK, u) \<and> chronoid_uuidv7_unix_ms u = 1645557742000
    \<and> chronoid_uuidv7_version u = 7 \<and> chronoid_uuidv7_variant u = 2"
  using uuidv7_from_parts_spec
    [of CHRONOID_UUIDV7_MAX "replicate 8 0xff" 1645557742000 "0x1cc3"] by simp blast

text \<open>
  Claim C35. Identifiers built from parts sort by their time, and at one time by the 12-bit field,
  whatever their tails.
\<close>

theorem uuidv7_parts_order:
  assumes "wf_uuidv7 out" "wf_uuidv7 out'" "length tail = 8" "length tail' = 8"
    and "0 \<le> ms" "ms' \<le> 2 ^ 48 - 1"
    and "ms < ms' \<or> ms = ms' \<and> unat ra mod 4096 < unat ra' mod 4096"
  shows "chronoid_uuidv7_compare (snd (chronoid_uuidv7_from_parts out ms ra tail))
      (snd (chronoid_uuidv7_from_parts out' ms' ra' tail')) < 0"
proof -
  have r: "\<not> (ms < 0 \<or> ms > UUIDV7_MAX_UNIX_MS)" "\<not> (ms' < 0 \<or> ms' > UUIDV7_MAX_UNIX_MS)"
    using assms by auto
  have "uuid_layout (nat ms) (unat ra mod 4096) tail < uuid_layout (nat ms') (unat ra' mod 4096) tail'"
    by (rule layout_less) (use assms in auto)
  then show ?thesis
    using r assms(1-4)
    by (simp add: from_parts_layout chronoid_uuidv7_compare_def memcmp_def)
qed

lemma uuidv7_parts_order_witness:
  "chronoid_uuidv7_compare
     (snd (chronoid_uuidv7_from_parts CHRONOID_UUIDV7_NIL 5 0xfff (replicate 8 0xff)))
     (snd (chronoid_uuidv7_from_parts CHRONOID_UUIDV7_NIL 6 0 (replicate 8 0))) < 0"
  by (rule uuidv7_parts_order) simp_all

text \<open>
  Claim C11. Round trip: the text of every identifier, whichever encoder the build selects, parses
  back to that identifier.
\<close>

theorem uuidv7_parse_format:
  assumes "wf_uuidv7 u" "wf_uuidv7 out" "length buf = CHRONOID_UUIDV7_STRING_LEN"
    and "length tmp = CHRONOID_UUIDV7_BYTES" "length tmp2 = CHRONOID_UUIDV7_BYTES"
  shows "chronoid_uuidv7_parse tmp tmp2 out (chronoid_uuidv7_format ssse3 u buf)
      CHRONOID_UUIDV7_STRING_LEN = (CHRONOID_UUIDV7_OK, u)"
proof -
  have "length (uuid_text u) = 36"
    using assms(1) by (simp add: uuid_text_def length_hex_text wf_uuidv7_def)
  with assms show ?thesis
    by (simp add: uuid_format_refines uuid_parse_refines uuid_codec.dec_enc)
qed

lemma uuidv7_parse_format_witness:
  "chronoid_uuidv7_parse (replicate 16 1) (replicate 16 2) CHRONOID_UUIDV7_NIL
     (chronoid_uuidv7_format True CHRONOID_UUIDV7_MAX (replicate 36 0)) 36 =
     (CHRONOID_UUIDV7_OK, CHRONOID_UUIDV7_MAX)"
  by (rule uuidv7_parse_format) simp_all

text \<open>
  Claim C10. Parsing accepts exactly the 36-character texts with hyphens at offsets 8, 13, 18 and
  23 and hexadecimal digits, of either case, everywhere else; formatting what it accepted gives
  the text back in lower case. A wrong length and a wrong character are told apart, and both leave
  the output alone.
\<close>

theorem uuidv7_parse_spec:
  assumes "wf_uuidv7 out" "length tmp = CHRONOID_UUIDV7_BYTES" "length tmp2 = CHRONOID_UUIDV7_BYTES"
    and "length s = len" "length buf = CHRONOID_UUIDV7_STRING_LEN"
  shows "if len \<noteq> CHRONOID_UUIDV7_STRING_LEN
    then chronoid_uuidv7_parse tmp tmp2 out s len = (CHRONOID_UUIDV7_ERR_STR_SIZE, out)
    else if s ! 8 = HYPHEN \<and> s ! 13 = HYPHEN \<and> s ! 18 = HYPHEN \<and> s ! 23 = HYPHEN
      \<and> list_all is_hex (hex_chars s)
    then \<exists>u. chronoid_uuidv7_parse tmp tmp2 out s len = (CHRONOID_UUIDV7_OK, u) \<and> wf_uuidv7 u
      \<and> chronoid_uuidv7_format ssse3 u buf = map hex_lower s
    else chronoid_uuidv7_parse tmp tmp2 out s len = (CHRONOID_UUIDV7_ERR_STR_VALUE, out)"
proof -
  have wf: "wf_uuidv7 \<lparr>uuid_b = hex_bytes (hex_chars s)\<rparr>" if "hex_valid s"
    using hex_valid_bytes [OF that] by (simp add: wf_uuidv7_def)
  show ?thesis
    using assms wf hex_text_bytes [of s]
    by (simp add: uuid_parse_refines uuid_of_text_def uuid_format_refines uuid_text_def hex_valid_def)
qed

lemma uuidv7_parse_spec_witness:
  "\<exists>u. chronoid_uuidv7_parse (replicate 16 1) (replicate 16 2) CHRONOID_UUIDV7_NIL
      (bytes_of ''017F22E2-79B0-7CC3-98C4-DC0C0C07398F'') 36 = (CHRONOID_UUIDV7_OK, u)
    \<and> wf_uuidv7 u
    \<and> chronoid_uuidv7_format False u (replicate 36 0) = bytes_of ''017f22e2-79b0-7cc3-98c4-dc0c0c07398f''"
  using uuidv7_parse_spec [of CHRONOID_UUIDV7_NIL "replicate 16 1" "replicate 16 2"
      "bytes_of ''017F22E2-79B0-7CC3-98C4-DC0C0C07398F''" 36 "replicate 36 0" False]
  by (simp add: hex_chars_def is_hex_iff hex_digit_ranges hex_lower_def)

text \<open>
  Texts sort as identifiers: two formatted identifiers compare, character by character,
  as \<open>chronoid_uuidv7_compare\<close> says, even when they come from different encoders.
\<close>

theorem uuidv7_compare_text:
  assumes "wf_uuidv7 a" "wf_uuidv7 b" "length p = CHRONOID_UUIDV7_STRING_LEN"
    and "length q = CHRONOID_UUIDV7_STRING_LEN"
  shows "chronoid_uuidv7_compare a b =
    (if chronoid_uuidv7_format e a p < chronoid_uuidv7_format e' b q then - 1
     else if chronoid_uuidv7_format e a p = chronoid_uuidv7_format e' b q then 0 else 1)"
  using assms
  by (simp add: uuid_format_refines uuid_codec.enc_mono uuid_codec.enc_inj chronoid_uuidv7_compare_def
      memcmp_def wf_uuidv7_def uuid_less_iff uuid_eq_iff)

lemma uuidv7_compare_text_witness:
  "chronoid_uuidv7_compare CHRONOID_UUIDV7_NIL CHRONOID_UUIDV7_MAX =
    (if chronoid_uuidv7_format True CHRONOID_UUIDV7_NIL (replicate 36 0)
        < chronoid_uuidv7_format False CHRONOID_UUIDV7_MAX (replicate 36 0) then - 1
     else if chronoid_uuidv7_format True CHRONOID_UUIDV7_NIL (replicate 36 0)
        = chronoid_uuidv7_format False CHRONOID_UUIDV7_MAX (replicate 36 0) then 0 else 1)"
  by (rule uuidv7_compare_text) simp_all

end
