(* ===== verification/Chacha20.thy ===== *)
theory Chacha20
  imports Prelude
begin

text \<open>
  \<open>chronoid/chacha20.c\<close> and \<open>chronoid/wipe.h\<close>: the ChaCha20 block function on a 16-word state and
  the zeroizer. The state keeps its 32-bit words; the block is the list of its 64 bytes.
\<close>

section \<open>The block function\<close>

definition ROTL32 :: "u32 \<Rightarrow> nat \<Rightarrow> u32" where
  "ROTL32 x n = push_bit n x OR drop_bit (32 - n) x"

text \<open>The quarter round, on the four words the macro is applied to.\<close>

definition QR :: "u32 \<times> u32 \<times> u32 \<times> u32 \<Rightarrow> u32 \<times> u32 \<times> u32 \<times> u32" where
  "QR = (\<lambda>(a, b, c, d).
     let a = a + b; d = d XOR a; d = ROTL32 d 16;
         c = c + d; b = b XOR c; b = ROTL32 b 12;
         a = a + b; d = d XOR a; d = ROTL32 d 8;
         c = c + d; b = b XOR c; b = ROTL32 b 7
     in (a, b, c, d))"

definition QR_at :: "nat \<Rightarrow> nat \<Rightarrow> nat \<Rightarrow> nat \<Rightarrow> u32 list \<Rightarrow> u32 list" where
  "QR_at i j k l x =
     (case QR (x ! i, x ! j, x ! k, x ! l) of (a, b, c, d) \<Rightarrow> x[i := a, j := b, k := c, l := d])"

definition chacha20_double_round :: "u32 list \<Rightarrow> u32 list" where
  "chacha20_double_round x =
     (let x = QR_at 0 4 8 12 x; x = QR_at 1 5 9 13 x; x = QR_at 2 6 10 14 x; x = QR_at 3 7 11 15 x;
          x = QR_at 0 5 10 15 x; x = QR_at 1 6 11 12 x; x = QR_at 2 7 8 13 x
      in QR_at 3 4 9 14 x)"

fun chacha20_rounds :: "nat \<Rightarrow> u32 list \<Rightarrow> u32 list" where
  "chacha20_rounds 0 x = x"
| "chacha20_rounds (Suc i) x = chacha20_rounds i (chacha20_double_round x)"

definition le32_bytes :: "u32 \<Rightarrow> u8 list" where
  "le32_bytes v = [ucast v, ucast (drop_bit 8 v), ucast (drop_bit 16 v), ucast (drop_bit 24 v)]"

definition chronoid_chacha20_block :: "u8 list \<Rightarrow> u32 list \<Rightarrow> u8 list \<times> u32 list" where
  "chronoid_chacha20_block out st =
     (let x = chacha20_rounds 10 st;
          out = buf_put out 0 (concat (map (\<lambda>i. le32_bytes (x ! i + st ! i)) [0..<16]));
          st = st[12 := st ! 12 + 1];
          st = (if st ! 12 = 0 then st[13 := st ! 13 + 1] else st)
      in (out, st))"

section \<open>The zeroizer\<close>

text \<open>
  \<open>chronoid_explicit_bzero (p + off, n)\<close>: which primitive does it is a matter of the build; that the
  stores are not elided is outside the model.
\<close>

definition chronoid_explicit_bzero :: "u8 list \<Rightarrow> nat \<Rightarrow> nat \<Rightarrow> u8 list" where
  "chronoid_explicit_bzero p off n = (if n = 0 then p else buf_put p off (replicate n 0))"

lemma bzero_eq: "chronoid_explicit_bzero p off n = buf_put p off (replicate n 0)"
  by (simp add: chronoid_explicit_bzero_def buf_put_def)

section \<open>Shape\<close>

lemma length_QR_at [simp]: "length (QR_at i j k l x) = length x"
  by (simp add: QR_at_def split: prod.splits)

lemma length_double_round [simp]: "length (chacha20_double_round x) = length x"
  by (simp add: chacha20_double_round_def Let_def)

lemma length_rounds [simp]: "length (chacha20_rounds i x) = length x"
  by (induction i arbitrary: x) simp_all

lemma length_le32_bytes [simp]: "length (le32_bytes v) = 4"
  by (simp add: le32_bytes_def)

definition block_bytes :: "u32 list \<Rightarrow> u8 list" where
  "block_bytes st = concat (map (\<lambda>i. le32_bytes (chacha20_rounds 10 st ! i + st ! i)) [0..<16])"

definition next_counter :: "u32 list \<Rightarrow> u32 list" where
  "next_counter st =
     (let st = st[12 := st ! 12 + 1] in if st ! 12 = 0 then st[13 := st ! 13 + 1] else st)"

lemma length_block_bytes [simp]: "length (block_bytes st) = 64"
  by (simp add: block_bytes_def length_concat comp_def upt_rec)

lemma length_next_counter [simp]: "length (next_counter st) = length st"
  by (simp add: next_counter_def Let_def)

lemma block_eq:
  "length out = 64 \<Longrightarrow> chronoid_chacha20_block out st = (block_bytes st, next_counter st)"
  using length_block_bytes [of st]
  by (simp add: chronoid_chacha20_block_def Let_def block_bytes_def [symmetric] next_counter_def buf_put_all)

section \<open>The rounds are a permutation\<close>

definition ROTR32 :: "u32 \<Rightarrow> nat \<Rightarrow> u32" where
  "ROTR32 x n = drop_bit n x OR push_bit (32 - n) x"

lemma rotr_rotl:
  assumes "n \<le> 32"
  shows "ROTR32 (ROTL32 x n) n = x"
proof (rule bit_word_eqI)
  fix i assume "i < LENGTH(32)"
  moreover have "bit x j \<Longrightarrow> j < 32" for j using bit_imp_le_length [of x j] by simp
  moreover have "\<not> n + i < 32 \<Longrightarrow> 32 + (i + n - 32) - n = i" by simp
  ultimately show "bit (ROTR32 (ROTL32 x n) n) i \<longleftrightarrow> bit x i"
    using assms by (cases "n + i < 32") (auto simp: ROTR32_def ROTL32_def bit_simps)
qed

definition QR_inv :: "u32 \<times> u32 \<times> u32 \<times> u32 \<Rightarrow> u32 \<times> u32 \<times> u32 \<times> u32" where
  "QR_inv = (\<lambda>(a, b, c, d).
     let b = ROTR32 b 7; b = b XOR c; c = c - d;
         d = ROTR32 d 8; d = d XOR a; a = a - b;
         b = ROTR32 b 12; b = b XOR c; c = c - d;
         d = ROTR32 d 16; d = d XOR a; a = a - b
     in (a, b, c, d))"

lemma QR_inv_QR: "QR_inv (QR p) = p"
  by (cases p) (simp add: QR_def QR_inv_def Let_def rotr_rotl xor.assoc)

lemma QR_at_inj:
  assumes "QR_at i j k l x = QR_at i j k l y" "length x = length y"
    and "distinct [i, j, k, l]" "i < length x" "j < length x" "k < length x" "l < length x"
  shows "x = y"
proof -
  obtain a b c d where q: "QR (x ! i, x ! j, x ! k, x ! l) = (a, b, c, d)" by (metis prod_cases4)
  obtain a' b' c' d' where q': "QR (y ! i, y ! j, y ! k, y ! l) = (a', b', c', d')" by (metis prod_cases4)
  have eq: "x[i := a, j := b, k := c, l := d] = y[i := a', j := b', k := c', l := d']"
    using assms(1) q q' by (simp add: QR_at_def)
  have n: "x[i := a, j := b, k := c, l := d] ! m = y[i := a', j := b', k := c', l := d'] ! m" for m
    by (simp add: eq)
  have "(a, b, c, d) = (a', b', c', d')"
    using n [of i] n [of j] n [of k] n [of l] assms(2-) by (simp add: nth_list_update)
  then have "(x ! i, x ! j, x ! k, x ! l) = (y ! i, y ! j, y ! k, y ! l)"
    using q q' QR_inv_QR by metis
  moreover have "x ! m = y ! m" if "m \<notin> {i, j, k, l}" for m
    using n [of m] that by simp
  ultimately show ?thesis
    using assms(2) by (intro nth_equalityI) (simp, metis insert_iff singletonD Pair_inject)
qed

lemma QR_at_eq_iff:
  "length x = 16 \<Longrightarrow> length y = 16 \<Longrightarrow> distinct [i, j, k, l] \<Longrightarrow> i < 16 \<Longrightarrow> j < 16 \<Longrightarrow> k < 16 \<Longrightarrow>
    l < 16 \<Longrightarrow> QR_at i j k l x = QR_at i j k l y \<longleftrightarrow> x = y"
  using QR_at_inj [of i j k l x y] by auto

lemma double_round_eq_iff:
  "length x = 16 \<Longrightarrow> length y = 16 \<Longrightarrow>
    chacha20_double_round x = chacha20_double_round y \<longleftrightarrow> x = y"
  by (simp add: chacha20_double_round_def Let_def QR_at_eq_iff)

lemma rounds_eq_iff:
  "length x = 16 \<Longrightarrow> length y = 16 \<Longrightarrow> chacha20_rounds i x = chacha20_rounds i y \<longleftrightarrow> x = y"
  by (induction i arbitrary: x y) (simp_all add: double_round_eq_iff)

section \<open>The block counter\<close>

definition block_counter :: "u32 list \<Rightarrow> nat" where
  "block_counter st = unat (st ! 12) + 2 ^ 32 * unat (st ! 13)"

lemma counter_step:
  assumes "length st = 16"
  shows "block_counter (next_counter st) = (block_counter st + 1) mod 2 ^ 64"
proof -
  have lt: "unat (st ! 12) < 4294967296" "unat (st ! 13) < 4294967296"
    using unsigned_less [of "st ! 12", where ?'a = nat] unsigned_less [of "st ! 13", where ?'a = nat]
    by simp_all
  have suc: "unat (w + 1) = (if unat w = 4294967295 then 0 else unat w + 1)" for w :: u32
  proof -
    have "unat (w + 1) = (unat w + 1) mod 4294967296" by (simp add: unat_word_ariths)
    moreover have "unat w < 4294967296" using unsigned_less [of w, where ?'a = nat] by simp
    ultimately show ?thesis by (cases "unat w = 4294967295") simp_all
  qed
  have "st ! 12 + 1 = 0 \<longleftrightarrow> unat (st ! 12) = 4294967295"
    using suc [of "st ! 12"] by (auto simp: unat_eq_0 [symmetric] simp del: unat_eq_0)
  then show ?thesis
    using assms lt
    by (auto simp: block_counter_def next_counter_def Let_def suc mod_if)
qed

section \<open>Properties\<close>

text \<open>
  A block is 64 bytes whatever the state, the rounds are a permutation of the states, and
  the call moves the 64-bit counter in words 12 and 13 by one (the carry included) and touches no
  other word; so the state repeats only after \<open>2 ^ 64\<close> blocks.
\<close>

theorem chacha20_block_step:
  assumes "length out = 64" "length st = 16" "length st2 = 16"
    and "chronoid_chacha20_block out st = (b, st')"
  shows "length b = 64 \<and> length st' = 16
    \<and> block_counter st' = (block_counter st + 1) mod 2 ^ 64
    \<and> take 12 st' = take 12 st \<and> drop 14 st' = drop 14 st
    \<and> (chacha20_rounds 10 st = chacha20_rounds 10 st2 \<longleftrightarrow> st = st2)"
proof -
  have "b = block_bytes st" "st' = next_counter st" using assms by (simp_all add: block_eq)
  moreover have "take 12 (next_counter st) = take 12 st" "drop 14 (next_counter st) = drop 14 st"
    by (simp_all add: next_counter_def Let_def)
  ultimately show ?thesis
    using counter_step [OF assms(2)] rounds_eq_iff [OF assms(2,3)] assms(2) by simp
qed

lemma chacha20_block_step_witness:
  "length (fst (chronoid_chacha20_block (replicate 64 0) (replicate 16 0))) = 64"
  using chacha20_block_step [of "replicate 64 0" "replicate 16 0" "replicate 16 1", OF _ _ _ prod.collapse [symmetric]]
  by simp

end
