(* ===== verification/Os_Entropy.thy ===== *)
theory Os_Entropy
  imports Chacha20
begin

text \<open>
  \<open>chronoid/rand_os.c\<close>: the operating system's entropy sources. What the system answers is an
  environment of the model: a function from the number of system calls made so far to the answer
  of the next one. A loop that retries while the system keeps interrupting it need not end, so
  the loops are partial functions, and that they end is a theorem about environments that stop
  interrupting.
\<close>

section \<open>The environment\<close>

text \<open>
  \<open>Interrupted\<close> is a negative result with \<open>errno = EINTR\<close>, \<open>Failed\<close> a negative result with any
  other \<open>errno\<close>.
\<close>

datatype 'a sys = Answer 'a | Interrupted | Failed

text \<open>
  The clock (\<open>timespec_get\<close>: seconds and nanoseconds, or failure), the process id, and the entropy
  calls. \<open>getrandom\<close> and \<open>read\<close> answer any number of bytes up to the requested count (a longer
  answer is cut); \<open>getentropy\<close> and \<open>BCryptGenRandom\<close> fill the whole request or fail. The last three
  are the thread-exit registrations: the result of \<open>__cxa_thread_atexit_impl\<close>, and whether
  \<open>FlsAlloc\<close> and \<open>FlsSetValue\<close> succeed.
\<close>

record env =
  env_clock :: "nat \<Rightarrow> (int \<times> int) option"
  env_pid :: "nat \<Rightarrow> int"
  env_getrandom :: "nat \<Rightarrow> u8 list sys"
  env_getentropy :: "nat \<Rightarrow> (nat \<Rightarrow> u8) option"
  env_bcrypt :: "nat \<Rightarrow> (nat \<Rightarrow> u8) option"
  env_open :: "nat \<Rightarrow> int sys"
  env_read :: "nat \<Rightarrow> u8 list sys"
  env_atexit :: "nat \<Rightarrow> int"
  env_fls_alloc :: "nat \<Rightarrow> bool"
  env_fls_set :: "nat \<Rightarrow> bool"

text \<open>The build's feature probes, and the part of the process the calls change.\<close>

record os_config =
  have_bcrypt :: bool
  have_getrandom :: bool
  have_getentropy :: bool

record os_state =
  tick :: nat
  fds :: "int list"

section \<open>The sources\<close>

function bcrypt_loop :: "env \<Rightarrow> nat \<Rightarrow> nat \<Rightarrow> u8 list \<Rightarrow> nat \<Rightarrow> int \<times> u8 list \<times> nat" where
  "bcrypt_loop E n off buf t =
     (if n > 0 then
        let chunk = (if n > 4294967295 then 4294967295 else n)
        in case env_bcrypt E t of
             None \<Rightarrow> (- 1, buf, t + 1)
           | Some f \<Rightarrow> bcrypt_loop E (n - chunk) (off + chunk) (buf_put buf off (map f [0..<chunk])) (t + 1)
      else (0, buf, t))"
  by pat_completeness auto
termination by (relation "measure (\<lambda>(E, n, off, buf, t). n)") auto

declare bcrypt_loop.simps [simp del]

definition chronoid_random_via_bcrypt :: "env \<Rightarrow> u8 list \<Rightarrow> nat \<Rightarrow> os_state \<Rightarrow> int \<times> u8 list \<times> os_state" where
  "chronoid_random_via_bcrypt E buf n w =
     (case bcrypt_loop E n 0 buf (tick w) of (rc, buf', t) \<Rightarrow> (rc, buf', w\<lparr>tick := t\<rparr>))"

partial_function (option) getrandom_loop ::
    "env \<Rightarrow> nat \<Rightarrow> nat \<Rightarrow> u8 list \<Rightarrow> nat \<Rightarrow> (int \<times> u8 list \<times> nat) option" where
  "getrandom_loop E n off buf t =
     (if off < n then
        (case env_getrandom E t of
           Interrupted \<Rightarrow> getrandom_loop E n off buf (t + 1)
         | Failed \<Rightarrow> Some (- 1, buf, t + 1)
         | Answer bs \<Rightarrow>
             getrandom_loop E n (off + length (take (n - off) bs)) (buf_put buf off (take (n - off) bs))
               (t + 1))
      else Some (0, buf, t))"

definition chronoid_random_via_getrandom ::
    "env \<Rightarrow> u8 list \<Rightarrow> nat \<Rightarrow> os_state \<Rightarrow> (int \<times> u8 list \<times> os_state) option" where
  "chronoid_random_via_getrandom E buf n w =
     (case getrandom_loop E n 0 buf (tick w) of
        None \<Rightarrow> None
      | Some (rc, buf', t) \<Rightarrow> Some (rc, buf', w\<lparr>tick := t\<rparr>))"

function getentropy_loop :: "env \<Rightarrow> nat \<Rightarrow> nat \<Rightarrow> u8 list \<Rightarrow> nat \<Rightarrow> int \<times> u8 list \<times> nat" where
  "getentropy_loop E n off buf t =
     (if off < n then
        let chunk = (if n - off > 256 then 256 else n - off)
        in case env_getentropy E t of
             None \<Rightarrow> (- 1, buf, t + 1)
           | Some f \<Rightarrow> getentropy_loop E n (off + chunk) (buf_put buf off (map f [0..<chunk])) (t + 1)
      else (0, buf, t))"
  by pat_completeness auto
termination by (relation "measure (\<lambda>(E, n, off, buf, t). n - off)") auto

declare getentropy_loop.simps [simp del]

definition chronoid_random_via_getentropy ::
    "env \<Rightarrow> u8 list \<Rightarrow> nat \<Rightarrow> os_state \<Rightarrow> int \<times> u8 list \<times> os_state" where
  "chronoid_random_via_getentropy E buf n w =
     (case getentropy_loop E n 0 buf (tick w) of (rc, buf', t) \<Rightarrow> (rc, buf', w\<lparr>tick := t\<rparr>))"

partial_function (option) open_loop :: "env \<Rightarrow> nat \<Rightarrow> (int option \<times> nat) option" where
  "open_loop E t =
     (case env_open E t of
        Interrupted \<Rightarrow> open_loop E (t + 1)
      | Failed \<Rightarrow> Some (None, t + 1)
      | Answer fd \<Rightarrow> Some (Some fd, t + 1))"

partial_function (option) read_loop ::
    "env \<Rightarrow> nat \<Rightarrow> nat \<Rightarrow> u8 list \<Rightarrow> nat \<Rightarrow> (int \<times> u8 list \<times> nat) option" where
  "read_loop E n off buf t =
     (if off < n then
        (case env_read E t of
           Interrupted \<Rightarrow> read_loop E n off buf (t + 1)
         | Failed \<Rightarrow> Some (- 1, buf, t + 1)
         | Answer bs \<Rightarrow>
             if take (n - off) bs = [] then Some (- 1, buf, t + 1)
             else read_loop E n (off + length (take (n - off) bs))
               (buf_put buf off (take (n - off) bs)) (t + 1))
      else Some (0, buf, t))"

definition chronoid_random_via_urandom ::
    "env \<Rightarrow> u8 list \<Rightarrow> nat \<Rightarrow> os_state \<Rightarrow> (int \<times> u8 list \<times> os_state) option" where
  "chronoid_random_via_urandom E buf n w =
     (case open_loop E (tick w) of
        None \<Rightarrow> None
      | Some (None, t) \<Rightarrow> Some (- 1, buf, w\<lparr>tick := t\<rparr>)
      | Some (Some fd, t) \<Rightarrow>
          let w = w\<lparr>tick := t, fds := fd # fds w\<rparr>
          in case read_loop E n 0 buf (tick w) of
               None \<Rightarrow> None
             | Some (rc, buf', t') \<Rightarrow> Some (rc, buf', w\<lparr>tick := t', fds := remove1 fd (fds w)\<rparr>))"

section \<open>The entry point\<close>

text \<open>
  The file has two bodies of the function, chosen by the build. On Windows there is one source; on
  POSIX the sources are tried in turn, and each failure leaves its partial bytes in the buffer.
\<close>

definition chronoid_os_random_bytes_windows :: "env \<Rightarrow> u8 list \<Rightarrow> nat \<Rightarrow> os_state \<Rightarrow> int \<times> u8 list \<times> os_state" where
  "chronoid_os_random_bytes_windows E buf n w =
     (if n = 0 then (0, buf, w) else chronoid_random_via_bcrypt E buf n w)"

definition chronoid_os_random_bytes_posix ::
    "os_config \<Rightarrow> env \<Rightarrow> u8 list \<Rightarrow> nat \<Rightarrow> os_state \<Rightarrow> (int \<times> u8 list \<times> os_state) option" where
  "chronoid_os_random_bytes_posix cfg E buf n w =
     (if n = 0 then Some (0, buf, w)
      else
        case (if have_getrandom cfg then chronoid_random_via_getrandom E buf n w
              else Some (- 1, buf, w)) of
          None \<Rightarrow> None
        | Some (rc, buf, w) \<Rightarrow>
            if rc = 0 then Some (0, buf, w)
            else
              case (if have_getentropy cfg then chronoid_random_via_getentropy E buf n w
                    else (- 1, buf, w)) of
                (rc, buf, w) \<Rightarrow>
                  if rc = 0 then Some (0, buf, w)
                  else chronoid_random_via_urandom E buf n w)"

definition chronoid_os_random_bytes ::
    "os_config \<Rightarrow> env \<Rightarrow> u8 list \<Rightarrow> nat \<Rightarrow> os_state \<Rightarrow> (int \<times> u8 list \<times> os_state) option" where
  "chronoid_os_random_bytes cfg E buf n w =
     (if have_bcrypt cfg then Some (chronoid_os_random_bytes_windows E buf n w)
      else chronoid_os_random_bytes_posix cfg E buf n w)"

lemmas os_random_defs = chronoid_os_random_bytes_def chronoid_os_random_bytes_windows_def
  chronoid_os_random_bytes_posix_def

section \<open>What a successful call leaves in the buffer\<close>

lemma put_prefix:
  "off + length bs \<le> length b \<Longrightarrow> take (off + length bs) (buf_put b off bs) = take off b @ bs"
  by (simp add: buf_put_def)

definition same_fill :: "nat \<Rightarrow> u8 list \<Rightarrow> int \<Rightarrow> u8 list \<Rightarrow> u8 list \<Rightarrow> bool" where
  "same_fill n buf rc b b2 \<longleftrightarrow> length b = length buf \<and> length b2 = length buf \<and> (rc = 0 \<or> rc = - 1)
     \<and> (rc = 0 \<longrightarrow> take n b = take n b2)"

definition agree :: "nat \<Rightarrow> nat \<Rightarrow> u8 list \<Rightarrow> u8 list \<Rightarrow> bool" where
  "agree n off buf buf2 \<longleftrightarrow> off \<le> n \<and> n \<le> length buf \<and> length buf2 = length buf
     \<and> take off buf2 = take off buf"

lemma agree_put:
  assumes "agree n off buf buf2" "off + length bs \<le> n"
  shows "agree n (off + length bs) (buf_put buf off bs) (buf_put buf2 off bs)"
  using assms by (simp add: agree_def put_prefix length_buf_put)

lemma same_fill_put:
  "agree n off buf buf2 \<Longrightarrow> off + length bs \<le> n \<Longrightarrow> same_fill n (buf_put buf off bs) rc b b2 \<longleftrightarrow> same_fill n buf rc b b2"
  by (simp add: agree_def same_fill_def length_buf_put)

lemma getrandom_fills:
  assumes "getrandom_loop E n off buf t = Some r"
  shows "\<forall>buf2. agree n off buf buf2 \<longrightarrow> (\<exists>b2. getrandom_loop E n off buf2 t = Some (fst r, b2, snd (snd r))
      \<and> same_fill n buf (fst r) (fst (snd r)) b2)"
proof (rule getrandom_loop.raw_induct [OF _ assms])
  fix loop E n off buf t r
  assume ih: "\<And>n off buf t b y. loop n off buf t b = Some y \<Longrightarrow>
      \<forall>buf2. agree off buf t buf2 \<longrightarrow> (\<exists>b2. getrandom_loop n off buf buf2 b = Some (fst y, b2, snd (snd y))
      \<and> same_fill off t (fst y) (fst (snd y)) b2)"
  assume body: "(if off < n
        then case env_getrandom E t of
             Answer bs \<Rightarrow>
               loop E n (off + length (take (n - off) bs))
                (buf_put buf off (take (n - off) bs)) (t + 1)
             | Interrupted \<Rightarrow> loop E n off buf (t + 1)
             | Failed \<Rightarrow> Some (- 1, buf, t + 1)
        else Some (0, buf, t)) = Some r"
  show "\<forall>buf2. agree n off buf buf2 \<longrightarrow> (\<exists>b2. getrandom_loop E n off buf2 t = Some (fst r, b2, snd (snd r))
      \<and> same_fill n buf (fst r) (fst (snd r)) b2)"
  proof (intro allI impI)
    fix buf2 assume ag: "agree n off buf buf2"
    show "\<exists>b2. getrandom_loop E n off buf2 t = Some (fst r, b2, snd (snd r))
      \<and> same_fill n buf (fst r) (fst (snd r)) b2"
    proof (cases "off < n")
      case False
      then show ?thesis
        using body ag by (subst getrandom_loop.simps) (auto simp: same_fill_def agree_def)
    next
      case True
      show ?thesis
      proof (cases "env_getrandom E t")
        case (Answer bs)
        let ?bs = "take (n - off) bs"
        have le: "off + length ?bs \<le> n" using True by simp
        have "loop E n (off + length ?bs) (buf_put buf off ?bs) (t + 1) = Some r"
          using body True Answer by simp
        from ih [OF this, rule_format, OF agree_put [OF ag le]]
        show ?thesis using True Answer same_fill_put [OF ag le]
          by (subst getrandom_loop.simps) simp
      next
        case Interrupted
        then have "loop E n off buf (t + 1) = Some r" using body True by simp
        from ih [OF this, rule_format, OF ag] show ?thesis
          using True Interrupted by (subst getrandom_loop.simps) simp
      next
        case Failed
        then show ?thesis
          using body True ag by (subst getrandom_loop.simps) (auto simp: same_fill_def agree_def)
      qed
    qed
  qed
qed

lemma read_fills:
  assumes "read_loop E n off buf t = Some r"
  shows "\<forall>buf2. agree n off buf buf2 \<longrightarrow> (\<exists>b2. read_loop E n off buf2 t = Some (fst r, b2, snd (snd r))
      \<and> same_fill n buf (fst r) (fst (snd r)) b2)"
proof (rule read_loop.raw_induct [OF _ assms])
  fix loop E n off buf t r
  assume ih: "\<And>n off buf t b y. loop n off buf t b = Some y \<Longrightarrow>
      \<forall>buf2. agree off buf t buf2 \<longrightarrow> (\<exists>b2. read_loop n off buf buf2 b = Some (fst y, b2, snd (snd y))
      \<and> same_fill off t (fst y) (fst (snd y)) b2)"
  assume body: "(if off < n
        then case env_read E t of
             Answer bs \<Rightarrow>
               if take (n - off) bs = [] then Some (- 1, buf, t + 1)
               else loop E n (off + length (take (n - off) bs))
                (buf_put buf off (take (n - off) bs)) (t + 1)
             | Interrupted \<Rightarrow> loop E n off buf (t + 1)
             | Failed \<Rightarrow> Some (- 1, buf, t + 1)
        else Some (0, buf, t)) = Some r"
  show "\<forall>buf2. agree n off buf buf2 \<longrightarrow> (\<exists>b2. read_loop E n off buf2 t = Some (fst r, b2, snd (snd r))
      \<and> same_fill n buf (fst r) (fst (snd r)) b2)"
  proof (intro allI impI)
    fix buf2 assume ag: "agree n off buf buf2"
    show "\<exists>b2. read_loop E n off buf2 t = Some (fst r, b2, snd (snd r))
      \<and> same_fill n buf (fst r) (fst (snd r)) b2"
    proof (cases "off < n \<and> (\<exists>bs. env_read E t = Answer bs \<and> take (n - off) bs \<noteq> [])")
      case True
      then obtain bs where bs: "off < n" "env_read E t = Answer bs" "take (n - off) bs \<noteq> []" by blast
      let ?bs = "take (n - off) bs"
      have le: "off + length ?bs \<le> n" using bs(1) by simp
      have "loop E n (off + length ?bs) (buf_put buf off ?bs) (t + 1) = Some r"
        using body bs by (simp split: if_splits)
      from ih [OF this, rule_format, OF agree_put [OF ag le]]
      show ?thesis using bs same_fill_put [OF ag le]
        by (subst read_loop.simps) simp
    next
      case False
      show ?thesis
      proof (cases "off < n \<and> env_read E t = Interrupted")
        case True
        then have "loop E n off buf (t + 1) = Some r" using body by simp
        from ih [OF this, rule_format, OF ag] show ?thesis
          using True by (subst read_loop.simps) simp
      next
        case F2: False
        show ?thesis
          using body False F2 ag
          by (subst read_loop.simps) (auto simp: same_fill_def agree_def split: sys.splits if_splits)
      qed
    qed
  qed
qed

lemma getentropy_fills:
  assumes "getentropy_loop E n off buf t = r" "agree n off buf buf2"
  shows "\<exists>b2. getentropy_loop E n off buf2 t = (fst r, b2, snd (snd r))
      \<and> same_fill n buf (fst r) (fst (snd r)) b2"
  using assms
proof (induction E n off buf t arbitrary: buf2 rule: getentropy_loop.induct)
  case (1 E n off buf t)
  let ?k = "if n - off > 256 then 256 else n - off"
  show ?case
  proof (cases "off < n \<and> env_getentropy E t \<noteq> None")
    case True
    then obtain f where f: "off < n" "env_getentropy E t = Some f" by auto
    let ?bs = "map f [0..<?k]"
    have le: "off + length ?bs \<le> n" using f(1) by auto
    have "getentropy_loop E n (off + ?k) (buf_put buf off ?bs) (t + 1) = r"
      using 1(2) f by (subst (asm) getentropy_loop.simps) (simp add: Let_def)
    from 1(1) [OF f(1) refl f(2) this agree_put [OF 1(3) le, simplified length_map length_upt diff_zero]]
    show ?thesis using f same_fill_put [OF 1(3) le]
      by (subst getentropy_loop.simps) (simp add: Let_def)
  next
    case False
    then show ?thesis
      using 1(2,3) by (subst getentropy_loop.simps, subst (asm) (2) getentropy_loop.simps)
        (auto simp: same_fill_def agree_def Let_def)
  qed
qed

lemma bcrypt_fills:
  assumes "bcrypt_loop E n off buf t = r" "agree (off + n) off buf buf2"
  shows "\<exists>b2. bcrypt_loop E n off buf2 t = (fst r, b2, snd (snd r))
      \<and> same_fill (off + n) buf (fst r) (fst (snd r)) b2"
  using assms
proof (induction E n off buf t arbitrary: buf2 rule: bcrypt_loop.induct)
  case (1 E n off buf t)
  let ?k = "if n > 4294967295 then 4294967295 else n"
  show ?case
  proof (cases "n > 0 \<and> env_bcrypt E t \<noteq> None")
    case True
    then obtain f where f: "n > 0" "env_bcrypt E t = Some f" by auto
    let ?bs = "map f [0..<?k]"
    have le: "off + length ?bs \<le> off + n" by auto
    have k: "off + ?k + (n - ?k) = off + n" by auto
    have "bcrypt_loop E (n - ?k) (off + ?k) (buf_put buf off ?bs) (t + 1) = r"
      using 1(2) f by (subst (asm) bcrypt_loop.simps) (simp add: Let_def)
    from 1(1) [OF f(1) refl f(2) this, unfolded k, OF agree_put [OF 1(3) le, simplified length_map length_upt diff_zero]]
    show ?thesis using f same_fill_put [OF 1(3) le]
      by (subst bcrypt_loop.simps) (simp add: Let_def)
  next
    case False
    then show ?thesis
      using 1(2,3) by (subst bcrypt_loop.simps, subst (asm) (2) bcrypt_loop.simps)
        (auto simp: same_fill_def agree_def Let_def)
  qed
qed

text \<open>Each source, on two buffers of the requested length.\<close>

definition source_ok ::
    "(u8 list \<Rightarrow> os_state \<Rightarrow> (int \<times> u8 list \<times> os_state) option) \<Rightarrow> nat \<Rightarrow> bool" where
  "source_ok src n \<longleftrightarrow> (\<forall>buf buf2 w rc b w'. length buf = n \<longrightarrow> length buf2 = n \<longrightarrow>
     src buf w = Some (rc, b, w') \<longrightarrow>
     length b = n \<and> (rc = 0 \<or> rc = - 1) \<and> fds w' = fds w
     \<and> (\<exists>b2. src buf2 w = Some (rc, b2, w') \<and> length b2 = n \<and> (rc = 0 \<longrightarrow> b2 = b)))"

lemma source_okD:
  assumes "source_ok src n" "src buf w = Some (rc, b, w')" "length buf = n" "length buf2 = n"
  shows "length b = n" "rc = 0 \<or> rc = - 1" "fds w' = fds w"
    and "\<exists>b2. src buf2 w = Some (rc, b2, w') \<and> length b2 = n \<and> (rc = 0 \<longrightarrow> b2 = b)"
  using assms unfolding source_ok_def by blast+

lemma agree_start: "length buf = n \<Longrightarrow> length buf2 = n \<Longrightarrow> agree n 0 buf buf2"
  by (simp add: agree_def)

lemma getrandom_ok: "source_ok (\<lambda>buf w. chronoid_random_via_getrandom E buf n w) n"
  unfolding source_ok_def
proof (intro allI impI)
  fix buf buf2 :: "u8 list" and w rc b w'
  assume len: "length buf = n" "length buf2 = n"
    and run: "chronoid_random_via_getrandom E buf n w = Some (rc, b, w')"
  then obtain t where g: "getrandom_loop E n 0 buf (tick w) = Some (rc, b, t)" and w': "w' = w\<lparr>tick := t\<rparr>"
    by (auto simp: chronoid_random_via_getrandom_def split: option.splits)
  obtain b2 where "getrandom_loop E n 0 buf2 (tick w) = Some (rc, b2, t)" "same_fill n buf rc b b2"
    using getrandom_fills [OF g] agree_start [OF len] by auto
  then show "length b = n \<and> (rc = 0 \<or> rc = - 1) \<and> fds w' = fds w
     \<and> (\<exists>b2. chronoid_random_via_getrandom E buf2 n w = Some (rc, b2, w') \<and> length b2 = n \<and> (rc = 0 \<longrightarrow> b2 = b))"
    using len w' by (auto simp: same_fill_def chronoid_random_via_getrandom_def)
qed

lemma getentropy_ok: "source_ok (\<lambda>buf w. Some (chronoid_random_via_getentropy E buf n w)) n"
  unfolding source_ok_def
proof (intro allI impI)
  fix buf buf2 :: "u8 list" and w rc b w'
  assume len: "length buf = n" "length buf2 = n"
    and run: "Some (chronoid_random_via_getentropy E buf n w) = Some (rc, b, w')"
  then obtain t where g: "getentropy_loop E n 0 buf (tick w) = (rc, b, t)" and w': "w' = w\<lparr>tick := t\<rparr>"
    by (auto simp: chronoid_random_via_getentropy_def split: prod.splits)
  obtain b2 where "getentropy_loop E n 0 buf2 (tick w) = (rc, b2, t)" "same_fill n buf rc b b2"
    using getentropy_fills [OF g agree_start [OF len]] by auto
  then show "length b = n \<and> (rc = 0 \<or> rc = - 1) \<and> fds w' = fds w
     \<and> (\<exists>b2. Some (chronoid_random_via_getentropy E buf2 n w) = Some (rc, b2, w') \<and> length b2 = n \<and> (rc = 0 \<longrightarrow> b2 = b))"
    using len w' by (auto simp: same_fill_def chronoid_random_via_getentropy_def)
qed

lemma bcrypt_ok: "source_ok (\<lambda>buf w. Some (chronoid_random_via_bcrypt E buf n w)) n"
  unfolding source_ok_def
proof (intro allI impI)
  fix buf buf2 :: "u8 list" and w rc b w'
  assume len: "length buf = n" "length buf2 = n"
    and run: "Some (chronoid_random_via_bcrypt E buf n w) = Some (rc, b, w')"
  then obtain t where g: "bcrypt_loop E n 0 buf (tick w) = (rc, b, t)" and w': "w' = w\<lparr>tick := t\<rparr>"
    by (auto simp: chronoid_random_via_bcrypt_def split: prod.splits)
  obtain b2 where "bcrypt_loop E n 0 buf2 (tick w) = (rc, b2, t)" "same_fill n buf rc b b2"
    using bcrypt_fills [OF g, of buf2] agree_start [OF len] by auto
  then show "length b = n \<and> (rc = 0 \<or> rc = - 1) \<and> fds w' = fds w
     \<and> (\<exists>b2. Some (chronoid_random_via_bcrypt E buf2 n w) = Some (rc, b2, w') \<and> length b2 = n \<and> (rc = 0 \<longrightarrow> b2 = b))"
    using len w' by (auto simp: same_fill_def chronoid_random_via_bcrypt_def)
qed

lemma urandom_ok: "source_ok (\<lambda>buf w. chronoid_random_via_urandom E buf n w) n"
  unfolding source_ok_def
proof (intro allI impI)
  fix buf buf2 :: "u8 list" and w rc b w'
  assume len: "length buf = n" "length buf2 = n"
    and run: "chronoid_random_via_urandom E buf n w = Some (rc, b, w')"
  show "length b = n \<and> (rc = 0 \<or> rc = - 1) \<and> fds w' = fds w
     \<and> (\<exists>b2. chronoid_random_via_urandom E buf2 n w = Some (rc, b2, w') \<and> length b2 = n \<and> (rc = 0 \<longrightarrow> b2 = b))"
  proof (cases "\<exists>fd t. open_loop E (tick w) = Some (Some fd, t)")
    case True
    then obtain fd t where o: "open_loop E (tick w) = Some (Some fd, t)" by blast
    then obtain t' where g: "read_loop E n 0 buf t = Some (rc, b, t')" and w': "w' = w\<lparr>tick := t'\<rparr>"
      using run by (auto simp: chronoid_random_via_urandom_def Let_def split: option.splits)
    obtain b2 where "read_loop E n 0 buf2 t = Some (rc, b2, t')" "same_fill n buf rc b b2"
      using read_fills [OF g] agree_start [OF len] by auto
    then show ?thesis
      using len w' o by (auto simp: same_fill_def chronoid_random_via_urandom_def Let_def)
  next
    case False
    then show ?thesis
      using run len by (auto simp: chronoid_random_via_urandom_def split: option.splits)
  qed
qed

text \<open>Trying a second source when the first one fails.\<close>

definition or_else where
  "or_else src1 src2 = (\<lambda>buf w. case src1 buf w of
       None \<Rightarrow> None
     | Some (rc, b, w') \<Rightarrow> if rc = (0 :: int) then Some (0, b, w') else src2 b w')"

lemma or_else_ok:
  assumes "source_ok src1 n" "source_ok src2 n"
  shows "source_ok (or_else src1 src2) n"
  unfolding source_ok_def
proof (intro allI impI)
  fix buf buf2 :: "u8 list" and w rc b w'
  assume len: "length buf = n" "length buf2 = n" and run: "or_else src1 src2 buf w = Some (rc, b, w')"
  then obtain rc1 b1 w1 where s1: "src1 buf w = Some (rc1, b1, w1)"
    by (auto simp: or_else_def split: option.splits)
  note o1 = source_okD [OF assms(1) s1 len]
  then obtain b1' where s1': "src1 buf2 w = Some (rc1, b1', w1)" "length b1' = n" "rc1 = 0 \<longrightarrow> b1' = b1"
    by blast
  show "length b = n \<and> (rc = 0 \<or> rc = - 1) \<and> fds w' = fds w
     \<and> (\<exists>b2. or_else src1 src2 buf2 w = Some (rc, b2, w') \<and> length b2 = n \<and> (rc = 0 \<longrightarrow> b2 = b))"
  proof (cases "rc1 = 0")
    case True
    then show ?thesis using run s1 s1' o1 by (auto simp: or_else_def)
  next
    case False
    then have "src2 b1 w1 = Some (rc, b, w')" using run s1 by (simp add: or_else_def)
    note o2 = source_okD [OF assms(2) this o1(1) s1'(2)]
    with False s1' o1 show ?thesis by (auto simp: or_else_def)
  qed
qed

lemma fail_ok: "source_ok (\<lambda>buf w. Some (- 1, buf, w)) n"
  by (auto simp: source_ok_def)

lemma os_random_chain:
  "chronoid_os_random_bytes cfg E buf n w =
     (if n = 0 then Some (0, buf, w)
      else if have_bcrypt cfg then Some (chronoid_random_via_bcrypt E buf n w)
      else or_else
        (if have_getrandom cfg then (\<lambda>buf w. chronoid_random_via_getrandom E buf n w)
         else (\<lambda>buf w. Some (- 1, buf, w)))
        (or_else
          (if have_getentropy cfg then (\<lambda>buf w. Some (chronoid_random_via_getentropy E buf n w))
           else (\<lambda>buf w. Some (- 1, buf, w)))
          (\<lambda>buf w. chronoid_random_via_urandom E buf n w)) buf w)"
  by (auto simp: os_random_defs or_else_def split: option.splits prod.splits)

lemma os_random_ok: "source_ok (\<lambda>buf w. chronoid_os_random_bytes cfg E buf n w) n"
proof -
  have "source_ok (or_else
        (if have_getrandom cfg then (\<lambda>buf w. chronoid_random_via_getrandom E buf n w)
         else (\<lambda>buf w. Some (- 1, buf, w)))
        (or_else
          (if have_getentropy cfg then (\<lambda>buf w. Some (chronoid_random_via_getentropy E buf n w))
           else (\<lambda>buf w. Some (- 1, buf, w)))
          (\<lambda>buf w. chronoid_random_via_urandom E buf n w))) n" (is "source_ok ?chain n")
    by (intro or_else_ok urandom_ok) (simp_all add: getrandom_ok getentropy_ok fail_ok)
  moreover have "source_ok (\<lambda>buf w. Some (0, buf, w)) 0"
    by (auto simp: source_ok_def)
  ultimately show ?thesis
    using bcrypt_ok [of E n]
    by (cases "n = 0"; cases "have_bcrypt cfg") (simp_all add: os_random_chain)
qed

section \<open>Leaving the loops\<close>

text \<open>
  An environment that from some system call on neither interrupts nor answers \<open>getrandom\<close> with
  nothing.
\<close>

definition calm :: "env \<Rightarrow> nat \<Rightarrow> bool" where
  "calm E T \<longleftrightarrow> (\<forall>t \<ge> T. env_getrandom E t \<noteq> Interrupted \<and> env_getrandom E t \<noteq> Answer []
     \<and> env_open E t \<noteq> Interrupted \<and> env_read E t \<noteq> Interrupted)"

lemma calmD:
  assumes "calm E T" "T \<le> t"
  shows "env_getrandom E t \<noteq> Interrupted" "env_getrandom E t \<noteq> Answer []"
    "env_open E t \<noteq> Interrupted" "env_read E t \<noteq> Interrupted"
  using assms by (auto simp: calm_def)

lemma getrandom_returns: "calm E T \<Longrightarrow> \<exists>r. getrandom_loop E n off buf t = Some r"
proof (induction "(T - t) + (n - off)" arbitrary: off buf t rule: less_induct)
  case less
  show ?case
  proof (cases "off < n")
    case False
    then show ?thesis by (subst getrandom_loop.simps) simp
  next
    case True
    show ?thesis
    proof (cases "env_getrandom E t")
      case (Answer bs)
      have "T - (t + 1) + (n - (off + length (take (n - off) bs))) < T - t + (n - off)"
        using True Answer calmD(2) [OF less.prems, of t] by (cases "T \<le> t"; cases bs) auto
      then show ?thesis
        using less.hyps less.prems True Answer by (subst getrandom_loop.simps) simp
    next
      case Interrupted
      then have "\<not> T \<le> t" using calmD(1) [OF less.prems, of t] by auto
      then have "T - (t + 1) + (n - off) < T - t + (n - off)" by simp
      then show ?thesis
        using less.hyps less.prems True Interrupted by (subst getrandom_loop.simps) simp
    next
      case Failed
      with True show ?thesis by (subst getrandom_loop.simps) simp
    qed
  qed
qed

lemma read_returns: "calm E T \<Longrightarrow> \<exists>r. read_loop E n off buf t = Some r"
proof (induction "(T - t) + (n - off)" arbitrary: off buf t rule: less_induct)
  case less
  show ?case
  proof (cases "off < n")
    case False
    then show ?thesis by (subst read_loop.simps) simp
  next
    case True
    show ?thesis
    proof (cases "env_read E t")
      case (Answer bs)
      show ?thesis
      proof (cases "take (n - off) bs = []")
        case False
        then have "T - (t + 1) + (n - (off + length (take (n - off) bs))) < T - t + (n - off)"
          using True by (cases bs) auto
        then show ?thesis
          using less.hyps less.prems True Answer False by (subst read_loop.simps) simp
      next
        case empty: True
        with True Answer show ?thesis by (subst read_loop.simps) simp
      qed
    next
      case Interrupted
      then have "\<not> T \<le> t" using calmD(4) [OF less.prems, of t] by auto
      then have "T - (t + 1) + (n - off) < T - t + (n - off)" by simp
      then show ?thesis
        using less.hyps less.prems True Interrupted by (subst read_loop.simps) simp
    next
      case Failed
      with True show ?thesis by (subst read_loop.simps) simp
    qed
  qed
qed

lemma open_returns: "calm E T \<Longrightarrow> \<exists>r. open_loop E t = Some r"
proof (induction "T - t" arbitrary: t rule: less_induct)
  case less
  show ?case
  proof (cases "env_open E t")
    case Interrupted
    then have "\<not> T \<le> t" using calmD(3) [OF less.prems, of t] by auto
    then have "T - (t + 1) < T - t" by simp
    then show ?thesis using less.hyps less.prems Interrupted by (subst open_loop.simps) simp
  qed (subst open_loop.simps, simp)+
qed

lemma or_else_returns:
  assumes "\<And>buf w. \<exists>r. src1 buf w = Some r" "\<And>buf w. \<exists>r. src2 buf w = Some r"
  shows "\<exists>r. or_else src1 src2 buf w = Some r"
proof -
  obtain rc b w' where s1: "src1 buf w = Some (rc, b, w')" using assms(1) [of buf w] by auto
  obtain r where "src2 b w' = Some r" using assms(2) by blast
  with s1 show ?thesis by (simp add: or_else_def del: split_paired_Ex)
qed

lemma os_random_returns:
  assumes "calm E T"
  shows "\<exists>r. chronoid_os_random_bytes cfg E buf n w = Some r"
proof -
  have g: "\<exists>r. chronoid_random_via_getrandom E buf n w = Some r" for buf w
    using getrandom_returns [OF assms, of n 0 buf "tick w"]
    by (auto simp: chronoid_random_via_getrandom_def)
  have u: "\<exists>r. chronoid_random_via_urandom E buf n w = Some r" for buf w
  proof -
    obtain fd t where o: "open_loop E (tick w) = Some (fd, t)"
      using open_returns [OF assms, of "tick w"] by auto
    obtain rc b t' where "read_loop E n 0 buf t = Some (rc, b, t')"
      using read_returns [OF assms, of n 0 buf t] by auto
    with o show ?thesis by (cases fd) (simp_all add: chronoid_random_via_urandom_def Let_def)
  qed
  have c: "\<exists>r. or_else
        (if have_getrandom cfg then (\<lambda>buf w. chronoid_random_via_getrandom E buf n w)
         else (\<lambda>buf w. Some (- 1, buf, w)))
        (or_else
          (if have_getentropy cfg then (\<lambda>buf w. Some (chronoid_random_via_getentropy E buf n w))
           else (\<lambda>buf w. Some (- 1, buf, w)))
          (\<lambda>buf w. chronoid_random_via_urandom E buf n w)) buf w = Some r"
    by (intro or_else_returns) (simp_all add: g u del: split_paired_Ex)
  show ?thesis
    unfolding os_random_chain using c by (simp del: split_paired_Ex)
qed

section \<open>Properties\<close>


text \<open>
  Claim C28. Success means full entropy: when the call reports success, all the requested bytes were
  written by the system, since nothing the buffer held before can influence them; the only other
  answer is \<open>-1\<close>; and no file descriptor stays open, whichever sources failed, were interrupted or
  delivered short reads on the way.
\<close>

theorem os_random_full:
  assumes "chronoid_os_random_bytes cfg E buf n w = Some (rc, b, w')"
    and "length buf = n" "length buf2 = n"
  shows "length b = n \<and> (rc = 0 \<or> rc = - 1) \<and> fds w' = fds w
    \<and> (rc = 0 \<longrightarrow> chronoid_os_random_bytes cfg E buf2 n w = Some (0, b, w'))"
  using source_okD [OF os_random_ok assms] by auto

definition sample_env :: env where
  "sample_env =
     \<lparr>env_clock = (\<lambda>t. Some (1700000000, 5000000)), env_pid = (\<lambda>t. 42),
      env_getrandom = (\<lambda>t. if t = 0 then Interrupted else Answer (replicate 7 (word_of_nat t))),
      env_getentropy = (\<lambda>t. None), env_bcrypt = (\<lambda>t. None), env_open = (\<lambda>t. Failed),
      env_read = (\<lambda>t. Failed), env_atexit = (\<lambda>t. 0), env_fls_alloc = (\<lambda>t. True),
      env_fls_set = (\<lambda>t. True)\<rparr>"

definition sample_config :: os_config where
  "sample_config = \<lparr>have_bcrypt = False, have_getrandom = True, have_getentropy = False\<rparr>"

lemma sample_run:
  "chronoid_os_random_bytes sample_config sample_env (replicate 10 0) 10 \<lparr>tick = 0, fds = []\<rparr> =
     Some (0, [1, 1, 1, 1, 1, 1, 1, 2, 2, 2], \<lparr>tick = 3, fds = []\<rparr>)"
  by (simp add: os_random_defs sample_config_def chronoid_random_via_getrandom_def
      getrandom_loop.simps sample_env_def buf_put_def replicate_numeral)

lemma os_random_full_witness:
  "chronoid_os_random_bytes sample_config sample_env (replicate 10 0xee) 10 \<lparr>tick = 0, fds = []\<rparr> =
     Some (0, [1, 1, 1, 1, 1, 1, 1, 2, 2, 2], \<lparr>tick = 3, fds = []\<rparr>)"
  using os_random_full [OF sample_run, of "replicate 10 0xee"] by simp

text \<open>
  The call returns: in every environment that from some point on stops interrupting the
  calls (and whose \<open>getrandom\<close> then delivers at least one byte), the retry loops all end.
\<close>

theorem os_random_terminates:
  assumes "calm E T"
  shows "\<exists>rc b w'. chronoid_os_random_bytes cfg E buf n w = Some (rc, b, w')"
  using os_random_returns [OF assms] by auto

lemma os_random_terminates_witness:
  "\<exists>rc b w'. chronoid_os_random_bytes sample_config
     (sample_env\<lparr>env_getrandom := \<lambda>t. if t < 5 then Interrupted else Failed\<rparr>) [1, 2, 3] 3 \<lparr>tick = 0, fds = []\<rparr> =
     Some (rc, b, w')"
  by (rule os_random_terminates [where T = 5]) (simp add: calm_def sample_env_def)

end
