(* ===== verification/Rand_Tls.thy ===== *)
theory Rand_Tls
  imports Os_Entropy
begin

text \<open>
  \<open>chronoid/rand_tls.c\<close>: the per-thread ChaCha20 generator. The thread's state is a record of the
  world; draws, reseeding, the thread-exit wipe and the clock are functions of the world and the
  environment. Each thread has its own such state, so one world is one thread's view.
\<close>

section \<open>State\<close>

abbreviation (input) "CHRONOID_RNG_RESEED_BYTES \<equiv> (1048576 :: u64)"
abbreviation (input) "CHRONOID_RNG_RESEED_SECONDS \<equiv> (3600 :: int)"

record tls_rng =
  rng_state :: "u32 list"
  rng_buf :: "u8 list"
  buf_pos :: nat
  bytes_emitted :: u64
  seed_time :: i64
  seed_pid :: i64
  seeded :: bool
  destructor_registered :: bool

text \<open>How the platform runs code at thread exit.\<close>

datatype exit_hook = Cxa_thread_atexit | Fls | No_hook

text \<open>
  The override of \<open>chronoid_set_rand\<close> is a function on its context: it returns its result code, the
  content it leaves in the buffer, and the context after the call. \<open>wipes_observed\<close> is the test
  counter, whose wrap-around as an \<open>int\<close> nothing looks at. \<open>hooks\<close> counts the successful
  thread-exit registrations, \<open>fls_index\<close> is the process-wide slot once its initialisation ran.
\<close>

type_synonym 'c rng_fun = "'c \<Rightarrow> u8 list \<Rightarrow> nat \<Rightarrow> int \<times> u8 list \<times> 'c"

record 'c world =
  os :: os_state
  rng :: tls_rng
  in_destructor :: bool
  wipes_observed :: nat
  hooks :: nat
  fls_index :: "bool option"
  time_source :: "(nat \<Rightarrow> i64) option"
  g_rng_fn :: "'c rng_fun option"
  g_rng_ctx :: 'c

record config =
  os_cfg :: os_config
  exit_cfg :: exit_hook

definition now_tick :: "'c world \<Rightarrow> nat" where
  "now_tick w = tick (os w)"

definition advance :: "'c world \<Rightarrow> 'c world" where
  "advance w = w\<lparr>os := (os w)\<lparr>tick := tick (os w) + 1\<rparr>\<rparr>"

text \<open>Zero-initialised thread-local storage, which is also what the wipe leaves.\<close>

definition rng_zero :: tls_rng where
  "rng_zero =
     \<lparr>rng_state = replicate 16 0, rng_buf = replicate 64 0, buf_pos = 0, bytes_emitted = 0,
      seed_time = 0, seed_pid = 0, seeded = False, destructor_registered = False\<rparr>"

section \<open>Thread exit\<close>

definition chronoid_random_thread_state_wipe :: "'c world \<Rightarrow> 'c world" where
  "chronoid_random_thread_state_wipe w =
     (let w = w\<lparr>in_destructor := True\<rparr>;
          w = w\<lparr>rng := rng_zero\<rparr>;
          w = w\<lparr>in_destructor := False\<rparr>
      in w\<lparr>wipes_observed := wipes_observed w + 1\<rparr>)"

text \<open>Every byte of the record is \<open>0xa5\<close>; the two flags are set afterwards.\<close>

definition chronoid_random_thread_state_set_sentinel_for_testing :: "'c world \<Rightarrow> 'c world" where
  "chronoid_random_thread_state_set_sentinel_for_testing w =
     (let registered = destructor_registered (rng w)
      in w\<lparr>rng :=
           \<lparr>rng_state = replicate 16 0xa5a5a5a5, rng_buf = replicate 64 0xa5,
            buf_pos = 0xa5a5a5a5a5a5a5a5, bytes_emitted = 0xa5a5a5a5a5a5a5a5,
            seed_time = 0xa5a5a5a5a5a5a5a5 - 2 ^ 64, seed_pid = 0xa5a5a5a5a5a5a5a5 - 2 ^ 64,
            seeded = True, destructor_registered = registered\<rparr>\<rparr>)"

text \<open>
  The bytes of the record in memory, on a little-endian machine with pointers of 64 bits; \<open>pad\<close> is the
  six bytes of padding behind the flags. The test hook copies them to a buffer of 256 bytes.
\<close>

definition tls_rng_image :: "u8 list \<Rightarrow> tls_rng \<Rightarrow> u8 list" where
  "tls_rng_image pad r =
     concat (map (\<lambda>x. rev (bytes_of_nat 4 (unat x))) (rng_state r)) @ rng_buf r
     @ rev (bytes_of_nat 8 (buf_pos r)) @ rev (bytes_of_nat 8 (unat (bytes_emitted r)))
     @ rev (bytes_of_nat 8 (nat (seed_time r mod 2 ^ 64))) @ rev (bytes_of_nat 8 (nat (seed_pid r mod 2 ^ 64)))
     @ [if seeded r then 1 else 0, if destructor_registered r then 1 else 0] @ pad"

definition chronoid_random_thread_state_peek_for_testing ::
    "u8 list \<Rightarrow> u8 list \<Rightarrow> 'c world \<Rightarrow> nat \<times> u8 list" where
  "chronoid_random_thread_state_peek_for_testing pad out w =
     (let image = tls_rng_image pad (rng w) in (length image, buf_put out 0 image))"

definition chronoid_tls_register_thread_exit ::
    "config \<Rightarrow> env \<Rightarrow> tls_rng \<Rightarrow> 'c world \<Rightarrow> tls_rng \<times> 'c world" where
  "chronoid_tls_register_thread_exit cfg E r w =
     (case exit_cfg cfg of
        Cxa_thread_atexit \<Rightarrow>
          if destructor_registered r then (r, w)
          else let r = r\<lparr>destructor_registered := True\<rparr>;
                   ok = (env_atexit E (now_tick w) = 0)
               in (r, (advance w)\<lparr>hooks := hooks w + (if ok then 1 else 0)\<rparr>)
      | Fls \<Rightarrow>
          if destructor_registered r then (r, w)
          else let w = (case fls_index w of
                          Some ok \<Rightarrow> w
                        | None \<Rightarrow> (advance w)\<lparr>fls_index := Some (env_fls_alloc E (now_tick w))\<rparr>)
               in if fls_index w = Some False then (r, w)
                  else if env_fls_set E (now_tick w)
                  then (r\<lparr>destructor_registered := True\<rparr>, (advance w)\<lparr>hooks := hooks w + 1\<rparr>)
                  else (r, advance w)
      | No_hook \<Rightarrow> (r, w))"

section \<open>Clocks\<close>

definition chronoid_now_seconds :: "env \<Rightarrow> 'c world \<Rightarrow> i64 \<times> 'c world" where
  "chronoid_now_seconds E w =
     (case env_clock E (now_tick w) of
        None \<Rightarrow> (- 1, advance w)
      | Some (tv_sec, tv_nsec) \<Rightarrow> (tv_sec, advance w))"

text \<open>\<open>tv_nsec\<close> is not negative, so that the C division is \<open>div\<close>; the rest is checked.\<close>

definition chronoid_now_ms :: "env \<Rightarrow> 'c world \<Rightarrow> (i64 \<times> 'c world) run" where
  "chronoid_now_ms E w =
     (case time_source w of
        Some fn \<Rightarrow> Done (fn (now_tick w), advance w)
      | None \<Rightarrow>
          (case env_clock E (now_tick w) of
             None \<Rightarrow> Done (- 1, advance w)
           | Some (tv_sec, tv_nsec) \<Rightarrow>
               run_bind (i64_chk (tv_sec * 1000)) (\<lambda>ms.
               run_bind (i64_chk (ms + tv_nsec div 1000000)) (\<lambda>ms.
               Done (ms, advance w)))))"

definition chronoid_set_time_source_for_testing :: "(nat \<Rightarrow> i64) option \<Rightarrow> 'c world \<Rightarrow> 'c world" where
  "chronoid_set_time_source_for_testing fn w = w\<lparr>time_source := fn\<rparr>"

definition chronoid_getpid :: "env \<Rightarrow> 'c world \<Rightarrow> i64 \<times> 'c world" where
  "chronoid_getpid E w = (env_pid E (now_tick w), advance w)"

section \<open>Seeding\<close>

definition le32_load :: "u8 list \<Rightarrow> u32" where
  "le32_load p =
     ucast (p ! 0) OR push_bit 8 (ucast (p ! 1)) OR push_bit 16 (ucast (p ! 2))
     OR push_bit 24 (ucast (p ! 3))"

definition seed_state :: "u8 list \<Rightarrow> u32 list" where
  "seed_state kn =
     [0x61707865, 0x3320646e, 0x79622d32, 0x6b206574]
     @ map (\<lambda>i. le32_load (drop (i * 4) kn)) [0..<8]
     @ [0]
     @ map (\<lambda>i. le32_load (drop (32 + i * 4) kn)) [0..<3]"

text \<open>
  The 44 bytes \<open>kn\<close> are uninitialised before the system fills them; a successful call does not
  depend on what they were (\<open>os_random_full\<close>), and both ways out wipe them.
\<close>

definition chronoid_tls_rng_seed :: "config \<Rightarrow> env \<Rightarrow> 'c world \<Rightarrow> (int \<times> 'c world) run" where
  "chronoid_tls_rng_seed cfg E w =
     (case chronoid_os_random_bytes (os_cfg cfg) E (replicate 44 0) 44 (os w) of
        None \<Rightarrow> Waits
      | Some (rc, kn, o') \<Rightarrow>
          let w = w\<lparr>os := o'\<rparr>
          in if rc < 0 then Done (- 1, w)
          else let r = (rng w)\<lparr>rng_state := seed_state kn, rng_buf := replicate 64 0, buf_pos := 64,
                              bytes_emitted := 0\<rparr>
          in case chronoid_getpid E w of (pid, w) \<Rightarrow>
             case chronoid_now_seconds E w of (now, w) \<Rightarrow>
             case chronoid_tls_register_thread_exit cfg E (r\<lparr>seed_pid := pid, seed_time := now\<rparr>) w of (r, w) \<Rightarrow>
               Done (0, w\<lparr>rng := r\<lparr>seeded := True\<rparr>\<rparr>))"

definition chronoid_tls_rng_should_reseed :: "env \<Rightarrow> 'c world \<Rightarrow> (bool \<times> 'c world) run" where
  "chronoid_tls_rng_should_reseed E w =
     (let r = rng w
      in if \<not> seeded r then Done (True, w)
      else if bytes_emitted r \<ge> CHRONOID_RNG_RESEED_BYTES then Done (True, w)
      else case chronoid_getpid E w of (pid, w) \<Rightarrow>
        if pid \<noteq> seed_pid r then Done (True, w)
        else case chronoid_now_seconds E w of (now, w) \<Rightarrow>
          if now < seed_time r then Done (True, w)
          else run_bind (i64_chk (now - seed_time r)) (\<lambda>age.
            Done (age \<ge> CHRONOID_RNG_RESEED_SECONDS, w)))"

definition chronoid_random_force_reseed :: "'c world \<Rightarrow> 'c world" where
  "chronoid_random_force_reseed w = w\<lparr>rng := (rng w)\<lparr>seeded := False\<rparr>\<rparr>"

section \<open>Drawing\<close>

definition rng_refill :: "tls_rng \<Rightarrow> tls_rng" where
  "rng_refill r =
     (if buf_pos r = 64 then
        case chronoid_chacha20_block (rng_buf r) (rng_state r) of (b, st) \<Rightarrow>
          r\<lparr>rng_buf := b, rng_state := st, buf_pos := 0\<rparr>
      else r)"

definition rng_take :: "tls_rng \<Rightarrow> nat \<Rightarrow> u8 list \<times> tls_rng" where
  "rng_take r chunk =
     (buf_get (rng_buf r) (buf_pos r) chunk,
      r\<lparr>rng_buf := chronoid_explicit_bzero (rng_buf r) (buf_pos r) chunk,
        buf_pos := buf_pos r + chunk,
        bytes_emitted := bytes_emitted r + of_nat chunk\<rparr>)"

text \<open>
  The loop hands out \<open>n\<close> bytes. A position past the end of the window would make the unsigned
  difference \<open>avail\<close> wrap and the copy leave the array.
\<close>

function rng_draw :: "tls_rng \<Rightarrow> nat \<Rightarrow> (u8 list \<times> tls_rng) run" where
  "rng_draw r n =
     (if n = 0 then Done ([], r)
      else let r = rng_refill r
      in if buf_pos r \<ge> 64 then Undef
      else let avail = 64 - buf_pos r;
               chunk = (if n < avail then n else avail)
      in case rng_take r chunk of (bs, r) \<Rightarrow>
        run_bind (rng_draw r (n - chunk)) (\<lambda>(bs', r). Done (bs @ bs', r)))"
  by pat_completeness auto
termination by (relation "measure (\<lambda>(r, n). n)") (auto simp: rng_take_def)

declare rng_draw.simps [simp del]

definition chronoid_random_bytes ::
    "config \<Rightarrow> env \<Rightarrow> u8 list \<Rightarrow> nat \<Rightarrow> 'c world \<Rightarrow> (int \<times> u8 list \<times> 'c world) run" where
  "chronoid_random_bytes cfg E buf n w =
     (if in_destructor w then Done (- 1, buf, w)
      else run_bind (chronoid_tls_rng_should_reseed E w) (\<lambda>(reseed, w).
        run_bind (if reseed then chronoid_tls_rng_seed cfg E w else Done (0, w)) (\<lambda>(rc, w).
          if rc < 0 then Done (- 1, buf, w)
          else run_bind (rng_draw (rng w) n) (\<lambda>(bs, r).
            Done (0, buf_put buf 0 bs, w\<lparr>rng := r\<rparr>)))))"

section \<open>The window and the stream behind it\<close>

text \<open>
  The invariant of the thread's state: the arrays have their sizes, the position is inside the
  window, and everything in front of it, the keystream already handed out, is zero.
\<close>

definition rng_inv :: "tls_rng \<Rightarrow> bool" where
  "rng_inv r \<longleftrightarrow> length (rng_state r) = 16 \<and> length (rng_buf r) = 64 \<and> buf_pos r \<le> 64
     \<and> take (buf_pos r) (rng_buf r) = replicate (buf_pos r) 0"

text \<open>All the bytes the state will hand out, if it is not reseeded: the rest of the window, then the
  blocks of the successive states.\<close>

definition keystream :: "u32 list \<Rightarrow> nat \<Rightarrow> u8" where
  "keystream st i = block_bytes ((next_counter ^^ (i div 64)) st) ! (i mod 64)"

definition rng_stream :: "tls_rng \<Rightarrow> nat \<Rightarrow> u8" where
  "rng_stream r i =
     (if buf_pos r + i < 64 then rng_buf r ! (buf_pos r + i)
      else keystream (rng_state r) (buf_pos r + i - 64))"

lemma keystream_next: "64 \<le> i \<Longrightarrow> keystream (next_counter st) (i - 64) = keystream st i"
proof -
  assume "64 \<le> i"
  then obtain j where i: "i = j + 64" by (metis add.commute le_Suc_ex)
  have "(j + 64) div 64 = Suc (j div 64)" by simp
  then show ?thesis unfolding i keystream_def by (simp only: funpow_Suc_right comp_apply) simp
qed

lemma refill_inv: "rng_inv r \<Longrightarrow> rng_inv (rng_refill r) \<and> buf_pos (rng_refill r) < 64"
  by (auto simp: rng_refill_def rng_inv_def block_eq)

lemma refill_stream: "rng_inv r \<Longrightarrow> rng_stream (rng_refill r) = rng_stream r"
proof
  fix i assume inv: "rng_inv r"
  show "rng_stream (rng_refill r) i = rng_stream r i"
  proof (cases "buf_pos r = 64")
    case True
    then have "rng_refill r = r\<lparr>rng_buf := block_bytes (rng_state r),
        rng_state := next_counter (rng_state r), buf_pos := 0\<rparr>"
      using inv by (simp add: rng_refill_def rng_inv_def block_eq)
    moreover have "i < 64 \<Longrightarrow> keystream (rng_state r) i = block_bytes (rng_state r) ! i"
      by (simp add: keystream_def)
    ultimately show ?thesis using True keystream_next [of i] by (simp add: rng_stream_def)
  next
    case False
    then show ?thesis by (simp add: rng_refill_def)
  qed
qed

lemma refill_fields:
  "bytes_emitted (rng_refill r) = bytes_emitted r" "seed_time (rng_refill r) = seed_time r"
  "seed_pid (rng_refill r) = seed_pid r" "seeded (rng_refill r) = seeded r"
  "destructor_registered (rng_refill r) = destructor_registered r"
  by (simp_all add: rng_refill_def split: prod.splits)

lemma take_spec:
  assumes "rng_inv r" "buf_pos r + chunk \<le> 64" "rng_take r chunk = (bs, r')"
  shows "bs = map (rng_stream r) [0..<chunk]" "rng_inv r'" "rng_stream r' i = rng_stream r (chunk + i)"
proof -
  let ?p = "buf_pos r"
  have r': "r' = r\<lparr>rng_buf := buf_put (rng_buf r) ?p (replicate chunk 0), buf_pos := ?p + chunk,
      bytes_emitted := bytes_emitted r + of_nat chunk\<rparr>"
    and bs: "bs = buf_get (rng_buf r) ?p chunk"
    using assms(3) by (auto simp: rng_take_def bzero_eq)
  have len: "length (rng_buf r) = 64" using assms(1) by (simp add: rng_inv_def)
  show "bs = map (rng_stream r) [0..<chunk]"
    using len assms(2) by (auto simp: bs buf_get_def rng_stream_def intro!: nth_equalityI)
  have "take (?p + chunk) (buf_put (rng_buf r) ?p (replicate chunk 0)) = replicate (?p + chunk) 0"
    using assms(1,2) put_prefix [of ?p "replicate chunk 0" "rng_buf r"]
    by (simp add: rng_inv_def replicate_add)
  then show "rng_inv r'"
    using assms(1,2) by (simp add: r' rng_inv_def length_buf_put)
  show "rng_stream r' i = rng_stream r (chunk + i)"
    using len assms(2) by (simp add: r' rng_stream_def buf_put_def nth_append add.assoc)
qed

lemma draw_spec:
  assumes "rng_inv r"
  shows "\<exists>r'. rng_draw r n = Done (map (rng_stream r) [0..<n], r') \<and> rng_inv r'
    \<and> (\<forall>i. rng_stream r' i = rng_stream r (n + i))
    \<and> bytes_emitted r' = bytes_emitted r + of_nat n
    \<and> seed_time r' = seed_time r \<and> seed_pid r' = seed_pid r \<and> seeded r' = seeded r
    \<and> destructor_registered r' = destructor_registered r"
  using assms
proof (induction r n rule: rng_draw.induct)
  case (1 r n)
  show ?case
  proof (cases "n = 0")
    case True
    with 1(2) show ?thesis by (subst rng_draw.simps) simp
  next
    case False
    define r1 where "r1 = rng_refill r"
    have r1: "rng_inv r1" "buf_pos r1 < 64" "rng_stream r1 = rng_stream r"
      using refill_inv [OF 1(2)] refill_stream [OF 1(2)] by (simp_all add: r1_def)
    define chunk where "chunk = (if n < 64 - buf_pos r1 then n else 64 - buf_pos r1)"
    have c: "buf_pos r1 + chunk \<le> 64" "0 < chunk" "chunk \<le> n"
      using r1(2) False by (auto simp: chunk_def)
    obtain bs r2 where tk: "rng_take r1 chunk = (bs, r2)" by fastforce
    note t = take_spec [OF r1(1) c(1) tk]
    have r2: "bytes_emitted r2 = bytes_emitted r + of_nat chunk" "seed_time r2 = seed_time r"
      "seed_pid r2 = seed_pid r" "seeded r2 = seeded r"
      "destructor_registered r2 = destructor_registered r"
      using tk refill_fields [of r] by (auto simp: rng_take_def r1_def)
    have "\<not> buf_pos r1 \<ge> 64" using r1(2) by simp
    from 1(1) [OF False r1_def this refl chunk_def tk [symmetric] t(2)]
    obtain r3 where r3: "rng_draw r2 (n - chunk) = Done (map (rng_stream r2) [0..<n - chunk], r3)"
      "rng_inv r3" "\<forall>i. rng_stream r3 i = rng_stream r2 (n - chunk + i)"
      "bytes_emitted r3 = bytes_emitted r2 + of_nat (n - chunk)" "seed_time r3 = seed_time r2"
      "seed_pid r3 = seed_pid r2" "seeded r3 = seeded r2"
      "destructor_registered r3 = destructor_registered r2"
      by blast
    have "rng_draw r n = Done (bs @ map (rng_stream r2) [0..<n - chunk], r3)"
      using False r1(2) tk r3(1)
      by (subst rng_draw.simps) (simp add: Let_def chunk_def [symmetric] r1_def [symmetric] run_simps)
    moreover have "bs @ map (rng_stream r2) [0..<n - chunk] = map (rng_stream r) [0..<n]"
      using c(3) by (auto simp: t(1) r1(3) t(3) nth_append intro!: nth_equalityI)
    ultimately show ?thesis
      using r3 r2 t(3) r1(3) c(3) by (auto simp: add.assoc [symmetric] simp flip: of_nat_add)
  qed
qed

section \<open>Seeding and reseeding\<close>

text \<open>The part of the world a draw does not touch, whatever it does to the generator.\<close>

definition same_setup :: "'c world \<Rightarrow> 'c world \<Rightarrow> bool" where
  "same_setup w w' \<longleftrightarrow> in_destructor w' = in_destructor w \<and> wipes_observed w' = wipes_observed w
     \<and> time_source w' = time_source w \<and> g_rng_fn w' = g_rng_fn w \<and> g_rng_ctx w' = g_rng_ctx w"

text \<open>
  Clocks that answer with seconds between 0 and \<open>2 ^ 53\<close> (the year 285 million) and a nanosecond
  part below a second. Outside this range the code's signed arithmetic could overflow.
\<close>

definition sane_clock :: "env \<Rightarrow> bool" where
  "sane_clock E \<longleftrightarrow> (\<forall>t s n. env_clock E t = Some (s, n) \<longrightarrow> 0 \<le> s \<and> s < 2 ^ 53 \<and> 0 \<le> n \<and> n < 1000000000)"

definition now_secs :: "env \<Rightarrow> nat \<Rightarrow> int" where
  "now_secs E t = (case env_clock E t of None \<Rightarrow> - 1 | Some (s, _) \<Rightarrow> s)"

definition world_ok :: "'c world \<Rightarrow> bool" where
  "world_ok w \<longleftrightarrow> rng_inv (rng w) \<and> (seeded (rng w) \<longrightarrow> - 1 \<le> seed_time (rng w) \<and> seed_time (rng w) < 2 ^ 53)"

lemma now_secs_range: "sane_clock E \<Longrightarrow> - 1 \<le> now_secs E t \<and> now_secs E t < 2 ^ 53"
  by (fastforce simp: sane_clock_def now_secs_def split: option.splits)

lemma now_seconds_eq: "chronoid_now_seconds E w = (now_secs E (now_tick w), advance w)"
  by (auto simp: chronoid_now_seconds_def now_secs_def split: option.splits)

lemma advance_simps [simp]:
  "rng (advance w) = rng w" "in_destructor (advance w) = in_destructor w"
  "wipes_observed (advance w) = wipes_observed w" "hooks (advance w) = hooks w"
  "fls_index (advance w) = fls_index w" "time_source (advance w) = time_source w"
  "g_rng_fn (advance w) = g_rng_fn w" "g_rng_ctx (advance w) = g_rng_ctx w"
  "now_tick (advance w) = now_tick w + 1"
  by (simp_all add: advance_def now_tick_def)

text \<open>The reseed rule, on the answers the code gets: the process id first, then the clock.\<close>

definition reseed_due :: "env \<Rightarrow> 'c world \<Rightarrow> bool" where
  "reseed_due E w \<longleftrightarrow>
     \<not> seeded (rng w) \<or> 2 ^ 20 \<le> unat (bytes_emitted (rng w))
     \<or> env_pid E (now_tick w) \<noteq> seed_pid (rng w)
     \<or> now_secs E (now_tick w + 1) < seed_time (rng w)
     \<or> 3600 \<le> now_secs E (now_tick w + 1) - seed_time (rng w)"

lemma should_reseed_spec:
  assumes "sane_clock E" "world_ok w"
  shows "\<exists>w'. chronoid_tls_rng_should_reseed E w = Done (reseed_due E w, w')
    \<and> same_setup w w' \<and> rng w' = rng w"
proof -
  let ?r = "rng w"
  have b: "bytes_emitted ?r \<ge> CHRONOID_RNG_RESEED_BYTES \<longleftrightarrow> 2 ^ 20 \<le> unat (bytes_emitted ?r)"
    by (simp add: word_le_nat_alt)
  have chk: "in_i64 (now_secs E t - seed_time ?r)" if "seeded ?r" for t
    using now_secs_range [OF assms(1), of t] assms(2) that by (simp add: i64_defs world_ok_def)
  show ?thesis
    unfolding chronoid_tls_rng_should_reseed_def Let_def chronoid_getpid_def now_seconds_eq reseed_due_def b
    using chk [of "now_tick w + 1"]
    by (auto simp: same_setup_def i64_chk_def run_simps)
qed

lemma register_spec:
  assumes "chronoid_tls_register_thread_exit cfg E r w = (r', w')"
  shows "rng_state r' = rng_state r \<and> rng_buf r' = rng_buf r \<and> buf_pos r' = buf_pos r
      \<and> bytes_emitted r' = bytes_emitted r \<and> seed_time r' = seed_time r \<and> seed_pid r' = seed_pid r"
    and "same_setup w w'"
  using assms
  by (auto simp: chronoid_tls_register_thread_exit_def same_setup_def Let_def
      split: exit_hook.splits if_splits option.splits)

lemma length_seed_state [simp]: "length (seed_state kn) = 16"
  by (simp add: seed_state_def)

lemma same_setup_trans: "same_setup w w' \<Longrightarrow> same_setup w' w'' \<Longrightarrow> same_setup w w''"
  by (simp add: same_setup_def)

lemma seed_spec:
  assumes "sane_clock E" "chronoid_tls_rng_seed cfg E w = Done (rc, w')"
  shows "same_setup w w' \<and>
    (rc = - 1 \<and> rng w' = rng w \<or>
     rc = 0 \<and> (\<exists>kn o'. chronoid_os_random_bytes (os_cfg cfg) E (replicate 44 0) 44 (os w) = Some (0, kn, o')
       \<and> length kn = 44 \<and> rng_state (rng w') = seed_state kn \<and> rng_buf (rng w') = replicate 64 0
       \<and> buf_pos (rng w') = 64 \<and> bytes_emitted (rng w') = 0 \<and> seeded (rng w')
       \<and> seed_pid (rng w') = env_pid E (tick o') \<and> seed_time (rng w') = now_secs E (tick o' + 1)))"
proof -
  obtain rc1 kn o' where os: "chronoid_os_random_bytes (os_cfg cfg) E (replicate 44 0) 44 (os w) = Some (rc1, kn, o')"
    using assms(2) by (auto simp: chronoid_tls_rng_seed_def split: option.splits)
  note ok = source_okD [OF os_random_ok os, of "replicate 44 0", simplified]
  define w1 where "w1 = w\<lparr>os := o'\<rparr>"
  show ?thesis
  proof (cases "rc1 < 0")
    case True
    then have "rc = - 1" "w' = w1"
      using assms(2) os by (simp_all add: chronoid_tls_rng_seed_def w1_def Let_def)
    then show ?thesis by (simp add: w1_def same_setup_def)
  next
    case False
    then have rc1: "rc1 = 0" using ok(2) by auto
    define r1 where "r1 = (rng w)\<lparr>rng_state := seed_state kn, rng_buf := replicate 64 0, buf_pos := 64,
        bytes_emitted := 0, seed_pid := env_pid E (tick o'), seed_time := now_secs E (tick o' + 1)\<rparr>"
    obtain r2 w2 where reg: "chronoid_tls_register_thread_exit cfg E r1 (advance (advance w1)) = (r2, w2)"
      by fastforce
    have "rc = 0" "w' = w2\<lparr>rng := r2\<lparr>seeded := True\<rparr>\<rparr>"
      using assms(2) os False reg
      by (simp_all add: chronoid_tls_rng_seed_def chronoid_getpid_def now_seconds_eq Let_def
          now_tick_def flip: w1_def r1_def)
         (simp_all add: r1_def w1_def advance_def now_tick_def)
    moreover have "same_setup w w2"
      using register_spec(2) [OF reg] by (simp add: same_setup_def w1_def)
    moreover have "rng_state r2 = seed_state kn" "rng_buf r2 = replicate 64 0" "buf_pos r2 = 64"
      "bytes_emitted r2 = 0" "seed_pid r2 = env_pid E (tick o')" "seed_time r2 = now_secs E (tick o' + 1)"
      using register_spec(1) [OF reg] by (simp_all add: r1_def)
    ultimately show ?thesis
      using os rc1 ok(1) by (auto simp: same_setup_def)
  qed
qed

section \<open>Drawing random bytes\<close>

text \<open>
  Where the next bytes come from: the stream of the present state, or, when a reseed is due, the
  ChaCha20 keystream of the 44 bytes the system delivers.
\<close>

definition fresh_stream :: "config \<Rightarrow> env \<Rightarrow> os_state \<Rightarrow> (nat \<Rightarrow> u8) \<Rightarrow> bool" where
  "fresh_stream cfg E o1 s \<longleftrightarrow>
     (\<exists>kn o'. chronoid_os_random_bytes (os_cfg cfg) E (replicate 44 0) 44 o1 = Some (0, kn, o')
        \<and> length kn = 44 \<and> s = keystream (seed_state kn))"

lemma seeded_stream:
  "rng_state r = seed_state kn \<Longrightarrow> buf_pos r = 64 \<Longrightarrow> rng_stream r = keystream (seed_state kn)"
  by (auto simp: rng_stream_def)

lemma random_bytes_spec:
  assumes "sane_clock E" "world_ok w" "\<not> in_destructor w" "length buf = n"
    and run: "chronoid_random_bytes cfg E buf n w = Done (rc, b, w')"
  shows "world_ok w' \<and> same_setup w w' \<and> length b = n \<and>
    (rc = - 1 \<and> reseed_due E w \<and> b = buf \<and> rng w' = rng w \<or>
     rc = 0 \<and> seeded (rng w') \<and>
       (\<exists>s. b = map s [0..<n] \<and> rng_stream (rng w') = (\<lambda>i. s (n + i))
         \<and> (if reseed_due E w then \<exists>o1. fresh_stream cfg E o1 s else s = rng_stream (rng w))))"
proof -
  obtain w1 where sr: "chronoid_tls_rng_should_reseed E w = Done (reseed_due E w, w1)"
    "same_setup w w1" "rng w1 = rng w"
    using should_reseed_spec [OF assms(1,2)] by blast
  obtain rc2 w2 where sd:
    "(if reseed_due E w then chronoid_tls_rng_seed cfg E w1 else Done (0, w1)) = Done (rc2, w2)"
    and fin: "(if rc2 < 0 then Done (- 1, buf, w2)
       else run_bind (rng_draw (rng w2) n) (\<lambda>(bs, r). Done (0, buf_put buf 0 bs, w2\<lparr>rng := r\<rparr>)))
      = Done (rc, b, w')"
    using run assms(3) sr(1)
    by (auto simp: chronoid_random_bytes_def run_simps run_bind_eq_Done split: if_splits)
  have src: "same_setup w w2 \<and> world_ok w2 \<and> (rc2 = - 1 \<and> reseed_due E w \<and> rng w2 = rng w \<or>
      rc2 = 0 \<and> seeded (rng w2) \<and> (if reseed_due E w then \<exists>o1. fresh_stream cfg E o1 (rng_stream (rng w2)) else rng w2 = rng w))"
  proof (cases "reseed_due E w")
    case True
    then have "chronoid_tls_rng_seed cfg E w1 = Done (rc2, w2)" using sd by simp
    note s = seed_spec [OF assms(1) this]
    show ?thesis
    proof (cases "rc2 = 0")
      case ok: True
      then obtain kn o' where kn: "chronoid_os_random_bytes (os_cfg cfg) E (replicate 44 0) 44 (os w1) = Some (0, kn, o')"
        "length kn = 44" "rng_state (rng w2) = seed_state kn" "rng_buf (rng w2) = replicate 64 0"
        "buf_pos (rng w2) = 64" "seeded (rng w2)" "seed_time (rng w2) = now_secs E (tick o' + 1)"
        using s by auto
      have "fresh_stream cfg E (os w1) (rng_stream (rng w2))"
        using kn by (auto simp: fresh_stream_def seeded_stream)
      moreover have "world_ok w2"
        using kn now_secs_range [OF assms(1)] by (simp add: world_ok_def rng_inv_def)
      ultimately show ?thesis using True ok kn s sr(2) same_setup_trans by auto
    next
      case bad: False
      then show ?thesis using True s sr assms(2) same_setup_trans by (auto simp: world_ok_def)
    qed
  next
    case False
    then show ?thesis using sd sr assms(2) by (auto simp: reseed_due_def world_ok_def)
  qed
  show ?thesis
  proof (cases "rc2 = 0")
    case False
    then show ?thesis using fin src assms(4) by auto
  next
    case True
    have inv: "rng_inv (rng w2)" using src by (simp add: world_ok_def)
    obtain r3 where r3: "rng_draw (rng w2) n = Done (map (rng_stream (rng w2)) [0..<n], r3)" "rng_inv r3"
      "\<forall>i. rng_stream r3 i = rng_stream (rng w2) (n + i)" "seed_time r3 = seed_time (rng w2)"
      "seeded r3 = seeded (rng w2)"
      using draw_spec [OF inv] by blast
    have "rc = 0" "b = map (rng_stream (rng w2)) [0..<n]" "w' = w2\<lparr>rng := r3\<rparr>"
      using fin True r3(1) assms(4) by (auto simp: run_simps buf_put_all)
    moreover have "rng_stream r3 = (\<lambda>i. rng_stream (rng w2) (n + i))" using r3(3) by auto
    moreover have "world_ok (w2\<lparr>rng := r3\<rparr>)" using r3 src by (simp add: world_ok_def)
    moreover have "same_setup w (w2\<lparr>rng := r3\<rparr>)" using src by (simp add: same_setup_def)
    moreover have "if reseed_due E w then \<exists>o1. fresh_stream cfg E o1 (rng_stream (rng w2))
        else rng_stream (rng w2) = rng_stream (rng w)"
      using src True by (auto split: if_splits)
    ultimately show ?thesis using src True r3(5) by auto
  qed
qed

lemma seed_outcome:
  "chronoid_tls_rng_seed cfg E w = Waits \<or> (\<exists>rc w'. chronoid_tls_rng_seed cfg E w = Done (rc, w'))"
  "calm E T \<Longrightarrow> \<exists>rc w'. chronoid_tls_rng_seed cfg E w = Done (rc, w')"
  using os_random_returns [of E T "os_cfg cfg" "replicate 44 0" 44 "os w"]
  by (auto simp: chronoid_tls_rng_seed_def Let_def split: option.splits prod.splits)

lemma draw_returns: "world_ok w \<Longrightarrow> \<exists>bs r. rng_draw (rng w) n = Done (bs, r)"
  using draw_spec [of "rng w" n] by (auto simp: world_ok_def)

lemma random_bytes_outcome:
  assumes "sane_clock E" "world_ok w"
  shows "chronoid_random_bytes cfg E buf n w \<noteq> Undef"
    and "calm E T \<Longrightarrow> \<exists>rc b w'. chronoid_random_bytes cfg E buf n w = Done (rc, b, w')"
proof -
  have draw: "\<exists>rc b w'. (if rc2 < 0 then Done (- 1, buf, w2)
       else run_bind (rng_draw (rng w2) n) (\<lambda>(bs, r). Done (0, buf_put buf 0 bs, w2\<lparr>rng := r\<rparr>)))
      = Done (rc, b, w')" if "world_ok w2" for rc2 :: int and w2 :: "'a world"
    using draw_returns [OF that, of n] by (auto simp: run_simps)
  obtain w1 where sr: "chronoid_tls_rng_should_reseed E w = Done (reseed_due E w, w1)" "rng w1 = rng w"
    using should_reseed_spec [OF assms] by blast
  have ok1: "world_ok w1" using sr(2) assms(2) by (simp add: world_ok_def)
  have ok2: "world_ok w2" if "chronoid_tls_rng_seed cfg E w1 = Done (rc2, w2)" for rc2 w2
    using seed_spec [OF assms(1) that] ok1 now_secs_range [OF assms(1)] by (auto simp: world_ok_def rng_inv_def)
  have seeds: "\<exists>rc b w'. chronoid_random_bytes cfg E buf n w = Done (rc, b, w')"
    if src: "reseed_due E w \<longrightarrow> (\<exists>rc2 w2. chronoid_tls_rng_seed cfg E w1 = Done (rc2, w2))"
  proof (cases "in_destructor w")
    case True
    then show ?thesis by (simp add: chronoid_random_bytes_def)
  next
    case False
    obtain rc2 w2 where sd:
      "(if reseed_due E w then chronoid_tls_rng_seed cfg E w1 else Done (0, w1)) = Done (rc2, w2)"
      using src by (cases "reseed_due E w") auto
    then have "world_ok w2" using ok1 ok2 by (cases "reseed_due E w") auto
    from draw [OF this, of rc2] show ?thesis
      by (simp add: chronoid_random_bytes_def False sr sd run_simps)
  qed
  have "chronoid_random_bytes cfg E buf n w = Waits"
    if "\<not> in_destructor w" "reseed_due E w" "chronoid_tls_rng_seed cfg E w1 = Waits"
    using that by (simp add: chronoid_random_bytes_def sr run_simps)
  moreover have "in_destructor w \<Longrightarrow> chronoid_random_bytes cfg E buf n w \<noteq> Undef"
    by (simp add: chronoid_random_bytes_def)
  ultimately show "chronoid_random_bytes cfg E buf n w \<noteq> Undef"
    using seed_outcome(1) [of cfg E w1] seeds by (metis run.distinct(1,5))
  show "\<exists>rc b w'. chronoid_random_bytes cfg E buf n w = Done (rc, b, w')" if "calm E T"
    using seed_outcome(2) [OF that, of cfg w1] by (intro seeds) blast
qed

section \<open>Properties\<close>

text \<open>
  Claim C17. The generator is a stream. A draw hands out the next bytes of the keystream its state
  stands for and leaves the state that stands for the rest, so that how a number of bytes is split
  into draws makes no difference to the bytes; and everything handed out has been erased from the
  window.
\<close>

theorem rng_draw_stream:
  assumes "rng_inv r" "rng_draw r m = Done (xs, r1)" "rng_draw r1 n = Done (ys, r2)"
  shows "xs = map (rng_stream r) [0..<m] \<and> rng_inv r2
    \<and> take (buf_pos r2) (rng_buf r2) = replicate (buf_pos r2) 0
    \<and> (\<exists>r3. rng_draw r (m + n) = Done (xs @ ys, r3) \<and> rng_stream r3 = rng_stream r2)"
proof -
  obtain r1' where r1: "rng_draw r m = Done (map (rng_stream r) [0..<m], r1')" "rng_inv r1'"
    "\<forall>i. rng_stream r1' i = rng_stream r (m + i)" using draw_spec [OF assms(1)] by blast
  then have xs: "xs = map (rng_stream r) [0..<m]" "r1' = r1" using assms(2) by simp_all
  obtain r2' where r2: "rng_draw r1 n = Done (map (rng_stream r1) [0..<n], r2')" "rng_inv r2'"
    "\<forall>i. rng_stream r2' i = rng_stream r1 (n + i)" using draw_spec [of r1 n] r1(2) xs(2) by blast
  then have ys: "ys = map (rng_stream r1) [0..<n]" "r2' = r2" using assms(3) by simp_all
  obtain r3 where r3: "rng_draw r (m + n) = Done (map (rng_stream r) [0..<m + n], r3)"
    "\<forall>i. rng_stream r3 i = rng_stream r (m + n + i)" using draw_spec [OF assms(1)] by blast
  have "map (rng_stream r) [0..<m + n] = xs @ ys"
    using r1(3) xs ys by (auto simp: nth_append intro!: nth_equalityI)
  moreover have "rng_stream r3 = rng_stream r2"
    using r1(3) r2(3) r3(2) xs(2) ys(2) by (auto simp: add.assoc)
  ultimately show ?thesis using r2(2) r3(1) xs ys by (simp add: rng_inv_def)
qed

definition sample_rng :: tls_rng where
  "sample_rng = rng_zero\<lparr>rng_buf := replicate 64 7\<rparr>"

lemma rng_inv_zero [simp]: "rng_inv rng_zero"
  by (simp add: rng_inv_def rng_zero_def)

lemma rng_draw_stream_witness:
  "\<exists>r3. rng_draw sample_rng (2 + 1) = Done ([7, 7] @ [7], r3)"
proof -
  have "rng_draw sample_rng 2 = Done ([7, 7], sample_rng\<lparr>rng_buf := replicate 2 0 @ replicate 62 7,
      buf_pos := 2, bytes_emitted := 2\<rparr>)"
    and "rng_draw (sample_rng\<lparr>rng_buf := replicate 2 0 @ replicate 62 7, buf_pos := 2, bytes_emitted := 2\<rparr>) 1 =
      Done ([7], sample_rng\<lparr>rng_buf := replicate 3 0 @ replicate 61 7, buf_pos := 3, bytes_emitted := 3\<rparr>)"
    by (simp_all add: rng_draw.simps rng_refill_def sample_rng_def rng_zero_def rng_take_def bzero_eq
        buf_get_def buf_put_def run_simps replicate_numeral)
  moreover have "rng_inv sample_rng" by (simp add: rng_inv_def sample_rng_def rng_zero_def)
  ultimately show ?thesis using rng_draw_stream [of sample_rng 2 "[7, 7]"] by blast
qed

text \<open>
  Where random bytes come from. A draw that reports success has filled the whole buffer,
  from the present stream when no reseed is due, and otherwise from the ChaCha20 keystream of 44
  bytes the system has just delivered in full; the state then stands for the rest of that stream.
  The only other answer is \<open>-1\<close>, possible only when a reseed is due, and then neither the buffer
  nor the generator has changed.
\<close>

theorem random_bytes_source:
  assumes "sane_clock E" "world_ok w" "\<not> in_destructor w" "length buf = n"
    and "chronoid_random_bytes cfg E buf n w = Done (rc, b, w')"
  shows "world_ok w' \<and>
    (rc = - 1 \<and> reseed_due E w \<and> b = buf \<and> rng w' = rng w \<or>
     rc = 0 \<and> seeded (rng w') \<and>
       (\<exists>s. b = map s [0..<n] \<and> rng_stream (rng w') = (\<lambda>i. s (n + i))
         \<and> (if reseed_due E w then \<exists>o1. fresh_stream cfg E o1 s else s = rng_stream (rng w))))"
  using random_bytes_spec [OF assms] by blast

definition sample_world :: "unit world" where
  "sample_world =
     \<lparr>os = \<lparr>tick = 0, fds = []\<rparr>, rng = rng_zero, in_destructor = False, wipes_observed = 0, hooks = 0,
      fls_index = None, time_source = None, g_rng_fn = None, g_rng_ctx = ()\<rparr>"

definition sample_cfg :: config where
  "sample_cfg = \<lparr>os_cfg = sample_config, exit_cfg = Cxa_thread_atexit\<rparr>"

lemma sample_sane: "sane_clock sample_env" "calm sample_env 1" "world_ok sample_world"
  "\<not> in_destructor sample_world"
  by (simp_all add: sane_clock_def calm_def sample_env_def world_ok_def sample_world_def rng_zero_def
      rng_inv_def)

lemma random_bytes_source_witness:
  "\<exists>rc b w'. chronoid_random_bytes sample_cfg sample_env [1, 2, 3] 3 sample_world = Done (rc, b, w')
    \<and> world_ok w' \<and> (rc = - 1 \<and> b = [1, 2, 3] \<or> rc = 0 \<and> seeded (rng w'))"
proof -
  obtain rc b w' where r: "chronoid_random_bytes sample_cfg sample_env [1, 2, 3] 3 sample_world = Done (rc, b, w')"
    using random_bytes_outcome(2) [OF sample_sane(1,3,2)] by blast
  then show ?thesis
    using random_bytes_source [OF sample_sane(1,3,4) _ r] by auto
qed

text \<open>
  Reseed cadence: the generator decides to reseed exactly when it was never seeded (or
  was told to), has emitted a mebibyte, sees another process id than at the last seed, or reads a
  clock that is behind the last seed or an hour or more past it. Deciding changes nothing.
\<close>

theorem should_reseed_rule:
  assumes "sane_clock E" "world_ok w" "now = now_secs E (now_tick w + 1)"
  shows "\<exists>w'. chronoid_tls_rng_should_reseed E w =
      Done (\<not> seeded (rng w) \<or> 1048576 \<le> unat (bytes_emitted (rng w))
        \<or> env_pid E (now_tick w) \<noteq> seed_pid (rng w) \<or> now < seed_time (rng w)
        \<or> 3600 \<le> now - seed_time (rng w), w')
    \<and> same_setup w w' \<and> rng w' = rng w"
  using should_reseed_spec [OF assms(1,2)] by (simp add: reseed_due_def assms(3))

lemma should_reseed_rule_witness:
  "\<exists>w'. chronoid_tls_rng_should_reseed sample_env sample_world = Done (True, w') \<and> rng w' = rng_zero"
  using should_reseed_rule [OF sample_sane(1,3) refl] by (auto simp: sample_world_def rng_zero_def)

text \<open>
  Claim C29. Every draw returns, and never does anything undefined, when the system stops
  interrupting the entropy calls.
\<close>

theorem random_bytes_terminates:
  assumes "sane_clock E" "world_ok w" "calm E T"
  shows "\<exists>rc b w'. chronoid_random_bytes cfg E buf n w = Done (rc, b, w')"
  by (rule random_bytes_outcome(2) [OF assms])

lemma random_bytes_terminates_witness:
  "\<exists>rc b w'. chronoid_random_bytes sample_cfg sample_env [] 0 sample_world = Done (rc, b, w')"
  by (rule random_bytes_terminates [OF sample_sane(1,3,2)])

lemma image_of_zero: "tls_rng_image (replicate 6 0) rng_zero = replicate 168 0"
  by code_simp

text \<open>
  Residue. The thread-exit wipe leaves a state that is zero throughout, byte for byte in
  memory, and forces a fresh seed at the next draw; forcing a reseed has the second effect only: the key and the unread part of
  the window stay in memory until a later draw succeeds in reseeding.
\<close>

theorem wipe_and_force_reseed:
  "rng (chronoid_random_thread_state_wipe w) = rng_zero
    \<and> reseed_due E (chronoid_random_thread_state_wipe w)
    \<and> wipes_observed (chronoid_random_thread_state_wipe w) = wipes_observed w + 1
    \<and> reseed_due E (chronoid_random_force_reseed w)
    \<and> rng_state (rng (chronoid_random_force_reseed w)) = rng_state (rng w)
    \<and> rng_buf (rng (chronoid_random_force_reseed w)) = rng_buf (rng w)
    \<and> tls_rng_image (replicate 6 0) (rng (chronoid_random_thread_state_wipe w)) = replicate 168 0"
  using image_of_zero by (simp add: chronoid_random_thread_state_wipe_def chronoid_random_force_reseed_def Let_def
      reseed_due_def rng_zero_def)

text \<open>
  The test sentinel does not survive the next draw: although it keeps the seeded flag, the
  byte counter it writes is past the reseed limit, so the next draw decides to reseed at once.
\<close>

theorem sentinel_reseeds:
  "chronoid_tls_rng_should_reseed E (chronoid_random_thread_state_set_sentinel_for_testing w) =
     Done (True, chronoid_random_thread_state_set_sentinel_for_testing w)"
  by (simp add: chronoid_tls_rng_should_reseed_def Let_def
      chronoid_random_thread_state_set_sentinel_for_testing_def)

text \<open>
  A clock that fails at the seed and ever after never triggers a reseed: the failure value
  \<open>-1\<close> is then not before the recorded seed time, which is \<open>-1\<close> too.
\<close>

theorem dead_clock_no_reseed:
  assumes "\<forall>t. env_clock E t = None" "chronoid_tls_rng_seed cfg E w = Done (0, w1)"
    and "\<forall>t. env_pid E t = p" "rng w2 = (rng w1)\<lparr>bytes_emitted := k\<rparr>" "unat k < 1048576"
  shows "\<exists>w3. chronoid_tls_rng_should_reseed E w2 = Done (False, w3)"
proof -
  have sane: "sane_clock E" using assms(1) by (simp add: sane_clock_def)
  have now: "now_secs E t = - 1" for t using assms(1) by (simp add: now_secs_def)
  obtain kn o' where s: "seeded (rng w1)" "seed_pid (rng w1) = p" "seed_time (rng w1) = - 1"
      "rng_state (rng w1) = seed_state kn" "rng_buf (rng w1) = replicate 64 0" "buf_pos (rng w1) = 64"
    using seed_spec [OF sane assms(2)] assms(3) now by auto
  then have "world_ok w2" using assms(4) by (simp add: world_ok_def rng_inv_def)
  moreover have "\<not> reseed_due E w2"
    using s assms(3-5) now by (simp add: reseed_due_def)
  ultimately show ?thesis using should_reseed_spec [OF sane] by fastforce
qed

text \<open>
  On platforms with \<open>__cxa_thread_atexit_impl\<close> a failed registration goes unnoticed: the
  seed succeeds and marks the wipe as registered although no hook was installed, so that it is not
  tried again.
\<close>

theorem failed_registration_unnoticed:
  assumes "exit_cfg cfg = Cxa_thread_atexit" "\<forall>t. env_atexit E t \<noteq> 0"
    and "chronoid_tls_rng_seed cfg E w = Done (0, w')"
  shows "seeded (rng w') \<and> destructor_registered (rng w') \<and> hooks w' = hooks w"
  using assms
  by (auto simp: chronoid_tls_rng_seed_def chronoid_tls_register_thread_exit_def Let_def
      chronoid_getpid_def now_seconds_eq split: option.splits if_splits prod.splits)

text \<open>An environment whose clock is dead and whose thread-exit registration fails.\<close>

definition broken_env :: env where
  "broken_env = sample_env\<lparr>env_clock := (\<lambda>t. None), env_atexit := (\<lambda>t. - 1),
     env_getrandom := (\<lambda>t. Answer (replicate 44 3))\<rparr>"

lemma broken_seed: "\<exists>w1. chronoid_tls_rng_seed sample_cfg broken_env sample_world = Done (0, w1)"
  by (simp add: chronoid_tls_rng_seed_def os_random_defs sample_cfg_def sample_config_def
      chronoid_random_via_getrandom_def getrandom_loop.simps broken_env_def sample_env_def
      sample_world_def buf_put_def Let_def split: prod.splits)

lemma dead_clock_no_reseed_witness:
  "\<exists>w1 w3. chronoid_tls_rng_seed sample_cfg broken_env sample_world = Done (0, w1)
    \<and> chronoid_tls_rng_should_reseed broken_env (w1\<lparr>rng := (rng w1)\<lparr>bytes_emitted := 64\<rparr>\<rparr>) = Done (False, w3)"
proof -
  obtain w1 where w1: "chronoid_tls_rng_seed sample_cfg broken_env sample_world = Done (0, w1)"
    using broken_seed by blast
  then show ?thesis
    using dead_clock_no_reseed [OF _ w1, of 42 "w1\<lparr>rng := (rng w1)\<lparr>bytes_emitted := 64\<rparr>\<rparr>" 64]
    by (simp add: broken_env_def sample_env_def)
qed

lemma failed_registration_unnoticed_witness:
  "\<exists>w1. chronoid_tls_rng_seed sample_cfg broken_env sample_world = Done (0, w1)
    \<and> seeded (rng w1) \<and> destructor_registered (rng w1) \<and> hooks w1 = 0"
proof -
  obtain w1 where w1: "chronoid_tls_rng_seed sample_cfg broken_env sample_world = Done (0, w1)"
    using broken_seed by blast
  then show ?thesis
    using failed_registration_unnoticed [OF _ _ w1]
    by (simp add: broken_env_def sample_cfg_def sample_world_def)
qed

end
