(* ===== verification/Generation.thy ===== *)
theory Generation
  imports Ksuid Uuidv7 Rand_Tls
begin

text \<open>
  The generators of single identifiers and the random source they share: \<open>chronoid_set_rand\<close>,
  \<open>chronoid_internal_fill_random\<close>, \<open>chronoid_ksuid_new_with_time\<close> and \<open>chronoid_ksuid_new\<close> of
  \<open>chronoid/ksuid/ksuid.c\<close>, and \<open>chronoid_uuidv7_new_with_time\<close> and \<open>chronoid_uuidv7_new\<close> of
  \<open>chronoid/uuidv7/uuidv7.c\<close>. What the generators need of the random source is a locale.
\<close>

section \<open>The random source\<close>

definition chronoid_set_rand :: "'c rng_fun option \<Rightarrow> 'c \<Rightarrow> 'c world \<Rightarrow> 'c world" where
  "chronoid_set_rand fn ctx w = w\<lparr>g_rng_ctx := ctx, g_rng_fn := fn\<rparr>"

definition chronoid_internal_fill_random ::
    "config \<Rightarrow> env \<Rightarrow> u8 list \<Rightarrow> nat \<Rightarrow> 'c world \<Rightarrow> (int \<times> u8 list \<times> 'c world) run" where
  "chronoid_internal_fill_random cfg E buf n w =
     (case g_rng_fn w of
        Some fn \<Rightarrow> (case fn (g_rng_ctx w) buf n of (rc, b, ctx) \<Rightarrow> Done (rc, b, w\<lparr>g_rng_ctx := ctx\<rparr>))
      | None \<Rightarrow> chronoid_random_bytes cfg E buf n w)"

section \<open>The generators\<close>

text \<open>\<open>payload\<close> and \<open>rnd\<close> are the uninitialised arrays the random source writes to.\<close>

definition chronoid_ksuid_new_with_time ::
    "config \<Rightarrow> env \<Rightarrow> u8 list \<Rightarrow> ksuid \<Rightarrow> i64 \<Rightarrow> 'c world \<Rightarrow> (ksuid_err \<times> ksuid \<times> 'c world) run" where
  "chronoid_ksuid_new_with_time cfg E payload out unix_seconds w =
     run_bind (i64_chk (unix_seconds - CHRONOID_KSUID_EPOCH_SECONDS)) (\<lambda>corrected.
       if corrected < 0 \<or> corrected > 4294967295 then Done (CHRONOID_KSUID_ERR_TIME_RANGE, out, w)
       else run_bind (chronoid_internal_fill_random cfg E payload CHRONOID_KSUID_PAYLOAD_LEN w)
         (\<lambda>(rc, payload, w).
           if rc \<noteq> 0 then Done (CHRONOID_KSUID_ERR_RNG, out, w)
           else Done (CHRONOID_KSUID_OK, ksuid_store_parts out (word_of_int corrected) payload, w)))"

definition chronoid_ksuid_new ::
    "config \<Rightarrow> env \<Rightarrow> u8 list \<Rightarrow> ksuid \<Rightarrow> 'c world \<Rightarrow> (ksuid_err \<times> ksuid \<times> 'c world) run" where
  "chronoid_ksuid_new cfg E payload out w =
     (case env_clock E (now_tick w) of
        None \<Rightarrow> Done (CHRONOID_KSUID_ERR_TIME_RANGE, out, advance w)
      | Some (tv_sec, tv_nsec) \<Rightarrow> chronoid_ksuid_new_with_time cfg E payload out tv_sec (advance w))"

definition chronoid_uuidv7_new_with_time ::
    "config \<Rightarrow> env \<Rightarrow> u8 list \<Rightarrow> uuidv7 \<Rightarrow> i64 \<Rightarrow> 'c world \<Rightarrow> (uuidv7_err \<times> uuidv7 \<times> 'c world) run" where
  "chronoid_uuidv7_new_with_time cfg E rnd out unix_ms w =
     (if unix_ms < 0 \<or> unix_ms > UUIDV7_MAX_UNIX_MS then Done (CHRONOID_UUIDV7_ERR_TIME_RANGE, out, w)
      else run_bind (chronoid_internal_fill_random cfg E rnd 10 w) (\<lambda>(rc, rnd, w).
        if rc \<noteq> 0 then Done (CHRONOID_UUIDV7_ERR_RNG, out, w)
        else let rand_a_12bit = push_bit 8 (ucast (rnd ! 0)) OR ucast (rnd ! 1)
             in case chronoid_uuidv7_from_parts out unix_ms rand_a_12bit (drop 2 rnd) of (e, out) \<Rightarrow>
                  Done (e, out, w)))"

definition chronoid_uuidv7_new ::
    "config \<Rightarrow> env \<Rightarrow> u8 list \<Rightarrow> uuidv7 \<Rightarrow> 'c world \<Rightarrow> (uuidv7_err \<times> uuidv7 \<times> 'c world) run" where
  "chronoid_uuidv7_new cfg E rnd out w =
     run_bind (chronoid_now_ms E w) (\<lambda>(now, w).
       if now < 0 \<or> now > UUIDV7_MAX_UNIX_MS then Done (CHRONOID_UUIDV7_ERR_TIME_RANGE, out, w)
       else chronoid_uuidv7_new_with_time cfg E rnd out now w)"

section \<open>The contract of the random source\<close>

text \<open>
  \<open>ok\<close> is a property of the world the source needs and keeps. A fill keeps the length of the
  buffer, does nothing undefined, and leaves alone what it has no business with (\<open>frame\<close>).
\<close>

locale random_source =
  fixes fill :: "u8 list \<Rightarrow> nat \<Rightarrow> 'w \<Rightarrow> (int \<times> u8 list \<times> 'w) run"
    and ok :: "'w \<Rightarrow> bool"
    and frame :: "'w \<Rightarrow> 'w \<Rightarrow> bool"
  assumes fill_keeps:
      "ok w \<Longrightarrow> length buf = n \<Longrightarrow> fill buf n w = Done (rc, b, w') \<Longrightarrow> ok w' \<and> length b = n \<and> frame w w'"
    and fill_defined: "ok w \<Longrightarrow> length buf = n \<Longrightarrow> fill buf n w \<noteq> Undef"
    and frame_trans: "frame w w' \<Longrightarrow> frame w' w'' \<Longrightarrow> frame w w''"
begin

text \<open>A draw followed by something else, which is only done when the draw succeeded.\<close>

definition then_use where
  "then_use n buf fail cont w =
     run_bind (fill buf n w) (\<lambda>(rc, b, w'). if rc \<noteq> 0 then Done (fail w') else cont b w')"

lemma then_use_cases:
  assumes "ok w" "length buf = n"
  obtains "then_use n buf fail cont w = Waits" "fill buf n w = Waits"
  | rc b w' where "fill buf n w = Done (rc, b, w')" "rc \<noteq> 0"
      "then_use n buf fail cont w = Done (fail w')" "ok w'" "frame w w'"
  | b w' where "fill buf n w = Done (0, b, w')" "length b = n" "ok w'" "frame w w'"
      "then_use n buf fail cont w = cont b w'"
proof (cases "fill buf n w")
  case (Done r)
  obtain rc b w' where r: "r = (rc, b, w')" by (cases r) auto
  show ?thesis
    using that(2,3) Done fill_keeps [OF assms, of rc b w'] by (cases "rc = 0") (auto simp: r then_use_def)
next
  case Undef
  then show ?thesis using fill_defined [OF assms] by simp
next
  case Waits
  then show ?thesis using that(1) by (simp add: then_use_def)
qed

end

section \<open>The library's source meets it\<close>

definition rng_fun_ok :: "'c rng_fun \<Rightarrow> bool" where
  "rng_fun_ok fn \<longleftrightarrow> (\<forall>ctx buf. length (fst (snd (fn ctx buf (length buf)))) = length buf)"

text \<open>A usable world: a good generator state, and an override that respects the buffer's length.\<close>

definition gen_ok :: "'c world \<Rightarrow> bool" where
  "gen_ok w \<longleftrightarrow> world_ok w \<and> \<not> in_destructor w \<and> (\<forall>fn. g_rng_fn w = Some fn \<longrightarrow> rng_fun_ok fn)"

definition gen_frame :: "'c world \<Rightarrow> 'c world \<Rightarrow> bool" where
  "gen_frame w w' \<longleftrightarrow> time_source w' = time_source w \<and> g_rng_fn w' = g_rng_fn w
     \<and> (g_rng_fn w = None \<longrightarrow> g_rng_ctx w' = g_rng_ctx w)"

lemma fill_random_keeps:
  assumes "sane_clock E" "gen_ok w" "length buf = n"
    and "chronoid_internal_fill_random cfg E buf n w = Done (rc, b, w')"
  shows "gen_ok w' \<and> length b = n \<and> gen_frame w w'"
proof (cases "g_rng_fn w")
  case None
  then have run: "chronoid_random_bytes cfg E buf n w = Done (rc, b, w')"
    using assms(4) by (simp add: chronoid_internal_fill_random_def)
  show ?thesis
    using random_bytes_spec [OF assms(1) _ _ assms(3) run] assms(2) None
    by (auto simp: gen_ok_def gen_frame_def same_setup_def)
next
  case (Some fn)
  obtain rc1 b1 ctx1 where fn: "fn (g_rng_ctx w) buf n = (rc1, b1, ctx1)" by (metis prod_cases3)
  then have "w' = w\<lparr>g_rng_ctx := ctx1\<rparr>" "b = b1"
    using assms(4) Some by (simp_all add: chronoid_internal_fill_random_def)
  moreover have "length (fst (snd (fn (g_rng_ctx w) buf (length buf)))) = length buf"
    using Some assms(2) by (simp add: gen_ok_def rng_fun_ok_def)
  ultimately show ?thesis
    using assms(2,3) Some fn by (simp add: gen_ok_def gen_frame_def world_ok_def)
qed

lemma fill_random_defined:
  assumes "sane_clock E" "gen_ok w"
  shows "chronoid_internal_fill_random cfg E buf n w \<noteq> Undef"
  using random_bytes_outcome(1) [OF assms(1), of w cfg buf n] assms(2)
  by (auto simp: chronoid_internal_fill_random_def gen_ok_def split: option.splits prod.splits)

lemma fill_random_returns:
  assumes "sane_clock E" "gen_ok w" "calm E T"
  shows "\<exists>rc b w'. chronoid_internal_fill_random cfg E buf n w = Done (rc, b, w')"
  using random_bytes_outcome(2) [OF assms(1) _ assms(3), of w cfg buf n] assms(2)
  by (auto simp: chronoid_internal_fill_random_def gen_ok_def split: option.splits prod.splits)

interpretation lib_random: random_source
  "chronoid_internal_fill_random cfg E" "\<lambda>w. sane_clock E \<and> gen_ok w" gen_frame
  by unfold_locales
    (auto dest: fill_random_keeps simp: fill_random_defined, auto simp: gen_frame_def)

section \<open>What the generators return\<close>

lemma ksuid_new_unfold:
  assumes "in_i64 s"
  shows "chronoid_ksuid_new_with_time cfg E payload out s w =
     (if s < i64_min + 1400000000 then Undef
      else if s < 1400000000 \<or> 1400000000 + 4294967295 < s
      then Done (CHRONOID_KSUID_ERR_TIME_RANGE, out, w)
      else lib_random.then_use cfg E 16 payload (\<lambda>w. (CHRONOID_KSUID_ERR_RNG, out, w))
        (\<lambda>p w. Done (CHRONOID_KSUID_OK, ksuid_store_parts out (word_of_int (s - 1400000000)) p, w)) w)"
proof -
  have "in_i64 (s - 1400000000) \<longleftrightarrow> \<not> s < i64_min + 1400000000"
    using assms by (auto simp: i64_defs)
  then show ?thesis
    by (auto simp: chronoid_ksuid_new_with_time_def i64_chk_def run_simps lib_random.then_use_def
        simp del: of_int_diff)
qed

lemma store_parts_fields:
  assumes "wf_ksuid out" "length p = 16" "1400000000 \<le> s" "s \<le> 1400000000 + 4294967295"
    and "k = ksuid_store_parts out (word_of_int (s - 1400000000)) p"
  shows "wf_ksuid k" "chronoid_ksuid_time_unix k = s" "chronoid_ksuid_payload k = p"
proof -
  have b: "ksuid_b k = bytes_of_nat 4 (nat (s - 1400000000)) @ p"
    using assms by (simp add: store_parts_bytes time_range_val del: of_int_diff)
  then show "wf_ksuid k" using assms(2) by (simp add: wf_ksuid_def)
  then show "chronoid_ksuid_time_unix k = s" "chronoid_ksuid_payload k = p"
    using assms(3,4) b
    by (simp_all add: time_unix_val bytes_val_of_nat chronoid_ksuid_payload_def nat_less_iff)
qed

lemma ksuid_new_cases:
  assumes "sane_clock E" "gen_ok w" "wf_ksuid out" "length payload = CHRONOID_KSUID_PAYLOAD_LEN"
    and "in_i64 s" "R = chronoid_ksuid_new_with_time cfg E payload out s w"
    and "D = chronoid_internal_fill_random cfg E payload CHRONOID_KSUID_PAYLOAD_LEN w"
  shows "if s < i64_min + 1400000000 then R = Undef
    else if s < 1400000000 \<or> 1400000000 + 4294967295 < s
    then R = Done (CHRONOID_KSUID_ERR_TIME_RANGE, out, w)
    else R = Waits \<and> D = Waits
      \<or> (\<exists>rc p w'. D = Done (rc, p, w') \<and> rc \<noteq> 0 \<and> R = Done (CHRONOID_KSUID_ERR_RNG, out, w') \<and> gen_ok w')
      \<or> (\<exists>p w' k. D = Done (0, p, w') \<and> R = Done (CHRONOID_KSUID_OK, k, w') \<and> gen_ok w' \<and> wf_ksuid k
          \<and> chronoid_ksuid_time_unix k = s \<and> chronoid_ksuid_payload k = p)"
proof -
  have ok: "sane_clock E \<and> gen_ok w" using assms(1,2) by simp
  let ?fail = "\<lambda>w. (CHRONOID_KSUID_ERR_RNG, out, w)"
  let ?cont = "\<lambda>p w. Done (CHRONOID_KSUID_OK, ksuid_store_parts out (word_of_int (s - 1400000000)) p, w)"
  show ?thesis
  proof (cases "s < 1400000000 \<or> 1400000000 + 4294967295 < s")
    case True
    then show ?thesis using assms(5,6) by (simp add: ksuid_new_unfold)
  next
    case False
    then have "\<not> s < i64_min + 1400000000" by (simp add: i64_defs)
    then have R: "R = lib_random.then_use cfg E 16 payload ?fail ?cont w"
      using False assms(5,6) by (simp add: ksuid_new_unfold del: of_int_diff)
    have "D = Waits \<and> R = Waits
      \<or> (\<exists>rc p w'. D = Done (rc, p, w') \<and> rc \<noteq> 0 \<and> R = Done (?fail w') \<and> gen_ok w')
      \<or> (\<exists>p w'. D = Done (0, p, w') \<and> R = ?cont p w' \<and> length p = 16 \<and> gen_ok w')"
      unfolding R assms(7)
      by (rule lib_random.then_use_cases [of E w payload 16 cfg ?fail ?cont])
        (use ok assms(4) in auto)
    then show ?thesis
      using False \<open>\<not> s < i64_min + 1400000000\<close> store_parts_fields [OF assms(3) _ _ _ refl, of _ s]
      by (auto simp del: of_int_diff)
  qed
qed

lemma wf_gen_advance [simp]: "gen_ok (advance w) \<longleftrightarrow> gen_ok w"
  by (simp add: gen_ok_def world_ok_def)

lemma uuidv7_new_unfold:
  assumes "wf_uuidv7 out"
  shows "chronoid_uuidv7_new_with_time cfg E rnd out m w =
     (if m < 0 \<or> m > UUIDV7_MAX_UNIX_MS then Done (CHRONOID_UUIDV7_ERR_TIME_RANGE, out, w)
      else lib_random.then_use cfg E 10 rnd (\<lambda>w. (CHRONOID_UUIDV7_ERR_RNG, out, w))
        (\<lambda>p w. case chronoid_uuidv7_from_parts out m (push_bit 8 (ucast (p ! 0)) OR ucast (p ! 1)) (drop 2 p)
          of (e, out) \<Rightarrow> Done (e, out, w)) w)"
  unfolding chronoid_uuidv7_new_with_time_def lib_random.then_use_def Let_def by (rule refl)

lemma uuidv7_parts_of_draw:
  assumes "wf_uuidv7 out" "length p = 10" "0 \<le> m" "m \<le> UUIDV7_MAX_UNIX_MS"
  shows "\<exists>u. chronoid_uuidv7_from_parts out m (push_bit 8 (ucast (p ! 0)) OR ucast (p ! 1)) (drop 2 p)
      = (CHRONOID_UUIDV7_OK, u)
    \<and> wf_uuidv7 u \<and> chronoid_uuidv7_unix_ms u = m \<and> chronoid_uuidv7_version u = 7
    \<and> chronoid_uuidv7_variant u = 2
    \<and> unat (uuid_b u ! 6) mod 16 * 256 + unat (uuid_b u ! 7) = unat (p ! 0) mod 16 * 256 + unat (p ! 1)
    \<and> unat (uuid_b u ! 8) mod 64 = unat (p ! 2) mod 64 \<and> drop 9 (uuid_b u) = drop 3 p"
proof -
  let ?ra = "push_bit 8 (ucast (p ! 0)) OR ucast (p ! 1) :: u16"
  have ra: "unat ?ra = unat (p ! 0) * 256 + unat (p ! 1)"
    using unat_u8_less [of "p ! 0"] unat_u8_less [of "p ! 1"] by (simp add: unat_or_byte)
  define c where "c = unat (p ! 0) mod 16 * 256 + unat (p ! 1)"
  have "(unat (p ! 0) * 256 + unat (p ! 1)) mod 4096 = c"
    using unat_u8_less [of "p ! 1"] by (auto simp: c_def mod_mult2_eq [of _ 256 16, simplified])
  then have parts: "chronoid_uuidv7_from_parts out m ?ra (drop 2 p) =
      (CHRONOID_UUIDV7_OK, \<lparr>uuid_b = uuid_layout (nat m) c (drop 2 p)\<rparr>)"
    using from_parts_layout [OF assms(1), of "drop 2 p" m ?ra] assms(2-4) unfolding ra by simp
  have "nat m < 2 ^ 48" "c < 4096" using assms(3,4) unat_u8_less [of "p ! 1"] by (simp_all add: c_def)
  note f = layout_fields [OF _ this refl, of "drop 2 p"]
  show ?thesis
    unfolding parts c_def [symmetric] using f assms(2,3) by (intro exI conjI) (rule refl, simp_all add: numeral_3_eq_3)
qed

lemma uuidv7_new_cases:
  assumes "sane_clock E" "gen_ok w" "wf_uuidv7 out" "length rnd = 10"
    and "R = chronoid_uuidv7_new_with_time cfg E rnd out m w"
    and "D = chronoid_internal_fill_random cfg E rnd 10 w"
  shows "if m < 0 \<or> m > 2 ^ 48 - 1 then R = Done (CHRONOID_UUIDV7_ERR_TIME_RANGE, out, w)
    else R = Waits \<and> D = Waits
      \<or> (\<exists>rc p w'. D = Done (rc, p, w') \<and> rc \<noteq> 0 \<and> R = Done (CHRONOID_UUIDV7_ERR_RNG, out, w') \<and> gen_ok w')
      \<or> (\<exists>p w' u. D = Done (0, p, w') \<and> R = Done (CHRONOID_UUIDV7_OK, u, w') \<and> gen_ok w' \<and> wf_uuidv7 u
          \<and> chronoid_uuidv7_unix_ms u = m \<and> chronoid_uuidv7_version u = 7 \<and> chronoid_uuidv7_variant u = 2
          \<and> unat (uuid_b u ! 6) mod 16 * 256 + unat (uuid_b u ! 7) = unat (p ! 0) mod 16 * 256 + unat (p ! 1)
          \<and> unat (uuid_b u ! 8) mod 64 = unat (p ! 2) mod 64 \<and> drop 9 (uuid_b u) = drop 3 p)"
proof (cases "m < 0 \<or> m > 2 ^ 48 - 1")
  case True
  then show ?thesis using assms(3,5) by (simp add: uuidv7_new_unfold)
next
  case False
  let ?fail = "\<lambda>w. (CHRONOID_UUIDV7_ERR_RNG, out, w)"
  let ?cont = "\<lambda>p w. case chronoid_uuidv7_from_parts out m (push_bit 8 (ucast (p ! 0)) OR ucast (p ! 1)) (drop 2 p)
    of (e, out) \<Rightarrow> Done (e, out, w)"
  have R: "R = lib_random.then_use cfg E 10 rnd ?fail ?cont w"
    using False assms(3,5) by (simp add: uuidv7_new_unfold)
  have "D = Waits \<and> R = Waits
    \<or> (\<exists>rc p w'. D = Done (rc, p, w') \<and> rc \<noteq> 0 \<and> R = Done (?fail w') \<and> gen_ok w')
    \<or> (\<exists>p w'. D = Done (0, p, w') \<and> R = ?cont p w' \<and> length p = 10 \<and> gen_ok w')"
    unfolding R assms(6)
    by (rule lib_random.then_use_cases [of E w rnd 10 cfg ?fail ?cont]) (use assms(1,2,4) in auto)
  then consider "R = Waits \<and> D = Waits"
    | "\<exists>rc p w'. D = Done (rc, p, w') \<and> rc \<noteq> 0 \<and> R = Done (?fail w') \<and> gen_ok w'"
    | p w' where "D = Done (0, p, w')" "R = ?cont p w'" "length p = 10" "gen_ok w'"
    by blast
  then show ?thesis
  proof cases
    case 3
    have "0 \<le> m" "m \<le> UUIDV7_MAX_UNIX_MS" using False by simp_all
    with uuidv7_parts_of_draw [OF assms(3) 3(3)] show ?thesis
      unfolding if_not_P [OF False] using 3 by fastforce
  qed (unfold if_not_P [OF False], blast+)
qed

section \<open>The clock of the generators\<close>

definition wall_ms :: "env \<Rightarrow> 'c world \<Rightarrow> i64" where
  "wall_ms E w =
     (case time_source w of
        Some fn \<Rightarrow> fn (now_tick w)
      | None \<Rightarrow> (case env_clock E (now_tick w) of
                   None \<Rightarrow> - 1
                 | Some (s, ns) \<Rightarrow> s * 1000 + ns div 1000000))"

lemma now_ms_wall: "sane_clock E \<Longrightarrow> chronoid_now_ms E w = Done (wall_ms E w, advance w)"
proof -
  assume sane: "sane_clock E"
  have "in_i64 (s * 1000) \<and> in_i64 (s * 1000 + n div 1000000)" if "env_clock E (now_tick w) = Some (s, n)" for s n
  proof -
    have "0 \<le> s" "s < 2 ^ 53" "0 \<le> n" "n < 1000000000"
      using sane that by (auto simp: sane_clock_def)
    moreover from this have "0 \<le> n div 1000000" "n div 1000000 < 1000" by linarith+
    ultimately show ?thesis by (simp add: i64_defs)
  qed
  then show ?thesis
    by (auto simp: chronoid_now_ms_def wall_ms_def i64_chk_def run_simps split: option.splits)
qed

section \<open>Properties\<close>

text \<open>
  Claim C33. \<open>new_with_time\<close>: the range check comes first and draws nothing; then one draw of 16 bytes
  decides. When the draw succeeds the identifier carries the given second and exactly the drawn
  bytes; when it fails the caller's identifier is untouched.
\<close>

theorem ksuid_new_with_time_spec:
  assumes "sane_clock E" "gen_ok w" "wf_ksuid out" "length payload = CHRONOID_KSUID_PAYLOAD_LEN"
    and "in_i64 s" "R = chronoid_ksuid_new_with_time cfg E payload out s w"
    and "D = chronoid_internal_fill_random cfg E payload CHRONOID_KSUID_PAYLOAD_LEN w"
  shows "if s < i64_min + 1400000000 then R = Undef
    else if s < 1400000000 \<or> 1400000000 + 4294967295 < s
    then R = Done (CHRONOID_KSUID_ERR_TIME_RANGE, out, w)
    else R = Waits \<and> D = Waits
      \<or> (\<exists>rc p w'. D = Done (rc, p, w') \<and> rc \<noteq> 0 \<and> R = Done (CHRONOID_KSUID_ERR_RNG, out, w') \<and> gen_ok w')
      \<or> (\<exists>p w' k. D = Done (0, p, w') \<and> R = Done (CHRONOID_KSUID_OK, k, w') \<and> gen_ok w' \<and> wf_ksuid k
          \<and> chronoid_ksuid_time_unix k = s \<and> chronoid_ksuid_payload k = p)"
  by (rule ksuid_new_cases [OF assms])

text \<open>A world whose random source has been replaced by one that always writes \<open>0xab\<close>.\<close>

definition const_world :: "unit world" where
  "const_world = sample_world\<lparr>g_rng_fn := Some (\<lambda>ctx buf n. (0, replicate (length buf) 0xab, ctx))\<rparr>"

lemma const_world_ok: "gen_ok const_world"
  using sample_sane(3,4) by (simp add: gen_ok_def const_world_def world_ok_def rng_fun_ok_def)

lemma const_world_fill:
  "chronoid_internal_fill_random cfg E buf n const_world = Done (0, replicate (length buf) 0xab, const_world)"
  by (simp add: chronoid_internal_fill_random_def const_world_def sample_world_def)

lemma ksuid_new_with_time_spec_witness:
  "\<exists>k w'. chronoid_ksuid_new_with_time sample_cfg sample_env (replicate 16 0) CHRONOID_KSUID_NIL 1700000000
      const_world = Done (CHRONOID_KSUID_OK, k, w')
    \<and> chronoid_ksuid_time_unix k = 1700000000 \<and> chronoid_ksuid_payload k = replicate 16 0xab"
  using ksuid_new_with_time_spec [OF sample_sane(1) const_world_ok, of CHRONOID_KSUID_NIL "replicate 16 0" 1700000000, OF _ _ _ refl refl, of sample_cfg]
  by (simp add: const_world_fill i64_defs) blast

text \<open>
  \<open>chronoid_ksuid_new\<close> stamps the identifier with the second the clock shows. It never does
  anything undefined on a sane clock; a failed clock, a clock outside the KSUID range and a failed
  draw are errors that leave the output untouched.
\<close>

theorem ksuid_new_now:
  assumes "sane_clock E" "gen_ok w" "wf_ksuid out" "length payload = CHRONOID_KSUID_PAYLOAD_LEN"
    and "R = chronoid_ksuid_new cfg E payload out w"
  shows "R \<noteq> Undef \<and>
    (case env_clock E (now_tick w) of
       None \<Rightarrow> R = Done (CHRONOID_KSUID_ERR_TIME_RANGE, out, advance w)
     | Some (s, ns) \<Rightarrow>
         if s < 1400000000 \<or> 1400000000 + 4294967295 < s
         then R = Done (CHRONOID_KSUID_ERR_TIME_RANGE, out, advance w)
         else \<forall>e k w'. R = Done (e, k, w') \<longrightarrow> gen_ok w'
           \<and> (e = CHRONOID_KSUID_OK \<and> wf_ksuid k \<and> chronoid_ksuid_time_unix k = s
              \<or> e = CHRONOID_KSUID_ERR_RNG \<and> k = out))"
proof (cases "env_clock E (now_tick w)")
  case None
  then show ?thesis using assms(5) by (simp add: chronoid_ksuid_new_def)
next
  case (Some t)
  obtain s ns where t: "t = (s, ns)" by (cases t)
  have R: "R = chronoid_ksuid_new_with_time cfg E payload out s (advance w)"
    using assms(5) Some t by (simp add: chronoid_ksuid_new_def)
  have s: "0 \<le> s" "s < 2 ^ 53" using assms(1) Some t by (auto simp: sane_clock_def)
  then have "in_i64 s" "\<not> s < i64_min + 1400000000" by (simp_all add: i64_defs)
  then show ?thesis
    using ksuid_new_cases [OF assms(1) _ assms(3,4) _ R refl] assms(2) Some t
    by (auto split: if_splits)
qed

lemma ksuid_new_now_witness:
  "\<exists>k w'. chronoid_ksuid_new sample_cfg sample_env (replicate 16 0) CHRONOID_KSUID_NIL const_world
      = Done (CHRONOID_KSUID_OK, k, w') \<and> chronoid_ksuid_time_unix k = 1700000000"
proof -
  have fill: "chronoid_internal_fill_random cfg E buf n (advance const_world) =
      Done (0, replicate (length buf) 0xab, advance const_world)" for cfg E buf n
    by (simp add: chronoid_internal_fill_random_def const_world_def advance_def sample_world_def)
  have "\<exists>k w'. chronoid_ksuid_new sample_cfg sample_env (replicate 16 0) CHRONOID_KSUID_NIL const_world
      = Done (CHRONOID_KSUID_OK, k, w')"
    by (simp add: chronoid_ksuid_new_def chronoid_ksuid_new_with_time_def fill sample_env_def
        i64_chk_def i64_defs run_simps)
  then show ?thesis
    using ksuid_new_now [OF sample_sane(1) const_world_ok, of CHRONOID_KSUID_NIL "replicate 16 0", OF _ _ refl]
    by (fastforce simp: sample_env_def)
qed

text \<open>
  Claim C34. \<open>chronoid_uuidv7_new_with_time\<close>: the range check comes first and draws nothing; then one
  draw of ten bytes decides. When it succeeds the identifier carries the given millisecond, version
  7 and the RFC variant, and exactly the drawn bytes apart from the six bits those two take; when it
  fails the caller's identifier is untouched.
\<close>

theorem uuidv7_new_with_time_spec:
  assumes "sane_clock E" "gen_ok w" "wf_uuidv7 out" "length rnd = 10"
    and "R = chronoid_uuidv7_new_with_time cfg E rnd out m w"
    and "D = chronoid_internal_fill_random cfg E rnd 10 w"
  shows "if m < 0 \<or> m > 2 ^ 48 - 1 then R = Done (CHRONOID_UUIDV7_ERR_TIME_RANGE, out, w)
    else R = Waits \<and> D = Waits
      \<or> (\<exists>rc p w'. D = Done (rc, p, w') \<and> rc \<noteq> 0 \<and> R = Done (CHRONOID_UUIDV7_ERR_RNG, out, w') \<and> gen_ok w')
      \<or> (\<exists>p w' u. D = Done (0, p, w') \<and> R = Done (CHRONOID_UUIDV7_OK, u, w') \<and> gen_ok w' \<and> wf_uuidv7 u
          \<and> chronoid_uuidv7_unix_ms u = m \<and> chronoid_uuidv7_version u = 7 \<and> chronoid_uuidv7_variant u = 2
          \<and> unat (uuid_b u ! 6) mod 16 * 256 + unat (uuid_b u ! 7) = unat (p ! 0) mod 16 * 256 + unat (p ! 1)
          \<and> unat (uuid_b u ! 8) mod 64 = unat (p ! 2) mod 64 \<and> drop 9 (uuid_b u) = drop 3 p)"
  by (rule uuidv7_new_cases [OF assms])

lemma uuidv7_new_with_time_spec_witness:
  "\<exists>u w'. chronoid_uuidv7_new_with_time sample_cfg sample_env (replicate 10 0) CHRONOID_UUIDV7_NIL 1700000000123
      const_world = Done (CHRONOID_UUIDV7_OK, u, w')
    \<and> chronoid_uuidv7_unix_ms u = 1700000000123 \<and> chronoid_uuidv7_version u = 7"
  using uuidv7_new_with_time_spec [OF sample_sane(1) const_world_ok, of CHRONOID_UUIDV7_NIL "replicate 10 0", OF _ _ refl refl, of 1700000000123 sample_cfg]
  by (simp add: const_world_fill) blast

text \<open>
  \<open>chronoid_uuidv7_new\<close> stamps the identifier with the millisecond of the clock, or of the
  override when a test has installed one. It never does anything undefined on a sane clock; a failed
  clock, a time outside 48 bits and a failed draw are errors that leave the output untouched.
\<close>

theorem uuidv7_new_now:
  assumes "sane_clock E" "gen_ok w" "wf_uuidv7 out" "length rnd = 10"
    and "R = chronoid_uuidv7_new cfg E rnd out w"
  shows "R \<noteq> Undef \<and>
    (if wall_ms E w < 0 \<or> wall_ms E w > 2 ^ 48 - 1
     then R = Done (CHRONOID_UUIDV7_ERR_TIME_RANGE, out, advance w)
     else \<forall>e u w'. R = Done (e, u, w') \<longrightarrow> gen_ok w'
       \<and> (e = CHRONOID_UUIDV7_OK \<and> wf_uuidv7 u \<and> chronoid_uuidv7_unix_ms u = wall_ms E w
            \<and> chronoid_uuidv7_version u = 7 \<and> chronoid_uuidv7_variant u = 2
          \<or> e = CHRONOID_UUIDV7_ERR_RNG \<and> u = out))"
proof -
  have R: "R = (if wall_ms E w < 0 \<or> wall_ms E w > UUIDV7_MAX_UNIX_MS
      then Done (CHRONOID_UUIDV7_ERR_TIME_RANGE, out, advance w)
      else chronoid_uuidv7_new_with_time cfg E rnd out (wall_ms E w) (advance w))"
    unfolding assms(5) chronoid_uuidv7_new_def now_ms_wall [OF assms(1)] by simp
  show ?thesis
    using uuidv7_new_cases [OF assms(1) _ assms(3,4) refl refl, of "advance w" "wall_ms E w" cfg] assms(2)
    by (auto simp: R)
qed

lemma uuidv7_new_now_witness:
  "chronoid_uuidv7_new sample_cfg sample_env (replicate 10 0) CHRONOID_UUIDV7_NIL
     (chronoid_set_time_source_for_testing (Some (\<lambda>t. - 1)) const_world) =
   Done (CHRONOID_UUIDV7_ERR_TIME_RANGE, CHRONOID_UUIDV7_NIL,
     advance (chronoid_set_time_source_for_testing (Some (\<lambda>t. - 1)) const_world))"
proof -
  have "gen_ok (chronoid_set_time_source_for_testing (Some (\<lambda>t. - 1)) const_world)"
    using const_world_ok by (simp add: gen_ok_def world_ok_def chronoid_set_time_source_for_testing_def)
  from uuidv7_new_now [OF sample_sane(1) this, of CHRONOID_UUIDV7_NIL "replicate 10 0", OF _ _ refl]
  show ?thesis by (simp add: wall_ms_def chronoid_set_time_source_for_testing_def)
qed

end
