(* ===== verification/Uuidv7_Sequence.thy ===== *)
theory Uuidv7_Sequence
  imports Generation Generator
begin

text \<open>
  \<open>chronoid/uuidv7/uuidv7_sequence.c\<close>: the monotonic sequence of RFC 9562, section 6.2, method 1. A
  12-bit counter orders the identifiers of one millisecond; a new millisecond and a counter that
  runs over draw a new counter and a new tail; a clock that goes back or fails reuses the last
  millisecond.
\<close>

section \<open>State\<close>

abbreviation (input) "UUIDV7_MAX_UNIX_MS_INTERNAL \<equiv> (281474976710655 :: int)"
abbreviation (input) "UUIDV7_COUNTER_MASK \<equiv> 0x0fff"

record uuidv7_sequence =
  last_ms :: i64
  counter :: u16
  rand_b :: "u8 list"

section \<open>Operations\<close>

text \<open>
  The arrays the random source writes to are uninitialised; each draw is given its array
  (\<open>buf\<close>, \<open>two\<close>, \<open>new_rand_b\<close>, the tail of \<open>tmp\<close>).
\<close>

definition chronoid_uuidv7_sequence_draw_random ::
    "config \<Rightarrow> env \<Rightarrow> u8 list \<Rightarrow> nat \<Rightarrow> 'c world \<Rightarrow> (uuidv7_err \<times> u8 list \<times> 'c world) run" where
  "chronoid_uuidv7_sequence_draw_random cfg E buf n w =
     run_bind (chronoid_internal_fill_random cfg E buf n w) (\<lambda>(rc, buf, w).
       if rc \<noteq> 0 then Done (CHRONOID_UUIDV7_ERR_RNG, buf, w) else Done (CHRONOID_UUIDV7_OK, buf, w))"

definition chronoid_uuidv7_sequence_draw_counter ::
    "config \<Rightarrow> env \<Rightarrow> u8 list \<Rightarrow> u16 \<Rightarrow> 'c world \<Rightarrow> (uuidv7_err \<times> u16 \<times> 'c world) run" where
  "chronoid_uuidv7_sequence_draw_counter cfg E two out w =
     run_bind (chronoid_uuidv7_sequence_draw_random cfg E two 2 w) (\<lambda>(e, two, w).
       if e \<noteq> CHRONOID_UUIDV7_OK then Done (e, out, w)
       else Done (CHRONOID_UUIDV7_OK,
         ucast ((push_bit 8 (ucast (two ! 0) :: u32) OR ucast (two ! 1)) AND UUIDV7_COUNTER_MASK), w))"

text \<open>\<open>two\<close>, \<open>c0\<close> and \<open>tail\<close> are the uninitialised locals of \<open>init\<close> and of its helper.\<close>

definition chronoid_uuidv7_sequence_init ::
    "config \<Rightarrow> env \<Rightarrow> u8 list \<Rightarrow> u16 \<Rightarrow> u8 list \<Rightarrow> uuidv7_sequence \<Rightarrow> 'c world
      \<Rightarrow> (uuidv7_err \<times> uuidv7_sequence \<times> 'c world) run" where
  "chronoid_uuidv7_sequence_init cfg E two c0 tail s w =
     run_bind (chronoid_uuidv7_sequence_draw_counter cfg E two c0 w) (\<lambda>(e, c, w).
       if e \<noteq> CHRONOID_UUIDV7_OK then Done (e, s, w)
       else run_bind (chronoid_uuidv7_sequence_draw_random cfg E tail 8 w) (\<lambda>(e, tail, w).
         if e \<noteq> CHRONOID_UUIDV7_OK then Done (e, s, w)
         else Done (CHRONOID_UUIDV7_OK, \<lparr>last_ms = 0, counter = c, rand_b = tail\<rparr>, w)))"

definition chronoid_uuidv7_sequence_emit :: "uuidv7 \<Rightarrow> i64 \<Rightarrow> u16 \<Rightarrow> u8 list \<Rightarrow> uuidv7" where
  "chronoid_uuidv7_sequence_emit out unix_ms ctr rb =
     (let ms = word_of_int unix_ms :: u64;
          c = ctr AND UUIDV7_COUNTER_MASK;
          bytes = [ucast (drop_bit 40 ms), ucast (drop_bit 32 ms), ucast (drop_bit 24 ms),
                   ucast (drop_bit 16 ms), ucast (drop_bit 8 ms), ucast ms,
                   ucast (0x70 OR (drop_bit 8 c AND 0x0f)), ucast (c AND 0xff),
                   0x80 OR (rb ! 0 AND 0x3f)]
                  @ take 7 (drop 1 rb)
      in \<lparr>uuid_b = buf_put (uuid_b out) 0 bytes\<rparr>)"

text \<open>A new millisecond: both draws, into locals; the state changes only when both succeed.\<close>

definition sequence_redraw ::
    "config \<Rightarrow> env \<Rightarrow> u8 list \<Rightarrow> u16 \<Rightarrow> u8 list \<Rightarrow> i64 \<Rightarrow> uuidv7_sequence \<Rightarrow> 'c world
      \<Rightarrow> (uuidv7_err \<times> uuidv7_sequence \<times> 'c world) run" where
  "sequence_redraw cfg E two c0 new_rand_b ms s w =
     run_bind (chronoid_uuidv7_sequence_draw_random cfg E new_rand_b 8 w) (\<lambda>(e, new_rand_b, w).
       if e \<noteq> CHRONOID_UUIDV7_OK then Done (e, s, w)
       else run_bind (chronoid_uuidv7_sequence_draw_counter cfg E two c0 w) (\<lambda>(e, new_counter, w).
         if e \<noteq> CHRONOID_UUIDV7_OK then Done (e, s, w)
         else Done (CHRONOID_UUIDV7_OK,
           s\<lparr>last_ms := ms, counter := new_counter, rand_b := buf_put (rand_b s) 0 new_rand_b\<rparr>, w)))"

definition chronoid_uuidv7_sequence_next ::
    "config \<Rightarrow> env \<Rightarrow> u8 list \<Rightarrow> u16 \<Rightarrow> u8 list \<Rightarrow> uuidv7_sequence \<Rightarrow> uuidv7 \<Rightarrow> 'c world
      \<Rightarrow> (uuidv7_err \<times> uuidv7_sequence \<times> uuidv7 \<times> 'c world) run" where
  "chronoid_uuidv7_sequence_next cfg E two c0 new_rand_b s out w =
     run_bind (chronoid_now_ms E w) (\<lambda>(wall_ms, w).
       let effective_ms = wall_ms;
           effective_ms = (if effective_ms < last_ms s \<or> effective_ms > UUIDV7_MAX_UNIX_MS_INTERNAL
                           then last_ms s else effective_ms)
       in if effective_ms < 0 \<or> effective_ms > UUIDV7_MAX_UNIX_MS_INTERNAL
          then Done (CHRONOID_UUIDV7_ERR_TIME_RANGE, s, out, w)
          else run_bind
            (if effective_ms > last_ms s then sequence_redraw cfg E two c0 new_rand_b effective_ms s w
             else let bumped = ucast (counter s) + 1 :: u32
                  in if bumped > UUIDV7_COUNTER_MASK
                     then if last_ms s \<ge> UUIDV7_MAX_UNIX_MS_INTERNAL
                          then Done (CHRONOID_UUIDV7_ERR_TIME_RANGE, s, w)
                          else sequence_redraw cfg E two c0 new_rand_b (last_ms s + 1) s w
                     else Done (CHRONOID_UUIDV7_OK, s\<lparr>counter := ucast bumped\<rparr>, w))
            (\<lambda>(e, s, w).
               if e \<noteq> CHRONOID_UUIDV7_OK then Done (e, s, out, w)
               else Done (CHRONOID_UUIDV7_OK, s,
                 chronoid_uuidv7_sequence_emit out (last_ms s) (counter s) (rand_b s), w)))"

definition chronoid_uuidv7_sequence_bounds ::
    "uuidv7_sequence \<Rightarrow> uuidv7 \<Rightarrow> uuidv7 \<Rightarrow> uuidv7 \<times> uuidv7" where
  "chronoid_uuidv7_sequence_bounds s min_out max_out =
     (let lo_counter = ucast (counter s) + 1 :: u32;
          lo_counter = (if lo_counter > UUIDV7_COUNTER_MASK then UUIDV7_COUNTER_MASK else lo_counter)
      in (chronoid_uuidv7_sequence_emit min_out (last_ms s) (ucast lo_counter) (replicate 8 0),
          chronoid_uuidv7_sequence_emit max_out (last_ms s) UUIDV7_COUNTER_MASK (replicate 8 0xff)))"

section \<open>Emitting\<close>

lemma emit_layout:
  assumes "wf_uuidv7 out" "length rb = 8" "0 \<le> ms" "ms \<le> UUIDV7_MAX_UNIX_MS"
  shows "chronoid_uuidv7_sequence_emit out ms c rb =
     \<lparr>uuid_b = uuid_layout (nat ms) (unat c mod 4096) rb\<rparr>"
  unfolding chronoid_uuidv7_sequence_emit_def Let_def layout_bytes [OF assms(2)]
  using assms by (simp add: ms_val buf_put_all wf_uuidv7_def)

text \<open>Between the zero tail and the tail of ones lies every tail.\<close>

lemma zeros_le: "length xs = n \<Longrightarrow> replicate n 0 \<le> (xs :: u8 list)"
  by (induction xs arbitrary: n) (auto simp: word_gt_0 le_less)

lemma le_ones: "length xs = n \<Longrightarrow> (xs :: u8 list) \<le> replicate n 0xff"
proof (induction xs arbitrary: n)
  case Nil
  then show ?case by simp
next
  case (Cons x xs)
  have "x \<le> 0xff" using unat_u8_less [of x] by (simp add: word_le_nat_alt)
  then show ?case using Cons by (auto simp: le_less)
qed

lemma cons_byte_mono:
  "a \<le> b \<Longrightarrow> b < 256 \<Longrightarrow> xs \<le> ys \<Longrightarrow> (word_of_nat a :: u8) # xs \<le> word_of_nat b # ys"
  by (cases "a = b") (auto simp: word_less_nat_alt unat_of_nat)

lemma append_mono: "xs \<le> ys \<Longrightarrow> p @ xs \<le> p @ (ys :: u8 list)"
  by (induction p) auto

lemma layout_tail_mono:
  assumes "unat (rb ! 0) mod 64 \<le> unat (rb' ! 0) mod 64" "drop 1 rb \<le> drop 1 rb'"
    and "length rb = 8" "length rb' = 8"
  shows "uuid_layout ms c rb \<le> uuid_layout ms c rb'"
proof -
  have "unat (rb' ! 0) mod 64 < 64" by simp
  with assms show ?thesis
    unfolding uuid_layout_def append_assoc
    by (intro append_mono cons_byte_mono) simp_all
qed

lemma layout_tail_bounds:
  assumes "length rb = 8"
  shows "uuid_layout ms c (replicate 8 0) \<le> uuid_layout ms c rb"
    and "uuid_layout ms c rb \<le> uuid_layout ms c (replicate 8 0xff)"
proof -
  have "unat (rb ! 0) mod 64 \<le> 63" by (simp flip: less_Suc_eq_le)
  then show "uuid_layout ms c (replicate 8 0) \<le> uuid_layout ms c rb"
    "uuid_layout ms c rb \<le> uuid_layout ms c (replicate 8 0xff)"
    using assms zeros_le [of "drop 1 rb" 7] le_ones [of "drop 1 rb" 7]
    by (auto intro!: layout_tail_mono)
qed

section \<open>Draws\<close>

lemma draw_random_cases:
  assumes "sane_clock E" "gen_ok w" "length buf = n"
  obtains "chronoid_uuidv7_sequence_draw_random cfg E buf n w = Waits"
  | b w' where "chronoid_uuidv7_sequence_draw_random cfg E buf n w = Done (CHRONOID_UUIDV7_ERR_RNG, b, w')"
      "gen_ok w'"
  | b w' where "chronoid_uuidv7_sequence_draw_random cfg E buf n w = Done (CHRONOID_UUIDV7_OK, b, w')"
      "gen_ok w'" "length b = n"
proof (cases "chronoid_internal_fill_random cfg E buf n w")
  case (Done r)
  obtain rc b w' where r: "r = (rc, b, w')" by (cases r) auto
  have ok: "gen_ok w'" "length b = n"
    using lib_random.fill_keeps [of E w buf n cfg rc b w'] assms Done r by auto
  show ?thesis
    using that(2,3) ok Done by (cases "rc = 0") (auto simp: chronoid_uuidv7_sequence_draw_random_def r)
next
  case Undef
  then show ?thesis using lib_random.fill_defined [of E w buf n cfg] assms by simp
next
  case Waits
  then show ?thesis using that(1) by (simp add: chronoid_uuidv7_sequence_draw_random_def)
qed

lemma and_0fff_32: "unat (x AND (0x0fff :: u32)) = unat x mod 4096"
  using and_mask_val [of x 12] by (simp add: mask_eq_exp_minus_1)

lemma draw_counter_cases:
  assumes "sane_clock E" "gen_ok w" "length two = 2"
  obtains "chronoid_uuidv7_sequence_draw_counter cfg E two c0 w = Waits"
  | w' where "chronoid_uuidv7_sequence_draw_counter cfg E two c0 w = Done (CHRONOID_UUIDV7_ERR_RNG, c0, w')"
      "gen_ok w'"
  | c w' where "chronoid_uuidv7_sequence_draw_counter cfg E two c0 w = Done (CHRONOID_UUIDV7_OK, c, w')"
      "gen_ok w'" "unat c < 4096"
proof (rule draw_random_cases [OF assms, of cfg])
  fix b w'
  assume "chronoid_uuidv7_sequence_draw_random cfg E two 2 w = Done (CHRONOID_UUIDV7_OK, b, w')" "gen_ok w'"
  moreover have "unat (ucast ((push_bit 8 (ucast (b ! 0) :: u32) OR ucast (b ! 1)) AND UUIDV7_COUNTER_MASK) :: u16) < 4096"
    by (simp add: unsigned_ucast_eq and_0fff_32 take_bit_eq_mod)
  ultimately show thesis
    using that(3) by (simp add: chronoid_uuidv7_sequence_draw_counter_def)
qed (use that in \<open>simp_all add: chronoid_uuidv7_sequence_draw_counter_def\<close>)

lemma redraw_cases:
  assumes "sane_clock E" "gen_ok w" "length two = 2" "length nrb = 8" "length (rand_b s) = 8"
  obtains "sequence_redraw cfg E two c0 nrb ms s w = Waits"
  | w' where "sequence_redraw cfg E two c0 nrb ms s w = Done (CHRONOID_UUIDV7_ERR_RNG, s, w')" "gen_ok w'"
  | s' w' where "sequence_redraw cfg E two c0 nrb ms s w = Done (CHRONOID_UUIDV7_OK, s', w')"
      "gen_ok w'" "last_ms s' = ms" "unat (counter s') < 4096" "length (rand_b s') = 8"
proof (rule draw_random_cases [OF assms(1,2,4), of cfg])
  fix b w1
  assume b: "chronoid_uuidv7_sequence_draw_random cfg E nrb 8 w = Done (CHRONOID_UUIDV7_OK, b, w1)"
    "gen_ok w1" "length b = 8"
  show thesis
    by (rule draw_counter_cases [OF assms(1) b(2) assms(3), of cfg c0])
      (use that b assms(5) in \<open>simp_all add: sequence_redraw_def buf_put_all\<close>)
qed (use that in \<open>simp_all add: sequence_redraw_def\<close>)

section \<open>One step\<close>

text \<open>What \<open>init\<close> establishes and every step keeps.\<close>

definition useq_ok :: "uuidv7_sequence \<Rightarrow> bool" where
  "useq_ok s \<longleftrightarrow> 0 \<le> last_ms s \<and> last_ms s \<le> UUIDV7_MAX_UNIX_MS \<and> unat (counter s) < 4096
     \<and> length (rand_b s) = 8"

definition useq_id :: "uuidv7_sequence \<Rightarrow> uuidv7" where
  "useq_id s = \<lparr>uuid_b = uuid_layout (nat (last_ms s)) (unat (counter s)) (rand_b s)\<rparr>"

text \<open>The millisecond of the next identifier before the counter is looked at.\<close>

definition clamped_ms :: "i64 \<Rightarrow> uuidv7_sequence \<Rightarrow> i64" where
  "clamped_ms t s = (if t < last_ms s \<or> t > UUIDV7_MAX_UNIX_MS then last_ms s else t)"

text \<open>The successor relation on the states of a sequence, for a wall clock reading \<open>t\<close>.\<close>

inductive useq_succ :: "i64 \<Rightarrow> uuidv7_sequence \<Rightarrow> uuidv7_sequence \<Rightarrow> bool" where
  tick: "last_ms s < t \<Longrightarrow> t \<le> UUIDV7_MAX_UNIX_MS \<Longrightarrow> last_ms s' = t \<Longrightarrow> useq_ok s' \<Longrightarrow> useq_succ t s s'"
| count: "t \<le> last_ms s \<or> UUIDV7_MAX_UNIX_MS < t \<Longrightarrow> unat (counter s) < 4095
     \<Longrightarrow> useq_succ t s (s\<lparr>counter := counter s + 1\<rparr>)"
| rollover: "t \<le> last_ms s \<or> UUIDV7_MAX_UNIX_MS < t \<Longrightarrow> unat (counter s) = 4095
     \<Longrightarrow> last_ms s < UUIDV7_MAX_UNIX_MS \<Longrightarrow> last_ms s' = last_ms s + 1 \<Longrightarrow> useq_ok s' \<Longrightarrow> useq_succ t s s'"

inductive_cases useq_succE: "useq_succ t s s'"

lemma counter_inc: "unat (c :: u16) < 4095 \<Longrightarrow> unat (c + 1) = unat c + 1"
  by (subst unat_add_lem [THEN iffD1]) auto

lemma succ_ok: "useq_ok s \<Longrightarrow> useq_succ t s s' \<Longrightarrow> useq_ok s'"
  by (erule useq_succE) (auto simp: useq_ok_def counter_inc)

lemma succ_later:
  "useq_ok s \<Longrightarrow> useq_succ t s s' \<Longrightarrow>
     last_ms s < last_ms s' \<or> last_ms s = last_ms s' \<and> unat (counter s) < unat (counter s')"
  by (erule useq_succE) (auto simp: counter_inc)

lemma id_less:
  assumes "useq_ok s" "useq_ok s'"
    and "last_ms s < last_ms s' \<or> last_ms s = last_ms s' \<and> unat (counter s) < unat (counter s')"
  shows "useq_id s < useq_id s'"
  unfolding useq_id_def uuid_less_iff uuidv7.select_convs
  by (rule layout_less) (use assms in \<open>auto simp: useq_ok_def\<close>)


lemma bumped_val: "unat (ucast (c :: u16) + 1 :: u32) = unat c + 1"
proof -
  have "unat c < 2 ^ LENGTH(16)" by (rule unsigned_less)
  then show ?thesis
    by (subst unat_add_lem [THEN iffD1]) (simp_all add: unsigned_ucast_eq take_bit_nat_eq_self)
qed

lemma bumped_over:
  "unat c < 4096 \<Longrightarrow> (ucast (c :: u16) + 1 :: u32) > UUIDV7_COUNTER_MASK \<longleftrightarrow> unat c = 4095"
  by (auto simp: word_less_nat_alt bumped_val)

lemma bumped_back: "(ucast (ucast (c :: u16) + 1 :: u32) :: u16) = c + 1"
  by (simp only: word_unat_eq_iff unsigned_ucast_eq bumped_val) (simp add: unat_word_ariths take_bit_eq_mod)

text \<open>A step, with the clamp resolved and the draws named.\<close>

lemma next_unfold:
  assumes "sane_clock E" "useq_ok s" "t = wall_ms E w"
  shows "chronoid_uuidv7_sequence_next cfg E two c0 nrb s out w =
     run_bind
       (if last_ms s < t \<and> t \<le> UUIDV7_MAX_UNIX_MS then sequence_redraw cfg E two c0 nrb t s (advance w)
        else if unat (counter s) = 4095
        then if last_ms s = UUIDV7_MAX_UNIX_MS then Done (CHRONOID_UUIDV7_ERR_TIME_RANGE, s, advance w)
             else sequence_redraw cfg E two c0 nrb (last_ms s + 1) s (advance w)
        else Done (CHRONOID_UUIDV7_OK, s\<lparr>counter := counter s + 1\<rparr>, advance w))
       (\<lambda>(e, s, w).
          if e \<noteq> CHRONOID_UUIDV7_OK then Done (e, s, out, w)
          else Done (CHRONOID_UUIDV7_OK, s,
            chronoid_uuidv7_sequence_emit out (last_ms s) (counter s) (rand_b s), w))"
proof -
  have s: "0 \<le> last_ms s" "last_ms s \<le> UUIDV7_MAX_UNIX_MS" "unat (counter s) < 4096"
    using assms(2) by (simp_all add: useq_ok_def)
  show ?thesis
    unfolding chronoid_uuidv7_sequence_next_def now_ms_wall [OF assms(1)] run_bind.simps Let_def
      bumped_over [OF s(3)] bumped_back prod.case assms(3) [symmetric]
    using s(1,2) by (cases "last_ms s < t \<and> t \<le> UUIDV7_MAX_UNIX_MS") auto
qed

lemma next_outcome:
  assumes "sane_clock E" "gen_ok w" "useq_ok s" "length two = 2" "length nrb = 8" "wf_uuidv7 out"
    and "t = wall_ms E w" "R = chronoid_uuidv7_sequence_next cfg E two c0 nrb s out w"
  obtains (waits) "R = Waits" "last_ms s < t \<or> unat (counter s) = 4095"
  | (rng) w' where "R = Done (CHRONOID_UUIDV7_ERR_RNG, s, out, w')" "gen_ok w'"
      "last_ms s < t \<or> unat (counter s) = 4095"
  | (range) w' where "R = Done (CHRONOID_UUIDV7_ERR_TIME_RANGE, s, out, w')" "gen_ok w'"
      "last_ms s = UUIDV7_MAX_UNIX_MS" "unat (counter s) = 4095"
  | (ok) s' w' where "R = Done (CHRONOID_UUIDV7_OK, s', useq_id s', w')" "gen_ok w'" "useq_succ t s s'"
proof -
  let ?emit = "\<lambda>(e, s, w). if e \<noteq> CHRONOID_UUIDV7_OK then Done (e, s, out, w)
    else Done (CHRONOID_UUIDV7_OK, s, chronoid_uuidv7_sequence_emit out (last_ms s) (counter s) (rand_b s), w)"
  have adv: "gen_ok (advance w)" using assms(2) by simp
  have len: "length (rand_b s) = 8" using assms(3) by (simp add: useq_ok_def)
  have emit: "chronoid_uuidv7_sequence_emit out (last_ms s') (counter s') (rand_b s') = useq_id s'"
    if "useq_ok s'" for s'
    using that assms(6) by (simp add: emit_layout useq_ok_def useq_id_def)
  have redraw: thesis
    if R: "R = run_bind (sequence_redraw cfg E two c0 nrb m s (advance w)) ?emit"
      and why: "last_ms s < t \<or> unat (counter s) = 4095"
      and ms: "0 \<le> m" "m \<le> UUIDV7_MAX_UNIX_MS"
      and succ: "\<And>s'. last_ms s' = m \<Longrightarrow> useq_ok s' \<Longrightarrow> useq_succ t s s'" for m
  proof (rule redraw_cases [OF assms(1) adv assms(4,5) len, of cfg c0 m])
    fix s' w'
    assume d: "sequence_redraw cfg E two c0 nrb m s (advance w) = Done (CHRONOID_UUIDV7_OK, s', w')"
      "gen_ok w'" "last_ms s' = m" "unat (counter s') < 4096" "length (rand_b s') = 8"
    then have s': "useq_ok s'" using ms by (simp add: useq_ok_def)
    show thesis using ok [of s' w'] R d(1,2) emit [OF s'] succ [OF d(3) s'] by simp
  qed (use R why waits rng in simp_all)
  have s: "0 \<le> last_ms s" "last_ms s \<le> UUIDV7_MAX_UNIX_MS" "unat (counter s) < 4096"
    using assms(3) by (simp_all add: useq_ok_def)
  note R = assms(8) [unfolded next_unfold [OF assms(1,3,7)]]
  consider "last_ms s < t \<and> t \<le> UUIDV7_MAX_UNIX_MS"
    | "\<not> (last_ms s < t \<and> t \<le> UUIDV7_MAX_UNIX_MS)" "unat (counter s) = 4095" "last_ms s = UUIDV7_MAX_UNIX_MS"
    | "\<not> (last_ms s < t \<and> t \<le> UUIDV7_MAX_UNIX_MS)" "unat (counter s) = 4095" "last_ms s < UUIDV7_MAX_UNIX_MS"
    | "\<not> (last_ms s < t \<and> t \<le> UUIDV7_MAX_UNIX_MS)" "unat (counter s) < 4095"
    using s(2,3) by linarith
  then show thesis
  proof cases
    case 1
    then show thesis using R s(1) by (intro redraw [of t]) (auto intro: useq_succ.tick)
  next
    case 2
    then show thesis using R adv by (intro range [of "advance w"]) auto
  next
    case 3
    then show thesis using R s(1) by (intro redraw [of "last_ms s + 1"]) (auto intro: useq_succ.rollover)
  next
    case 4
    have succ: "useq_succ t s (s\<lparr>counter := counter s + 1\<rparr>)" using 4 by (auto intro: useq_succ.count)
    show thesis
      using R 4 succ adv emit [OF succ_ok [OF assms(3) succ]]
      by (intro ok [of "s\<lparr>counter := counter s + 1\<rparr>" "advance w"]) auto
  qed
qed

lemma id_fields:
  assumes "useq_ok s"
  shows "wf_uuidv7 (useq_id s) \<and> chronoid_uuidv7_unix_ms (useq_id s) = last_ms s
    \<and> chronoid_uuidv7_version (useq_id s) = 7 \<and> chronoid_uuidv7_variant (useq_id s) = 2"
proof -
  have "length (rand_b s) = 8" "nat (last_ms s) < 2 ^ 48" "unat (counter s) < 4096" "0 \<le> last_ms s"
    using assms by (auto simp: useq_ok_def)
  then show ?thesis using layout_fields(1-4) [OF _ _ _ useq_id_def] by simp
qed

section \<open>Runs\<close>

text \<open>
  One call of \<open>next\<close>, whatever the world is at the time of the call: the clock and the generator may
  have moved in any way since the last one. A call in an unusable world, or one that waits for the
  system for ever, hands nothing out.
\<close>

record 'c useq_call =
  call_cfg :: config
  call_env :: env
  call_world :: "'c world"
  call_two :: "u8 list"
  call_ctr :: u16
  call_tail :: "u8 list"
  call_out :: uuidv7

definition call_ok :: "'c useq_call \<Rightarrow> bool" where
  "call_ok c \<longleftrightarrow> sane_clock (call_env c) \<and> gen_ok (call_world c) \<and> length (call_two c) = 2
     \<and> length (call_tail c) = 8 \<and> wf_uuidv7 (call_out c)"

definition useq_step :: "'c useq_call \<Rightarrow> uuidv7_sequence \<Rightarrow> uuidv7 option \<times> uuidv7_sequence" where
  "useq_step c s =
     (if call_ok c then
        case chronoid_uuidv7_sequence_next (call_cfg c) (call_env c) (call_two c) (call_ctr c)
               (call_tail c) s (call_out c) (call_world c) of
          Done (e, s', u, w') \<Rightarrow> (if e = CHRONOID_UUIDV7_OK then Some u else None, s')
        | _ \<Rightarrow> (None, s)
      else (None, s))"

lemma step_cases:
  assumes "useq_ok s" "useq_step c s = (r, s')"
  shows "r = None \<and> s' = s \<or> r = Some (useq_id s') \<and> useq_succ (wall_ms (call_env c) (call_world c)) s s'"
proof (cases "call_ok c")
  case True
  then have c: "sane_clock (call_env c)" "gen_ok (call_world c)" "length (call_two c) = 2"
    "length (call_tail c) = 8" "wf_uuidv7 (call_out c)" by (simp_all add: call_ok_def)
  show ?thesis
    by (rule next_outcome [OF c(1,2) assms(1) c(3-5) refl refl, of "call_cfg c" "call_ctr c"])
      (use assms(2) True in \<open>auto simp: useq_step_def\<close>)
qed (use assms in \<open>simp add: useq_step_def\<close>)

text \<open>\<open>y\<close> is at most the identifier of the state, which is the last one handed out.\<close>

definition useq_below :: "uuidv7 \<Rightarrow> uuidv7_sequence \<Rightarrow> bool" where
  "useq_below y s \<longleftrightarrow> y \<le> useq_id s"

lemma succ_less: "useq_ok s \<Longrightarrow> useq_succ t s s' \<Longrightarrow> useq_id s < useq_id s'"
  using id_less succ_ok succ_later by blast

interpretation uuid_seq: monotone_generator useq_step useq_ok useq_below
proof
  fix s s' and i :: "'a useq_call" and r x y
  assume inv: "useq_ok s"
  show "useq_step i s = (r, s') \<Longrightarrow> useq_ok s'"
    using step_cases [OF inv, of i r s'] succ_ok [OF inv] inv by blast
  show "useq_step i s = (Some x, s') \<Longrightarrow> useq_below x s'"
    using step_cases [OF inv, of i "Some x" s'] by (auto simp: useq_below_def)
  show "useq_below y s \<Longrightarrow> useq_step i s = (r, s') \<Longrightarrow> useq_below y s'"
    using step_cases [OF inv, of i r s'] succ_less [OF inv] by (fastforce simp: useq_below_def)
  show "useq_below y s \<Longrightarrow> useq_step i s = (Some x, s') \<Longrightarrow> y < x"
    using step_cases [OF inv, of i "Some x" s'] succ_less [OF inv] by (fastforce simp: useq_below_def)
qed

lemma run_ids_ok:
  "useq_ok s \<Longrightarrow> u \<in> set (fst (gen_run useq_step calls s)) \<Longrightarrow> \<exists>s'. useq_ok s' \<and> u = useq_id s'"
proof (induction calls arbitrary: s)
  case Nil
  then show ?case by simp
next
  case (Cons c calls)
  obtain r s1 where st: "useq_step c s = (r, s1)" by fastforce
  have "useq_ok s1" by (rule uuid_seq.inv_step [OF Cons.prems(1) st])
  then show ?case
    using Cons.IH [of s1] Cons.prems step_cases [OF Cons.prems(1) st] st
    by (auto split: option.splits prod.splits)
qed

section \<open>Bounds\<close>

lemma bounds_layout:
  assumes "useq_ok s" "wf_uuidv7 a" "wf_uuidv7 b"
  shows "chronoid_uuidv7_sequence_bounds s a b =
     (\<lparr>uuid_b = uuid_layout (nat (last_ms s)) (min (unat (counter s) + 1) 4095) (replicate 8 0)\<rparr>,
      \<lparr>uuid_b = uuid_layout (nat (last_ms s)) 4095 (replicate 8 0xff)\<rparr>)"
proof -
  have s: "0 \<le> last_ms s" "last_ms s \<le> UUIDV7_MAX_UNIX_MS" "unat (counter s) < 4096"
    using assms(1) by (simp_all add: useq_ok_def)
  show ?thesis
  proof (cases "unat (counter s) = 4095")
    case True
    then show ?thesis
      using assms s
      by (simp add: chronoid_uuidv7_sequence_bounds_def Let_def bumped_over emit_layout)
  next
    case False
    have "unat (counter s + 1) = unat (counter s) + 1"
      by (rule counter_inc) (use s False in simp)
    then show ?thesis
      using assms s False
      by (simp add: chronoid_uuidv7_sequence_bounds_def Let_def bumped_over bumped_back emit_layout)
  qed
qed

section \<open>Properties\<close>

text \<open>
  Claim C6. One call refines the abstract step: on success the new state is a successor of the old
  one for the clock reading (a later clock is adopted, otherwise the counter moves up by one, and
  when it is exhausted the millisecond does) and the identifier is the one of the new state. Every
  failure leaves the sequence and the output alone; the random source is only needed for a new
  millisecond, and the time-range error needs the last counter value of the last millisecond of the
  48-bit range.
\<close>

theorem uuidv7_sequence_next_refines:
  assumes "sane_clock E" "gen_ok w" "useq_ok s" "length two = 2" "length nrb = 8" "wf_uuidv7 out"
    and "t = wall_ms E w" "R = chronoid_uuidv7_sequence_next cfg E two c0 nrb s out w"
  shows "R = Waits \<and> (last_ms s < t \<or> unat (counter s) = 4095)
    \<or> (\<exists>e w'. R = Done (e, s, out, w') \<and> gen_ok w'
        \<and> (e = CHRONOID_UUIDV7_ERR_RNG \<and> (last_ms s < t \<or> unat (counter s) = 4095)
           \<or> e = CHRONOID_UUIDV7_ERR_TIME_RANGE \<and> last_ms s = 2 ^ 48 - 1 \<and> unat (counter s) = 4095))
    \<or> (\<exists>s' w'. R = Done (CHRONOID_UUIDV7_OK, s', useq_id s', w') \<and> gen_ok w' \<and> useq_succ t s s')"
  by (rule next_outcome [OF assms]) auto

definition sample_useq :: uuidv7_sequence where
  "sample_useq = \<lparr>last_ms = 1700000000007, counter = 41, rand_b = replicate 8 1\<rparr>"

lemma sample_useq_ok: "useq_ok sample_useq"
  by (simp add: useq_ok_def sample_useq_def)

lemma sample_wall: "wall_ms sample_env const_world = 1700000000005"
  by (simp add: wall_ms_def const_world_def sample_world_def sample_env_def)

lemma uuidv7_sequence_next_refines_witness:
  "\<exists>s' w'. chronoid_uuidv7_sequence_next sample_cfg sample_env [0, 0] 0 (replicate 8 0) sample_useq
      CHRONOID_UUIDV7_NIL const_world = Done (CHRONOID_UUIDV7_OK, s', useq_id s', w')
    \<and> useq_succ 1700000000005 sample_useq s'"
  using uuidv7_sequence_next_refines [OF sample_sane(1) const_world_ok sample_useq_ok, of "[0, 0]"
      "replicate 8 0" CHRONOID_UUIDV7_NIL, OF _ _ _ refl refl, of sample_cfg 0]
  by (simp add: sample_wall) (auto simp: sample_useq_def)

text \<open>
  Claim C2. Monotonicity. Whatever the clock does between the calls (stand still, go back, fail,
  leave the 48-bit range), whatever the random source delivers and whichever calls fail, the
  identifiers a sequence hands out ascend strictly, each is above the one of the state it started
  from, and each is of version 7 and the RFC variant.
\<close>

theorem uuidv7_sequence_monotone:
  assumes "useq_ok s"
  shows "sorted_wrt (<) (fst (gen_run useq_step calls s))
    \<and> list_all (\<lambda>u. useq_id s < u \<and> chronoid_uuidv7_version u = 7 \<and> chronoid_uuidv7_variant u = 2)
        (fst (gen_run useq_step calls s))"
  using uuid_seq.run_sorted [OF assms, of calls]
    uuid_seq.run_above [OF assms, of "useq_id s" calls, OF _ prod.collapse [symmetric]]
    run_ids_ok [OF assms, of _ calls] id_fields
  by (fastforce simp: list_all_iff useq_below_def)

lemma uuidv7_sequence_monotone_witness:
  "sorted_wrt (<) (fst (gen_run useq_step
     [\<lparr>call_cfg = sample_cfg, call_env = sample_env, call_world = const_world, call_two = [0, 0],
       call_ctr = 0, call_tail = replicate 8 0, call_out = CHRONOID_UUIDV7_NIL\<rparr>] sample_useq))"
  using uuidv7_sequence_monotone [OF sample_useq_ok] by blast




text \<open>
  \<open>init\<close>: on success the sequence is usable, at millisecond 0 and with a counter of 12 bits;
  a failed draw leaves the caller's structure alone.
\<close>

theorem uuidv7_sequence_init_spec:
  assumes "sane_clock E" "gen_ok w" "length two = 2" "length tail = 8"
    and "chronoid_uuidv7_sequence_init cfg E two c0 tail s w = Done (e, s', w')"
  shows "gen_ok w' \<and> (e = CHRONOID_UUIDV7_OK \<and> useq_ok s' \<and> last_ms s' = 0
    \<or> e = CHRONOID_UUIDV7_ERR_RNG \<and> s' = s)"
proof (rule draw_counter_cases [OF assms(1-3), of cfg c0])
  fix c w1
  assume c: "chronoid_uuidv7_sequence_draw_counter cfg E two c0 w = Done (CHRONOID_UUIDV7_OK, c, w1)"
    "gen_ok w1" "unat c < 4096"
  show ?thesis
    by (rule draw_random_cases [OF assms(1) c(2) assms(4), of cfg])
      (use assms(5) c in \<open>auto simp: chronoid_uuidv7_sequence_init_def useq_ok_def\<close>)
qed (use assms(5) in \<open>simp_all add: chronoid_uuidv7_sequence_init_def\<close>)

lemma uuidv7_sequence_init_spec_witness:
  "\<exists>s' w'. chronoid_uuidv7_sequence_init sample_cfg sample_env [0, 0] 0 (replicate 8 0) sample_useq const_world
      = Done (CHRONOID_UUIDV7_OK, s', w') \<and> useq_ok s' \<and> last_ms s' = 0"
proof -
  have "\<exists>s' w'. chronoid_uuidv7_sequence_init sample_cfg sample_env [0, 0] 0 (replicate 8 0) sample_useq
      const_world = Done (CHRONOID_UUIDV7_OK, s', w')"
    by (simp add: chronoid_uuidv7_sequence_init_def chronoid_uuidv7_sequence_draw_counter_def
        chronoid_uuidv7_sequence_draw_random_def const_world_fill)
  then show ?thesis
    using uuidv7_sequence_init_spec [OF sample_sane(1) const_world_ok, of "[0, 0]" "replicate 8 0"]
    by fastforce
qed





end
