(* ===== verification/Chacha20_Rfc.thy ===== *)
theory Chacha20_Rfc
  imports Chacha20
begin

text \<open>
  The block function on the test vector of RFC 8439, section 2.3.2, evaluated in the kernel: the
  ten double rounds one by one, each as its eight quarter rounds.
\<close>

section \<open>A double round on an explicit state\<close>

lemma QR_eval:
  "QR (a, b, c, d) =
     (let a = a + b; d = d XOR a; d = push_bit 16 d OR drop_bit 16 d;
          c = c + d; b = b XOR c; b = push_bit 12 b OR drop_bit 20 b;
          a = a + b; d = d XOR a; d = push_bit 8 d OR drop_bit 24 d;
          c = c + d; b = b XOR c; b = push_bit 7 b OR drop_bit 25 b
      in (a, b, c, d))"
  by (simp add: QR_def ROTL32_def)

lemma QR_at_lists:
  "QR_at 0 4 8 12 [x0, x1, x2, x3, x4, x5, x6, x7, x8, x9, x10, x11, x12, x13, x14, x15] =
     (case QR (x0, x4, x8, x12) of (a, b, c, d) \<Rightarrow>
        [a, x1, x2, x3, b, x5, x6, x7, c, x9, x10, x11, d, x13, x14, x15])"
  "QR_at 1 5 9 13 [x0, x1, x2, x3, x4, x5, x6, x7, x8, x9, x10, x11, x12, x13, x14, x15] =
     (case QR (x1, x5, x9, x13) of (a, b, c, d) \<Rightarrow>
        [x0, a, x2, x3, x4, b, x6, x7, x8, c, x10, x11, x12, d, x14, x15])"
  "QR_at 2 6 10 14 [x0, x1, x2, x3, x4, x5, x6, x7, x8, x9, x10, x11, x12, x13, x14, x15] =
     (case QR (x2, x6, x10, x14) of (a, b, c, d) \<Rightarrow>
        [x0, x1, a, x3, x4, x5, b, x7, x8, x9, c, x11, x12, x13, d, x15])"
  "QR_at 3 7 11 15 [x0, x1, x2, x3, x4, x5, x6, x7, x8, x9, x10, x11, x12, x13, x14, x15] =
     (case QR (x3, x7, x11, x15) of (a, b, c, d) \<Rightarrow>
        [x0, x1, x2, a, x4, x5, x6, b, x8, x9, x10, c, x12, x13, x14, d])"
  "QR_at 0 5 10 15 [x0, x1, x2, x3, x4, x5, x6, x7, x8, x9, x10, x11, x12, x13, x14, x15] =
     (case QR (x0, x5, x10, x15) of (a, b, c, d) \<Rightarrow>
        [a, x1, x2, x3, x4, b, x6, x7, x8, x9, c, x11, x12, x13, x14, d])"
  "QR_at 1 6 11 12 [x0, x1, x2, x3, x4, x5, x6, x7, x8, x9, x10, x11, x12, x13, x14, x15] =
     (case QR (x1, x6, x11, x12) of (a, b, c, d) \<Rightarrow>
        [x0, a, x2, x3, x4, x5, b, x7, x8, x9, x10, c, d, x13, x14, x15])"
  "QR_at 2 7 8 13 [x0, x1, x2, x3, x4, x5, x6, x7, x8, x9, x10, x11, x12, x13, x14, x15] =
     (case QR (x2, x7, x8, x13) of (a, b, c, d) \<Rightarrow>
        [x0, x1, a, x3, x4, x5, x6, b, c, x9, x10, x11, x12, d, x14, x15])"
  "QR_at 3 4 9 14 [x0, x1, x2, x3, x4, x5, x6, x7, x8, x9, x10, x11, x12, x13, x14, x15] =
     (case QR (x3, x4, x9, x14) of (a, b, c, d) \<Rightarrow>
        [x0, x1, x2, a, b, x5, x6, x7, x8, c, x10, x11, x12, x13, d, x15])"
  by (simp_all add: QR_at_def split: prod.splits)

section \<open>The ten double rounds\<close>

lemma rfc_quarters_0:
  "QR (0x61707865, 0x03020100, 0x13121110, 0x00000001) =
    (0xabbaa25c, 0x3a465196, 0x6b3ca454, 0xdec62ed2)"
  "QR (0x3320646e, 0x07060504, 0x17161514, 0x09000000) =
    (0x1efa51ea, 0x1c7e64f6, 0x08eb14b1, 0x8862cc77)"
  "QR (0x79622d32, 0x0b0a0908, 0x1b1a1918, 0x4a000000) =
    (0x7354fbdf, 0xb12fb628, 0xbf8a9ac9, 0x6e35b345)"
  "QR (0x6b206574, 0x0f0e0d0c, 0x1f1e1d1c, 0x00000000) =
    (0x83d2dc69, 0xf05b6976, 0xe444df3b, 0x52a647f1)"
  "QR (0xabbaa25c, 0x1c7e64f6, 0xbf8a9ac9, 0x52a647f1) =
    (0xcd52e917, 0x5c2e187a, 0xf1a1bdf5, 0xf173888d)"
  "QR (0x1efa51ea, 0xb12fb628, 0xe444df3b, 0xdec62ed2) =
    (0x85ab03b4, 0xc95eb461, 0x761246ca, 0x6b0d58a3)"
  "QR (0x7354fbdf, 0xf05b6976, 0x6b3ca454, 0x8862cc77) =
    (0xb3457395, 0x316c801a, 0x7bf7d740, 0x6798471a)"
  "QR (0x83d2dc69, 0x3a465196, 0x08eb14b1, 0x6e35b345) =
    (0xf96de7dd, 0xc4b7cd22, 0x7eddd644, 0xd737f167)"
  by (simp_all only: QR_eval Let_def prod.case) simp_all

lemma rfc_round_0:
  "chacha20_double_round
   [0x61707865, 0x3320646e, 0x79622d32, 0x6b206574, 0x03020100, 0x07060504, 0x0b0a0908, 0x0f0e0d0c,
    0x13121110, 0x17161514, 0x1b1a1918, 0x1f1e1d1c, 0x00000001, 0x09000000, 0x4a000000, 0x00000000] =
   [0xcd52e917, 0x85ab03b4, 0xb3457395, 0xf96de7dd, 0xc4b7cd22, 0x5c2e187a, 0xc95eb461, 0x316c801a,
    0x7bf7d740, 0x7eddd644, 0xf1a1bdf5, 0x761246ca, 0x6b0d58a3, 0x6798471a, 0xd737f167, 0xf173888d]"
  by (simp only: chacha20_double_round_def Let_def QR_at_lists rfc_quarters_0 prod.case)

lemma rfc_quarters_1:
  "QR (0xcd52e917, 0xc4b7cd22, 0x7bf7d740, 0x6b0d58a3) =
    (0xe3e1111b, 0xd65b5b5b, 0xe67aec54, 0x7be81c0d)"
  "QR (0x85ab03b4, 0x5c2e187a, 0x7eddd644, 0x6798471a) =
    (0xa6291491, 0xf56af099, 0xf7a52d82, 0x1d92d0fd)"
  "QR (0xb3457395, 0xc95eb461, 0xf1a1bdf5, 0xd737f167) =
    (0x5a82b80c, 0x4ccc8103, 0xdb470914, 0x13139f8c)"
  "QR (0xf96de7dd, 0x316c801a, 0x761246ca, 0xf173888d) =
    (0x4500fd45, 0xc94d29e2, 0xdfb40f1d, 0x7a26ecaa)"
  "QR (0xe3e1111b, 0xf56af099, 0xdb470914, 0x7a26ecaa) =
    (0xcf1a7584, 0x7974b81c, 0xcd3c9aa0, 0x04d6ee22)"
  "QR (0xa6291491, 0x4ccc8103, 0xdfb40f1d, 0x7be81c0d) =
    (0x048927ec, 0x378dcfb4, 0x79fc89c7, 0x10aef18d)"
  "QR (0x5a82b80c, 0xc94d29e2, 0xe67aec54, 0x1d92d0fd) =
    (0x54051fda, 0xcd47fd0e, 0x2dafb216, 0x16218765)"
  "QR (0x4500fd45, 0xd65b5b5b, 0xf7a52d82, 0x13139f8c) =
    (0xc244ff28, 0x901d2f40, 0x27c89cd6, 0x68f76705)"
  by (simp_all only: QR_eval Let_def prod.case) simp_all

lemma rfc_round_1:
  "chacha20_double_round
   [0xcd52e917, 0x85ab03b4, 0xb3457395, 0xf96de7dd, 0xc4b7cd22, 0x5c2e187a, 0xc95eb461, 0x316c801a,
    0x7bf7d740, 0x7eddd644, 0xf1a1bdf5, 0x761246ca, 0x6b0d58a3, 0x6798471a, 0xd737f167, 0xf173888d] =
   [0xcf1a7584, 0x048927ec, 0x54051fda, 0xc244ff28, 0x901d2f40, 0x7974b81c, 0x378dcfb4, 0xcd47fd0e,
    0x2dafb216, 0x27c89cd6, 0xcd3c9aa0, 0x79fc89c7, 0x10aef18d, 0x16218765, 0x68f76705, 0x04d6ee22]"
  by (simp only: chacha20_double_round_def Let_def QR_at_lists rfc_quarters_1 prod.case)

lemma rfc_quarters_2:
  "QR (0xcf1a7584, 0x901d2f40, 0x2dafb216, 0x10aef18d) =
    (0xa22695f2, 0x1ece4458, 0xf2d36da6, 0x6fda6bf7)"
  "QR (0x048927ec, 0x7974b81c, 0x27c89cd6, 0x16218765) =
    (0xa908cf6c, 0xe82b726f, 0xf4dab980, 0x65a4b0ce)"
  "QR (0x54051fda, 0x378dcfb4, 0xcd3c9aa0, 0x68f76705) =
    (0xe6ae05b2, 0x5a21ab90, 0x7baf5573, 0x25e6d76e)"
  "QR (0xc244ff28, 0xcd47fd0e, 0x79fc89c7, 0x04d6ee22) =
    (0xfe0ff04b, 0x87698c64, 0xa78c270d, 0x1b7b11ec)"
  "QR (0xa22695f2, 0xe82b726f, 0x7baf5573, 0x1b7b11ec) =
    (0x03a14032, 0xa09b33dd, 0xc20e01b6, 0x2cd11b1a)"
  "QR (0xa908cf6c, 0x5a21ab90, 0xa78c270d, 0x6fda6bf7) =
    (0x66b15927, 0xa5daaf88, 0x72cd6b74, 0xba35d777)"
  "QR (0xe6ae05b2, 0x87698c64, 0xf2d36da6, 0x65a4b0ce) =
    (0x9d6b6b42, 0x2fd91a73, 0xc90c6b18, 0xb360f1bf)"
  "QR (0xfe0ff04b, 0x1ece4458, 0xf4dab980, 0x25e6d76e) =
    (0xb84c4109, 0xa7143ae0, 0x5a202413, 0x8178315b)"
  by (simp_all only: QR_eval Let_def prod.case) simp_all

lemma rfc_round_2:
  "chacha20_double_round
   [0xcf1a7584, 0x048927ec, 0x54051fda, 0xc244ff28, 0x901d2f40, 0x7974b81c, 0x378dcfb4, 0xcd47fd0e,
    0x2dafb216, 0x27c89cd6, 0xcd3c9aa0, 0x79fc89c7, 0x10aef18d, 0x16218765, 0x68f76705, 0x04d6ee22] =
   [0x03a14032, 0x66b15927, 0x9d6b6b42, 0xb84c4109, 0xa7143ae0, 0xa09b33dd, 0xa5daaf88, 0x2fd91a73,
    0xc90c6b18, 0x5a202413, 0xc20e01b6, 0x72cd6b74, 0xba35d777, 0xb360f1bf, 0x8178315b, 0x2cd11b1a]"
  by (simp only: chacha20_double_round_def Let_def QR_at_lists rfc_quarters_2 prod.case)

lemma rfc_quarters_3:
  "QR (0x03a14032, 0xa7143ae0, 0xc90c6b18, 0xba35d777) =
    (0xfecd0838, 0xcedf6624, 0x1d8a33ea, 0xa818b852)"
  "QR (0x66b15927, 0xa09b33dd, 0x5a202413, 0xb360f1bf) =
    (0x160ab468, 0xb11de6c4, 0x87dc1ca9, 0xb100446a)"
  "QR (0x9d6b6b42, 0xa5daaf88, 0xc20e01b6, 0x8178315b) =
    (0x9a0ddf4e, 0xbd7810ef, 0x89bd34a5, 0x9c1d70b1)"
  "QR (0xb84c4109, 0x2fd91a73, 0x72cd6b74, 0x2cd11b1a) =
    (0xbac7154a, 0xd22b5643, 0x5505ef62, 0xa1d1befa)"
  "QR (0xfecd0838, 0xb11de6c4, 0x89bd34a5, 0xa1d1befa) =
    (0x9a2d3589, 0x5e5993f7, 0x04fef5aa, 0x2b3bb2ca)"
  "QR (0x160ab468, 0xbd7810ef, 0x5505ef62, 0xa818b852) =
    (0x0b23fc4e, 0x9904c2e7, 0xf8933f72, 0x2687d476)"
  "QR (0x9a0ddf4e, 0xd22b5643, 0x1d8a33ea, 0xb100446a) =
    (0x40af3b6b, 0x0d334718, 0xe46c6354, 0x54e65231)"
  "QR (0xbac7154a, 0xcedf6624, 0x87dc1ca9, 0x9c1d70b1) =
    (0xceea8144, 0x0a1bffc6, 0xc9503229, 0x3594ffc5)"
  by (simp_all only: QR_eval Let_def prod.case) simp_all

lemma rfc_round_3:
  "chacha20_double_round
   [0x03a14032, 0x66b15927, 0x9d6b6b42, 0xb84c4109, 0xa7143ae0, 0xa09b33dd, 0xa5daaf88, 0x2fd91a73,
    0xc90c6b18, 0x5a202413, 0xc20e01b6, 0x72cd6b74, 0xba35d777, 0xb360f1bf, 0x8178315b, 0x2cd11b1a] =
   [0x9a2d3589, 0x0b23fc4e, 0x40af3b6b, 0xceea8144, 0x0a1bffc6, 0x5e5993f7, 0x9904c2e7, 0x0d334718,
    0xe46c6354, 0xc9503229, 0x04fef5aa, 0xf8933f72, 0x2687d476, 0x54e65231, 0x3594ffc5, 0x2b3bb2ca]"
  by (simp only: chacha20_double_round_def Let_def QR_at_lists rfc_quarters_3 prod.case)

lemma rfc_quarters_4:
  "QR (0x9a2d3589, 0x0a1bffc6, 0xe46c6354, 0x2687d476) =
    (0x85e7824a, 0x1c133ea1, 0xa3a66a86, 0xde008464)"
  "QR (0x0b23fc4e, 0x5e5993f7, 0xc9503229, 0x54e65231) =
    (0x4940cd9e, 0xbba40b0f, 0xc0b4754f, 0x34f0058b)"
  "QR (0x40af3b6b, 0x9904c2e7, 0x04fef5aa, 0x3594ffc5) =
    (0xfbe7684b, 0x9413992a, 0x771b4ecb, 0x70846cfa)"
  "QR (0xceea8144, 0x0d334718, 0xf8933f72, 0x2b3bb2ca) =
    (0x7335d03d, 0xa4ab2040, 0x165151a1, 0xa3271b09)"
  "QR (0x85e7824a, 0xbba40b0f, 0x771b4ecb, 0xa3271b09) =
    (0xc53318c5, 0x6088d379, 0x71669aca, 0x63fa6953)"
  "QR (0x4940cd9e, 0x9413992a, 0x165151a1, 0xde008464) =
    (0xca325d96, 0xc0f0e9bd, 0x975c171d, 0x9e5ec228)"
  "QR (0xfbe7684b, 0xa4ab2040, 0xa3a66a86, 0x34f0058b) =
    (0x7e7d11cb, 0xe310cdb9, 0xae2ca8db, 0x7d85a9f3)"
  "QR (0x7335d03d, 0x1c133ea1, 0xc0b4754f, 0x70846cfa) =
    (0x3404e2ca, 0x26d7cf73, 0x42f67c72, 0x201d0756)"
  by (simp_all only: QR_eval Let_def prod.case) simp_all

lemma rfc_round_4:
  "chacha20_double_round
   [0x9a2d3589, 0x0b23fc4e, 0x40af3b6b, 0xceea8144, 0x0a1bffc6, 0x5e5993f7, 0x9904c2e7, 0x0d334718,
    0xe46c6354, 0xc9503229, 0x04fef5aa, 0xf8933f72, 0x2687d476, 0x54e65231, 0x3594ffc5, 0x2b3bb2ca] =
   [0xc53318c5, 0xca325d96, 0x7e7d11cb, 0x3404e2ca, 0x26d7cf73, 0x6088d379, 0xc0f0e9bd, 0xe310cdb9,
    0xae2ca8db, 0x42f67c72, 0x71669aca, 0x975c171d, 0x9e5ec228, 0x7d85a9f3, 0x201d0756, 0x63fa6953]"
  by (simp only: chacha20_double_round_def Let_def QR_at_lists rfc_quarters_4 prod.case)

lemma rfc_quarters_5:
  "QR (0xc53318c5, 0x26d7cf73, 0xae2ca8db, 0x9e5ec228) =
    (0x9950b826, 0x2121065a, 0x19078de2, 0x40ca72b3)"
  "QR (0xca325d96, 0x6088d379, 0x42f67c72, 0x7d85a9f3) =
    (0xcac7ccc6, 0xc12bdadb, 0x178ecc02, 0x3b9bf852)"
  "QR (0x7e7d11cb, 0xc0f0e9bd, 0x71669aca, 0x201d0756) =
    (0x84a67673, 0xcae3acd1, 0xe6adbdb2, 0x78690378)"
  "QR (0x3404e2ca, 0xe310cdb9, 0x975c171d, 0x63fa6953) =
    (0xdb3109a6, 0x594616cb, 0x52a9d50e, 0xe17d4902)"
  "QR (0x9950b826, 0xc12bdadb, 0xe6adbdb2, 0xe17d4902) =
    (0x04a3131a, 0xbf8a4465, 0x61599491, 0xa0a81bde)"
  "QR (0xcac7ccc6, 0xcae3acd1, 0x52a9d50e, 0x40ca72b3) =
    (0x66176309, 0xf77dd720, 0x918512dc, 0x33b6686d)"
  "QR (0x84a67673, 0x594616cb, 0x19078de2, 0x3b9bf852) =
    (0x0415bab1, 0xfc0bdc90, 0x07d13aca, 0x795cc671)"
  "QR (0xdb3109a6, 0x2121065a, 0x178ecc02, 0x78690378) =
    (0x61b880a2, 0x36cc86c7, 0xeb0be9af, 0xc0049972)"
  by (simp_all only: QR_eval Let_def prod.case) simp_all

lemma rfc_round_5:
  "chacha20_double_round
   [0xc53318c5, 0xca325d96, 0x7e7d11cb, 0x3404e2ca, 0x26d7cf73, 0x6088d379, 0xc0f0e9bd, 0xe310cdb9,
    0xae2ca8db, 0x42f67c72, 0x71669aca, 0x975c171d, 0x9e5ec228, 0x7d85a9f3, 0x201d0756, 0x63fa6953] =
   [0x04a3131a, 0x66176309, 0x0415bab1, 0x61b880a2, 0x36cc86c7, 0xbf8a4465, 0xf77dd720, 0xfc0bdc90,
    0x07d13aca, 0xeb0be9af, 0x61599491, 0x918512dc, 0x33b6686d, 0x795cc671, 0xc0049972, 0xa0a81bde]"
  by (simp only: chacha20_double_round_def Let_def QR_at_lists rfc_quarters_5 prod.case)

lemma rfc_quarters_6:
  "QR (0x04a3131a, 0x36cc86c7, 0x07d13aca, 0x33b6686d) =
    (0x57c5e6da, 0x8e85d82f, 0x434b4749, 0x49ee03a6)"
  "QR (0x66176309, 0xbf8a4465, 0xeb0be9af, 0x795cc671) =
    (0x35ce46a8, 0xb4819d06, 0x1d459c00, 0xd11a5554)"
  "QR (0x0415bab1, 0xf77dd720, 0x61599491, 0xc0049972) =
    (0x0c041bb9, 0xb63be200, 0x111cfe2c, 0xa7202e04)"
  "QR (0x61b880a2, 0xfc0bdc90, 0x918512dc, 0xa0a81bde) =
    (0xfa91df79, 0xacd221e4, 0x55942604, 0x7d2215bc)"
  "QR (0x57c5e6da, 0xb4819d06, 0x111cfe2c, 0x7d2215bc) =
    (0x9b70f51f, 0x6a4c50ae, 0xd3fde99e, 0x2c847a0d)"
  "QR (0x35ce46a8, 0xb63be200, 0x55942604, 0x49ee03a6) =
    (0x7ea8ac11, 0x19212a5a, 0x26acc13d, 0xa609f555)"
  "QR (0x0c041bb9, 0xacd221e4, 0x434b4749, 0xd11a5554) =
    (0x21e54da9, 0x9b032958, 0xd839165e, 0x2c246549)"
  "QR (0xfa91df79, 0x8e85d82f, 0x1d459c00, 0xa7202e04) =
    (0xca393b2f, 0x93b08686, 0x4c06e28a, 0x95151853)"
  by (simp_all only: QR_eval Let_def prod.case) simp_all

lemma rfc_round_6:
  "chacha20_double_round
   [0x04a3131a, 0x66176309, 0x0415bab1, 0x61b880a2, 0x36cc86c7, 0xbf8a4465, 0xf77dd720, 0xfc0bdc90,
    0x07d13aca, 0xeb0be9af, 0x61599491, 0x918512dc, 0x33b6686d, 0x795cc671, 0xc0049972, 0xa0a81bde] =
   [0x9b70f51f, 0x7ea8ac11, 0x21e54da9, 0xca393b2f, 0x93b08686, 0x6a4c50ae, 0x19212a5a, 0x9b032958,
    0xd839165e, 0x4c06e28a, 0xd3fde99e, 0x26acc13d, 0xa609f555, 0x2c246549, 0x95151853, 0x2c847a0d]"
  by (simp only: chacha20_double_round_def Let_def QR_at_lists rfc_quarters_6 prod.case)

lemma rfc_quarters_7:
  "QR (0x9b70f51f, 0x93b08686, 0xd839165e, 0xa609f555) =
    (0xc0b18aee, 0xdeb54e9c, 0xa82d65d4, 0x4103c64e)"
  "QR (0x7ea8ac11, 0x6a4c50ae, 0x4c06e28a, 0x2c246549) =
    (0x087445ba, 0x802c883b, 0x687f11eb, 0x82816a91)"
  "QR (0x21e54da9, 0x19212a5a, 0xd3fde99e, 0x95151853) =
    (0x36e52ad9, 0x06e86889, 0xe9d36207, 0xb584ca56)"
  "QR (0xca393b2f, 0x9b032958, 0x26acc13d, 0x2c847a0d) =
    (0xa777426a, 0x3c002680, 0x4242ddae, 0xfd0bd2b9)"
  "QR (0xc0b18aee, 0x802c883b, 0xe9d36207, 0xfd0bd2b9) =
    (0xca5c85dd, 0x712aa9ff, 0x779c27e7, 0xcc38080b)"
  "QR (0x087445ba, 0x06e86889, 0x4242ddae, 0x4103c64e) =
    (0x93a4f90e, 0x279a61e8, 0x54077e08, 0xa9b751fb)"
  "QR (0x36e52ad9, 0x3c002680, 0xa82d65d4, 0x82816a91) =
    (0xd9f0df58, 0x970f72bd, 0x1c25931a, 0x382f3ce2)"
  "QR (0xa777426a, 0xdeb54e9c, 0x687f11eb, 0xb584ca56) =
    (0x26dd82dd, 0x982563f8, 0x5180bb10, 0x8db1757d)"
  by (simp_all only: QR_eval Let_def prod.case) simp_all

lemma rfc_round_7:
  "chacha20_double_round
   [0x9b70f51f, 0x7ea8ac11, 0x21e54da9, 0xca393b2f, 0x93b08686, 0x6a4c50ae, 0x19212a5a, 0x9b032958,
    0xd839165e, 0x4c06e28a, 0xd3fde99e, 0x26acc13d, 0xa609f555, 0x2c246549, 0x95151853, 0x2c847a0d] =
   [0xca5c85dd, 0x93a4f90e, 0xd9f0df58, 0x26dd82dd, 0x982563f8, 0x712aa9ff, 0x279a61e8, 0x970f72bd,
    0x1c25931a, 0x5180bb10, 0x779c27e7, 0x54077e08, 0xa9b751fb, 0x382f3ce2, 0x8db1757d, 0xcc38080b]"
  by (simp only: chacha20_double_round_def Let_def QR_at_lists rfc_quarters_7 prod.case)

lemma rfc_quarters_8:
  "QR (0xca5c85dd, 0x982563f8, 0x1c25931a, 0xa9b751fb) =
    (0x765c6e9c, 0x9046ecaa, 0x46fa091e, 0x72a5aace)"
  "QR (0x93a4f90e, 0x712aa9ff, 0x5180bb10, 0x382f3ce2) =
    (0x5ab09b11, 0x7b88d882, 0x5117e9b5, 0x5fa7f1c5)"
  "QR (0xd9f0df58, 0x279a61e8, 0x779c27e7, 0x8db1757d) =
    (0x3ee7da04, 0xb9b577dd, 0x862ff22b, 0xda563e0a)"
  "QR (0x26dd82dd, 0x970f72bd, 0x54077e08, 0xcc38080b) =
    (0x37c31203, 0x156de7ed, 0xa3fcc7a6, 0x5263d7ca)"
  "QR (0x765c6e9c, 0x7b88d882, 0x862ff22b, 0x5263d7ca) =
    (0xb6b87de6, 0x98e18fa3, 0x83e2f5d7, 0x6cde6026)"
  "QR (0x5ab09b11, 0xb9b577dd, 0xa3fcc7a6, 0x72a5aace) =
    (0x9a016148, 0x5ffbe8fc, 0x7d24b98b, 0x21078b22)"
  "QR (0x3ee7da04, 0x156de7ed, 0x46fa091e, 0x5fa7f1c5) =
    (0x93859815, 0xf7154b8b, 0x28c1fcb3, 0xb193e7a3)"
  "QR (0x37c31203, 0x9046ecaa, 0x5117e9b5, 0xda563e0a) =
    (0x4915e6cc, 0xdc33c122, 0xc4b38f9d, 0xb2f49389)"
  by (simp_all only: QR_eval Let_def prod.case) simp_all

lemma rfc_round_8:
  "chacha20_double_round
   [0xca5c85dd, 0x93a4f90e, 0xd9f0df58, 0x26dd82dd, 0x982563f8, 0x712aa9ff, 0x279a61e8, 0x970f72bd,
    0x1c25931a, 0x5180bb10, 0x779c27e7, 0x54077e08, 0xa9b751fb, 0x382f3ce2, 0x8db1757d, 0xcc38080b] =
   [0xb6b87de6, 0x9a016148, 0x93859815, 0x4915e6cc, 0xdc33c122, 0x98e18fa3, 0x5ffbe8fc, 0xf7154b8b,
    0x28c1fcb3, 0xc4b38f9d, 0x83e2f5d7, 0x7d24b98b, 0x21078b22, 0xb193e7a3, 0xb2f49389, 0x6cde6026]"
  by (simp only: chacha20_double_round_def Let_def QR_at_lists rfc_quarters_8 prod.case)

lemma rfc_quarters_9:
  "QR (0xb6b87de6, 0xdc33c122, 0x28c1fcb3, 0x21078b22) =
    (0x8a07ff15, 0x913768fe, 0x0a39aedc, 0x2d4cfe3e)"
  "QR (0x9a016148, 0x98e18fa3, 0xc4b38f9d, 0xb193e7a3) =
    (0x0cadc51c, 0x442a0c0c, 0xc1428029, 0xe5466d1b)"
  "QR (0x93859815, 0x5ffbe8fc, 0x83e2f5d7, 0xb2f49389) =
    (0x017c8da9, 0x598fe3bb, 0x7b48135f, 0xe4ccdc13)"
  "QR (0x4915e6cc, 0xf7154b8b, 0x7d24b98b, 0x6cde6026) =
    (0x4afbe5df, 0x47d18828, 0x5a5f1098, 0x8ac92a18)"
  "QR (0x8a07ff15, 0x442a0c0c, 0x7b48135f, 0x8ac92a18) =
    (0x837778ab, 0xfc62bb2f, 0xeabda8fc, 0x4e3c50a2)"
  "QR (0x0cadc51c, 0x598fe3bb, 0x5a5f1098, 0x2d4cfe3e) =
    (0xe238d763, 0x8fa018fc, 0x82e46ebd, 0xd19c12b4)"
  "QR (0x017c8da9, 0x47d18828, 0x0a39aedc, 0xe5466d1b) =
    (0xa67ae21e, 0x3f5ec7b7, 0x335271c2, 0xb04e16de)"
  "QR (0x4afbe5df, 0x913768fe, 0xc1428029, 0xe4ccdc13) =
    (0x5950bb2f, 0xc4f2d0c7, 0xf29489f3, 0x9e83d0cb)"
  by (simp_all only: QR_eval Let_def prod.case) simp_all

lemma rfc_round_9:
  "chacha20_double_round
   [0xb6b87de6, 0x9a016148, 0x93859815, 0x4915e6cc, 0xdc33c122, 0x98e18fa3, 0x5ffbe8fc, 0xf7154b8b,
    0x28c1fcb3, 0xc4b38f9d, 0x83e2f5d7, 0x7d24b98b, 0x21078b22, 0xb193e7a3, 0xb2f49389, 0x6cde6026] =
   [0x837778ab, 0xe238d763, 0xa67ae21e, 0x5950bb2f, 0xc4f2d0c7, 0xfc62bb2f, 0x8fa018fc, 0x3f5ec7b7,
    0x335271c2, 0xf29489f3, 0xeabda8fc, 0x82e46ebd, 0xd19c12b4, 0xb04e16de, 0x9e83d0cb, 0x4e3c50a2]"
  by (simp only: chacha20_double_round_def Let_def QR_at_lists rfc_quarters_9 prod.case)

section \<open>The block\<close>

definition rfc_state :: "u32 list" where
  "rfc_state =
    [0x61707865, 0x3320646e, 0x79622d32, 0x6b206574, 0x03020100, 0x07060504, 0x0b0a0908, 0x0f0e0d0c,
    0x13121110, 0x17161514, 0x1b1a1918, 0x1f1e1d1c, 0x00000001, 0x09000000, 0x4a000000, 0x00000000]"

lemma rfc_rounds:
  "chacha20_rounds 10 rfc_state =
    [0x837778ab, 0xe238d763, 0xa67ae21e, 0x5950bb2f, 0xc4f2d0c7, 0xfc62bb2f, 0x8fa018fc, 0x3f5ec7b7,
    0x335271c2, 0xf29489f3, 0xeabda8fc, 0x82e46ebd, 0xd19c12b4, 0xb04e16de, 0x9e83d0cb, 0x4e3c50a2]"
proof -
  have ten: "(10 :: nat) = Suc (Suc (Suc (Suc (Suc (Suc (Suc (Suc (Suc (Suc 0)))))))))" by simp
  show ?thesis
    unfolding ten rfc_state_def chacha20_rounds.simps
      rfc_round_0 rfc_round_1 rfc_round_2 rfc_round_3 rfc_round_4
      rfc_round_5 rfc_round_6 rfc_round_7 rfc_round_8 rfc_round_9 ..
qed

section \<open>Properties\<close>


end
