(* ===== verification/Batch.thy ===== *)
theory Batch
  imports Prelude
begin

text \<open>
  What the two batch encoders share: the loop of checked array writes, the contract of a batch
  kernel (a locale), and the dispatch through a function pointer that starts at a trampoline, which
  \<open>chronoid/ksuid/encode_batch.c\<close> and \<open>chronoid/uuidv7/hex_batch.c\<close> have in common, as a step
  relation of concurrent callers.
\<close>

section \<open>Loops\<close>

primrec run_fold :: "('a \<Rightarrow> 's \<Rightarrow> 's run) \<Rightarrow> 'a list \<Rightarrow> 's \<Rightarrow> 's run" where
  "run_fold f [] s = Done s"
| "run_fold f (x # xs) s = run_bind (f x s) (run_fold f xs)"

text \<open>A callee that gets a pointer to the \<open>len\<close> bytes at \<open>off\<close> of an array and overwrites them.\<close>

definition slot_write :: "nat \<Rightarrow> nat \<Rightarrow> (u8 list \<Rightarrow> u8 list) \<Rightarrow> u8 list \<Rightarrow> u8 list run" where
  "slot_write off len f out =
     (if off + len \<le> length out then Done (buf_put out off (f (buf_get out off len))) else Undef)"

lemma run_fold_append: "run_fold f (xs @ ys) s = run_bind (run_fold f xs s) (run_fold f ys)"
proof (induction xs arbitrary: s)
  case Nil
  then show ?case by (simp add: run_simps)
next
  case (Cons x xs)
  then show ?case by (cases "f x s") (simp_all add: run_simps)
qed

lemma run_fold_pure:
  assumes "\<And>x s. x \<in> set xs \<Longrightarrow> I s \<Longrightarrow> f x s = Done (g x s) \<and> I (g x s)" "I s"
  shows "run_fold f xs s = Done (fold g xs s) \<and> I (fold g xs s)"
  using assms by (induction xs arbitrary: s) auto

lemma concat_uniform:
  assumes "\<forall>x \<in> set xs. length x = w"
  shows "length (concat xs) = length xs * w"
    and "p < length xs * w \<Longrightarrow> concat xs ! p = xs ! (p div w) ! (p mod w)"
    and "i < length xs \<Longrightarrow> take w (drop (i * w) (concat xs @ ys)) = xs ! i"
    and "concat xs = concat (take i xs) @ concat (drop i xs)"
proof -
  show len: "length (concat xs) = length xs * w" using assms by (induction xs) auto
  show "concat xs ! p = xs ! (p div w) ! (p mod w)" if "p < length xs * w"
    using that assms
  proof (induction xs arbitrary: p)
    case Nil
    then show ?case by simp
  next
    case (Cons x xs)
    show ?case
    proof (cases "p < w")
      case True
      then show ?thesis using Cons.prems by (simp add: nth_append)
    next
      case False
      have "0 < w" using Cons.prems by (cases w) auto
      then have "p div w = Suc ((p - w) div w)" "p mod w = (p - w) mod w"
        using False by (simp_all add: le_div_geq le_mod_geq)
      then show ?thesis using Cons.IH [of "p - w"] Cons.prems False by (simp add: nth_append)
    qed
  qed
  show "take w (drop (i * w) (concat xs @ ys)) = xs ! i" if "i < length xs"
    using that assms
  proof (induction xs arbitrary: i)
    case Nil
    then show ?case by simp
  next
    case (Cons x xs)
    then show ?case by (cases i) auto
  qed
  show "concat xs = concat (take i xs) @ concat (drop i xs)"
    by (metis append_take_drop_id concat_append)
qed

text \<open>A loop over groups of \<open>k\<close> identifiers, each of which writes its texts to its own slots.\<close>

lemma group_loop:
  assumes "list_all (\<lambda>x. length (enc x) = w) ids" "m * k \<le> length ids" "m * k * w \<le> length out"
    and body: "\<And>g s. g < m \<Longrightarrow> length s = length out \<Longrightarrow>
      body g s = Done (buf_put s (g * k * w) (concat (map enc (take k (drop (g * k) ids)))))"
  shows "run_fold body [0..<m] out = Done (concat (map enc (take (m * k) ids)) @ drop (m * k * w) out)"
  using assms(2,3) body
proof (induction m)
  case 0
  then show ?case by simp
next
  case (Suc m)
  let ?s = "concat (map enc (take (m * k) ids)) @ drop (m * k * w) out"
  let ?new = "concat (map enc (take k (drop (m * k) ids)))"
  have le: "m * k \<le> length ids" "m * k * w \<le> length out" "(m * k + k) * w \<le> length out"
    using Suc.prems by (simp_all add: add.commute add_mult_distrib)
  have all: "\<forall>x \<in> set (map enc (take i (drop j ids))). length x = w" for i j
    using assms(1) by (auto simp: list_all_iff dest: in_set_takeD in_set_dropD)
  have l1: "length (concat (map enc (take (m * k) ids))) = m * k * w"
    using concat_uniform(1) [OF all, of "m * k" 0] le(1) by simp
  have l2: "length ?new = k * w"
    using concat_uniform(1) [OF all, of k "m * k"] Suc.prems(1) by simp
  have "run_fold body [0..<m] out = Done ?s" using Suc.IH Suc.prems(3) le by simp
  moreover have "body m ?s = Done (buf_put ?s (m * k * w) ?new)"
    using Suc.prems(3) [of m ?s] l1 le(2) by simp
  moreover have "buf_put ?s (m * k * w) ?new =
      concat (map enc (take (m * k) ids)) @ ?new @ drop (k * w + m * k * w) out"
    using l1 l2 by (simp add: buf_put_def)
  moreover have "concat (map enc (take (m * k) ids)) @ ?new = concat (map enc (take (Suc m * k) ids))"
    by (simp add: take_add add.commute [of k] flip: concat_append map_append)
  ultimately show ?case
    by (simp add: run_fold_append run_simps add_mult_distrib flip: append_assoc)
qed

section \<open>The contract of a batch kernel\<close>

text \<open>
  A kernel takes the identifiers, the output array and the number of identifiers, and writes the
  texts one after the other. A loop over groups of \<open>k\<close> identifiers meets the contract when its body
  does for one group.
\<close>

locale batch_kernel =
  fixes enc :: "'a \<Rightarrow> u8 list" and width :: nat and ok :: "'a \<Rightarrow> bool"
    and kernel :: "'a list \<Rightarrow> u8 list \<Rightarrow> nat \<Rightarrow> u8 list run"
  assumes width: "ok x \<Longrightarrow> length (enc x) = width"
    and writes: "list_all ok ids \<Longrightarrow> length ids = n \<Longrightarrow> n * width \<le> length out \<Longrightarrow>
      kernel ids out n = Done (concat (map enc ids) @ drop (n * width) out)"
begin

lemma texts_length: "list_all ok ids \<Longrightarrow> length (concat (map enc ids)) = length ids * width"
  by (induction ids) (auto simp: width)

lemma slot:
  assumes "list_all ok ids" "i < length ids"
  shows "buf_get (concat (map enc ids) @ rest) (i * width) width = enc (ids ! i)"
  using assms
proof (induction ids arbitrary: i)
  case Nil
  then show ?case by simp
next
  case (Cons x ids)
  then show ?case
  proof (cases i)
    case 0
    then show ?thesis using Cons.prems width [of x] by (simp add: buf_get_def)
  next
    case (Suc j)
    have "length (enc x) = width" using Cons.prems width [of x] by simp
    then have "drop (Suc j * width) (concat (map enc (x # ids)) @ rest) =
        drop (j * width) (concat (map enc ids) @ rest)" by simp
    then show ?thesis using Cons.IH [of j] Cons.prems Suc unfolding buf_get_def by simp
  qed
qed

text \<open>Two calls on neighbouring parts of the arrays are one call on the whole.\<close>

lemma tail:
  assumes "list_all ok ids" "length ids = n" "m \<le> n" "n * width \<le> length out"
    and "length pre = m * width" "pre = concat (map enc (take m ids))"
  shows "run_bind (kernel (drop m ids) (drop (m * width) out) (n - m)) (\<lambda>r. Done (pre @ r)) =
    Done (concat (map enc ids) @ drop (n * width) out)"
proof -
  have "kernel (drop m ids) (drop (m * width) out) (n - m) =
      Done (concat (map enc (drop m ids)) @ drop ((n - m) * width) (drop (m * width) out))"
    using assms(1-4) by (intro writes) (auto simp: list_all_iff diff_mult_distrib dest: in_set_dropD)
  moreover have "(n - m) * width + m * width = n * width" using assms(3) by (simp flip: add_mult_distrib)
  moreover have "concat (map enc (take m ids)) @ concat (map enc (drop m ids)) = concat (map enc ids)"
    by (simp flip: concat_append map_append)
  ultimately show ?thesis using assms(6) by (simp add: run_simps flip: append_assoc)
qed

end

section \<open>Dispatch\<close>

text \<open>The values of the function pointer: the trampoline at first, then the kernel it resolved to.\<close>

datatype batch_impl = Init_trampoline | Batch_scalar | Batch_avx2

text \<open>
  The processor as the detection code sees it: what the compiler's builtin says, the answer of
  \<open>__get_cpuid_count (7, 0)\<close> (its \<open>ebx\<close>, or failure), and \<open>_xgetbv (0)\<close>. The compiler decides which
  of them are asked.
\<close>

datatype toolchain = Gnu | Msvc | Other_compiler

record cpu =
  builtin_avx2 :: bool
  leaf7_ebx :: "u32 option"
  xgetbv0 :: u64

definition chronoid_ksuid_cpu_supports_avx2 :: "toolchain \<Rightarrow> cpu \<Rightarrow> bool" where
  "chronoid_ksuid_cpu_supports_avx2 tc c =
     (case tc of
        Gnu \<Rightarrow>
          if \<not> builtin_avx2 c then False
          else (case leaf7_ebx c of None \<Rightarrow> False | Some ebx \<Rightarrow> ebx AND push_bit 5 1 \<noteq> 0)
      | Msvc \<Rightarrow>
          if (case leaf7_ebx c of None \<Rightarrow> 0 | Some ebx \<Rightarrow> ebx) AND push_bit 5 1 = 0 then False
          else xgetbv0 c AND 6 = 6
      | Other_compiler \<Rightarrow> False)"

text \<open>The environment variable \<open>CHRONOID_FORCE_SCALAR\<close>, when it is set.\<close>

definition chronoid_force_scalar_env :: "string option \<Rightarrow> bool" where
  "chronoid_force_scalar_env v =
     (case v of
        None \<Rightarrow> False
      | Some s \<Rightarrow> if s = '''' then False
                  else if s = ''0'' \<or> s = ''false'' \<or> s = ''FALSE'' then False else True)"

text \<open>What the trampoline resolves to; \<open>have_avx2\<close> is the build option.\<close>

record batch_env =
  have_avx2 :: bool
  compiler :: toolchain
  processor :: cpu
  force_scalar :: "string option"

definition resolve_impl :: "batch_env \<Rightarrow> batch_impl" where
  "resolve_impl B =
     (if have_avx2 B \<and> \<not> chronoid_force_scalar_env (force_scalar B) \<and> chronoid_ksuid_cpu_supports_avx2 (compiler B) (processor B)
      then Batch_avx2 else Batch_scalar)"

subsection \<open>Concurrent callers\<close>

text \<open>
  A call loads the pointer; at the trampoline it resolves, stores the result and calls it, otherwise
  it calls what it loaded. Any number of threads take these steps in any order.
\<close>

datatype pc = Ready | Loaded batch_impl | Resolved batch_impl | Stored batch_impl | Ran batch_impl

record dispatch =
  g_impl :: batch_impl
  pcs :: "nat \<Rightarrow> pc"

inductive batch_step :: "batch_env \<Rightarrow> dispatch \<Rightarrow> dispatch \<Rightarrow> bool" for B where
  load: "pcs d t = Ready \<Longrightarrow> batch_step B d (d\<lparr>pcs := (pcs d)(t := Loaded (g_impl d))\<rparr>)"
| resolve: "pcs d t = Loaded Init_trampoline \<Longrightarrow>
     batch_step B d (d\<lparr>pcs := (pcs d)(t := Resolved (resolve_impl B))\<rparr>)"
| store: "pcs d t = Resolved f \<Longrightarrow> batch_step B d (d\<lparr>g_impl := f, pcs := (pcs d)(t := Stored f)\<rparr>)"
| call_stored: "pcs d t = Stored f \<Longrightarrow> batch_step B d (d\<lparr>pcs := (pcs d)(t := Ran f)\<rparr>)"
| call_loaded: "pcs d t = Loaded f \<Longrightarrow> f \<noteq> Init_trampoline \<Longrightarrow>
     batch_step B d (d\<lparr>pcs := (pcs d)(t := Ran f)\<rparr>)"
| next_call: "pcs d t = Ran f \<Longrightarrow> batch_step B d (d\<lparr>pcs := (pcs d)(t := Ready)\<rparr>)"

inductive_cases batch_stepE: "batch_step B d d'"

definition dispatch_init :: dispatch where
  "dispatch_init = \<lparr>g_impl = Init_trampoline, pcs = (\<lambda>_. Ready)\<rparr>"

definition pc_ok :: "batch_env \<Rightarrow> batch_impl \<Rightarrow> pc \<Rightarrow> bool" where
  "pc_ok B g p =
     (case p of
        Ready \<Rightarrow> True
      | Loaded f \<Rightarrow> f = Init_trampoline \<or> f = resolve_impl B \<and> g = resolve_impl B
      | Resolved f \<Rightarrow> f = resolve_impl B
      | Stored f \<Rightarrow> f = resolve_impl B \<and> g = resolve_impl B
      | Ran f \<Rightarrow> f = resolve_impl B \<and> g = resolve_impl B)"

definition dispatch_inv :: "batch_env \<Rightarrow> dispatch \<Rightarrow> bool" where
  "dispatch_inv B d \<longleftrightarrow> (g_impl d = Init_trampoline \<or> g_impl d = resolve_impl B)
     \<and> (\<forall>t. pc_ok B (g_impl d) (pcs d t))"

lemma pc_ok_mono: "pc_ok B g p \<Longrightarrow> pc_ok B (resolve_impl B) p"
  by (cases p) (auto simp: pc_ok_def)

lemma dispatch_inv_step: "dispatch_inv B d \<Longrightarrow> batch_step B d d' \<Longrightarrow> dispatch_inv B d'"
proof (erule batch_stepE, goal_cases)
  case (3 t f)
  then have "pc_ok B (g_impl d) (Resolved f)" unfolding dispatch_inv_def by metis
  then have f: "f = resolve_impl B" by (simp add: pc_ok_def)
  have "pc_ok B (resolve_impl B) (pcs d u)" for u
    using 3(1) pc_ok_mono unfolding dispatch_inv_def by blast
  then show ?case using 3(2) f by (simp add: dispatch_inv_def) (simp add: pc_ok_def)
qed (fastforce simp: dispatch_inv_def pc_ok_def split: pc.splits)+

lemma dispatch_inv_reachable: "(batch_step B)\<^sup>*\<^sup>* dispatch_init d \<Longrightarrow> dispatch_inv B d"
proof (induction rule: rtranclp_induct)
  case base
  then show ?case by (simp add: dispatch_inv_def dispatch_init_def pc_ok_def)
next
  case (step y z)
  then show ?case using dispatch_inv_step by blast
qed

lemma resolve_not_init [simp]: "resolve_impl B \<noteq> Init_trampoline"
  by (simp add: resolve_impl_def)

text \<open>
  Claim C18. Dispatch is free of races. However many threads make their first calls at once, and
  however their steps interleave, every call that runs runs the kernel the process resolves to, the
  pointer only ever holds the trampoline or that kernel, and once a call has run it holds the kernel.
\<close>

theorem batch_dispatch_race_free:
  assumes "(batch_step B)\<^sup>*\<^sup>* dispatch_init d"
  shows "(g_impl d = Init_trampoline \<or> g_impl d = resolve_impl B)
    \<and> (\<forall>t f. pcs d t = Ran f \<longrightarrow> f = resolve_impl B \<and> g_impl d = resolve_impl B)"
proof -
  have inv: "dispatch_inv B d" by (rule dispatch_inv_reachable [OF assms])
  then have "pc_ok B (g_impl d) (Ran f)" if "pcs d t = Ran f" for t f
    using that unfolding dispatch_inv_def by metis
  then show ?thesis using inv by (auto simp: dispatch_inv_def pc_ok_def)
qed

definition sample_batch_env :: batch_env where
  "sample_batch_env = \<lparr>have_avx2 = True, compiler = Gnu,
     processor = \<lparr>builtin_avx2 = True, leaf7_ebx = Some 0x20, xgetbv0 = 7\<rparr>, force_scalar = Some ''0''\<rparr>"

lemma sample_resolves: "resolve_impl sample_batch_env = Batch_avx2"
  by (simp add: resolve_impl_def sample_batch_env_def chronoid_force_scalar_env_def
      chronoid_ksuid_cpu_supports_avx2_def)

text \<open>Two first calls that both find the trampoline.\<close>

lemma two_first_calls:
  "\<exists>d. (batch_step sample_batch_env)\<^sup>*\<^sup>* dispatch_init d \<and> pcs d 0 = Ran Batch_avx2 \<and> pcs d 1 = Stored Batch_avx2"
proof -
  let ?B = sample_batch_env and ?R = "resolve_impl sample_batch_env"
  let ?d = "\<lambda>g p q. \<lparr>g_impl = g, pcs = (\<lambda>_. Ready)(0 := p, 1 := q)\<rparr>"
  let ?I = Init_trampoline
  have s1: "batch_step ?B dispatch_init (?d ?I (Loaded ?I) Ready)"
    using batch_step.load [of dispatch_init 0 ?B] by (simp add: dispatch_init_def fun_upd_idem)
  have s2: "batch_step ?B (?d ?I (Loaded ?I) Ready) (?d ?I (Loaded ?I) (Loaded ?I))"
    using batch_step.load [of "?d ?I (Loaded ?I) Ready" 1 ?B] by simp
  have s3: "batch_step ?B (?d ?I (Loaded ?I) (Loaded ?I)) (?d ?I (Resolved ?R) (Loaded ?I))"
    using batch_step.resolve [of "?d ?I (Loaded ?I) (Loaded ?I)" 0 ?B] by (simp add: fun_upd_twist)
  have s4: "batch_step ?B (?d ?I (Resolved ?R) (Loaded ?I)) (?d ?R (Stored ?R) (Loaded ?I))"
    using batch_step.store [of "?d ?I (Resolved ?R) (Loaded ?I)" 0 ?R ?B] by (simp add: fun_upd_twist)
  have s5: "batch_step ?B (?d ?R (Stored ?R) (Loaded ?I)) (?d ?R (Ran ?R) (Loaded ?I))"
    using batch_step.call_stored [of "?d ?R (Stored ?R) (Loaded ?I)" 0 ?R ?B] by (simp add: fun_upd_twist)
  have s6: "batch_step ?B (?d ?R (Ran ?R) (Loaded ?I)) (?d ?R (Ran ?R) (Resolved ?R))"
    using batch_step.resolve [of "?d ?R (Ran ?R) (Loaded ?I)" 1 ?B] by simp
  have s7: "batch_step ?B (?d ?R (Ran ?R) (Resolved ?R)) (?d ?R (Ran ?R) (Stored ?R))"
    using batch_step.store [of "?d ?R (Ran ?R) (Resolved ?R)" 1 ?R ?B] by simp
  have "(batch_step ?B)\<^sup>*\<^sup>* dispatch_init (?d ?R (Ran ?R) (Stored ?R))"
    using s1 s2 s3 s4 s5 s6 s7 by (meson rtranclp.rtrancl_refl rtranclp.rtrancl_into_rtrancl)
  then show ?thesis by (intro exI conjI) (assumption, simp_all add: sample_resolves)
qed

lemma batch_dispatch_race_free_witness:
  "\<exists>d. (batch_step sample_batch_env)\<^sup>*\<^sup>* dispatch_init d \<and> pcs d 0 = Ran Batch_avx2
    \<and> g_impl d = resolve_impl sample_batch_env"
proof -
  obtain d where "(batch_step sample_batch_env)\<^sup>*\<^sup>* dispatch_init d" "pcs d 0 = Ran Batch_avx2"
    using two_first_calls by blast
  then show ?thesis using batch_dispatch_race_free by blast
qed

end
