(* ===== verification/Avx2_Div62.thy ===== *)
theory Avx2_Div62
  imports Prelude
begin

text \<open>
  Division by 62 on vectors of four 64-bit lanes: \<open>chronoid_ksuid_mulhi64_avx2\<close> and
  \<open>chronoid_ksuid_divmod62_avx2\<close> of \<open>chronoid/ksuid/encode_avx2.c\<close>, the constant of
  \<open>chronoid/ksuid/divisor_magic.h\<close>, and the lane-wise meaning of the AVX2 instructions they use.
\<close>

section \<open>Vectors of four 64-bit lanes\<close>

type_synonym ymm = "u64 list"

definition qlanes2 :: "(u64 \<Rightarrow> u64 \<Rightarrow> u64) \<Rightarrow> ymm \<Rightarrow> ymm \<Rightarrow> ymm" where
  "qlanes2 f a b = map2 f a b"

definition mm256_set1_epi64x :: "u64 \<Rightarrow> ymm" where "mm256_set1_epi64x c = replicate 4 c"
definition mm256_setzero_si256 :: ymm where "mm256_setzero_si256 = replicate 4 0"
definition mm256_srli_epi64 :: "ymm \<Rightarrow> nat \<Rightarrow> ymm" where "mm256_srli_epi64 a k = map (drop_bit k) a"
definition mm256_slli_epi64 :: "ymm \<Rightarrow> nat \<Rightarrow> ymm" where "mm256_slli_epi64 a k = map (push_bit k) a"
definition mm256_add_epi64 :: "ymm \<Rightarrow> ymm \<Rightarrow> ymm" where "mm256_add_epi64 = qlanes2 (+)"
definition mm256_sub_epi64 :: "ymm \<Rightarrow> ymm \<Rightarrow> ymm" where "mm256_sub_epi64 = qlanes2 (-)"
definition mm256_and_si256 :: "ymm \<Rightarrow> ymm \<Rightarrow> ymm" where "mm256_and_si256 = qlanes2 (AND)"
definition mm256_or_si256 :: "ymm \<Rightarrow> ymm \<Rightarrow> ymm" where "mm256_or_si256 = qlanes2 (OR)"

text \<open>The product of the low halves of the lanes, and the signed comparison.\<close>

definition mm256_mul_epu32 :: "ymm \<Rightarrow> ymm \<Rightarrow> ymm" where
  "mm256_mul_epu32 = qlanes2 (\<lambda>x y. take_bit 32 x * take_bit 32 y)"

definition mm256_cmpgt_epi64 :: "ymm \<Rightarrow> ymm \<Rightarrow> ymm" where
  "mm256_cmpgt_epi64 = qlanes2 (\<lambda>x y. if sint x > sint y then - 1 else 0)"

lemmas ymm_defs =
  mm256_set1_epi64x_def mm256_setzero_si256_def mm256_srli_epi64_def mm256_slli_epi64_def
  mm256_add_epi64_def mm256_sub_epi64_def mm256_and_si256_def mm256_or_si256_def
  mm256_mul_epu32_def mm256_cmpgt_epi64_def

section \<open>Division by 62\<close>

definition CHRONOID_KSUID_DIV62_M :: u64 where "CHRONOID_KSUID_DIV62_M = 0x421084210842108"
definition CHRONOID_KSUID_DIV62_M_2N_MINUS_M_TIMES_D :: nat where
  "CHRONOID_KSUID_DIV62_M_2N_MINUS_M_TIMES_D = 16"

definition chronoid_ksuid_mulhi64_avx2 :: "ymm \<Rightarrow> ymm \<Rightarrow> ymm" where
  "chronoid_ksuid_mulhi64_avx2 a b =
     (let mask32 = mm256_set1_epi64x 0xFFFFFFFF;
          a_hi = mm256_srli_epi64 a 32;
          b_hi = mm256_srli_epi64 b 32;
          ll = mm256_mul_epu32 a b;
          lh = mm256_mul_epu32 a b_hi;
          hl = mm256_mul_epu32 a_hi b;
          hh = mm256_mul_epu32 a_hi b_hi;
          ll_hi = mm256_srli_epi64 ll 32;
          lh_lo = mm256_and_si256 lh mask32;
          hl_lo = mm256_and_si256 hl mask32;
          lh_hi = mm256_srli_epi64 lh 32;
          hl_hi = mm256_srli_epi64 hl 32;
          mid_low = mm256_add_epi64 (mm256_add_epi64 lh_lo hl_lo) ll_hi;
          mid_carry = mm256_srli_epi64 mid_low 32
      in mm256_add_epi64 (mm256_add_epi64 hh lh_hi) (mm256_add_epi64 hl_hi mid_carry))"

text \<open>Quotient and remainder, in this order.\<close>

definition chronoid_ksuid_divmod62_avx2 :: "ymm \<Rightarrow> ymm \<Rightarrow> ymm \<times> ymm" where
  "chronoid_ksuid_divmod62_avx2 value mag =
     (let q = chronoid_ksuid_mulhi64_avx2 value mag;
          q62 = mm256_sub_epi64 (mm256_slli_epi64 q 6) (mm256_slli_epi64 q 1);
          r = mm256_sub_epi64 value q62;
          ge62 = mm256_cmpgt_epi64 r (mm256_set1_epi64x 61);
          k62 = mm256_set1_epi64x 62;
          one = mm256_set1_epi64x 1
      in (mm256_add_epi64 q (mm256_and_si256 ge62 one), mm256_sub_epi64 r (mm256_and_si256 ge62 k62)))"

section \<open>One lane\<close>

lemma mulhi_nat:
  fixes A B W :: nat
  assumes "0 < W"
  shows "A * B div (W * W) = (A div W) * (B div W) + A mod W * (B div W) div W + A div W * (B mod W) div W
    + (A mod W * (B div W) mod W + A div W * (B mod W) mod W + A mod W * (B mod W) div W) div W"
proof -
  define al ah bl bh where "al = A mod W" "ah = A div W" "bl = B mod W" "bh = B div W"
  have A: "A = ah * W + al" and B: "B = bh * W + bl" by (simp_all add: al_ah_bl_bh_def)
  define q r s p where "q = al * bh" "r = ah * bl" "s = ah * bh" "p = al * bl"
  have "A * B = ((s * W + q + r) * W) + p"
    unfolding A B q_r_s_p_def by (simp add: algebra_simps)
  then have "A * B div W = s * W + q + r + p div W" using assms by simp
  then have "A * B div (W * W) = (s * W + q + r + p div W) div W" by (simp add: div_mult2_eq)
  also have "s * W + q + r + p div W = (s + q div W + r div W) * W + (q mod W + r mod W + p div W)"
    using div_mult_mod_eq [of q W] div_mult_mod_eq [of r W] by (simp add: algebra_simps)
  also have "\<dots> div W = s + q div W + r div W + (q mod W + r mod W + p div W) div W"
    using assms by simp
  finally show ?thesis unfolding al_ah_bl_bh_def q_r_s_p_def .
qed

definition mulhi_lane :: "u64 \<Rightarrow> u64 \<Rightarrow> u64" where
  "mulhi_lane x y =
     (let ll = take_bit 32 x * take_bit 32 y;
          lh = take_bit 32 x * take_bit 32 (drop_bit 32 y);
          hl = take_bit 32 (drop_bit 32 x) * take_bit 32 y;
          hh = take_bit 32 (drop_bit 32 x) * take_bit 32 (drop_bit 32 y);
          mid_low = (lh AND 0xFFFFFFFF) + (hl AND 0xFFFFFFFF) + drop_bit 32 ll
      in (hh + drop_bit 32 lh) + (drop_bit 32 hl + drop_bit 32 mid_low))"

lemma u64_less: "unat (x :: u64) < 18446744073709551616"
  using unsigned_less [of x, where ?'a = nat] by simp

lemma mulhi_lane_val: "unat (mulhi_lane x y) = unat x * unat y div 2 ^ 64"
proof -
  let ?W = "4294967296 :: nat"
  let ?al = "unat x mod ?W" and ?ah = "unat x div ?W" and ?bl = "unat y mod ?W" and ?bh = "unat y div ?W"
  have lo: "unat (take_bit 32 z) = unat z mod ?W" for z :: u64
    by (simp add: take_bit_eq_mod unat_mod_distrib)
  have hi: "unat (drop_bit 32 z) = unat z div ?W" for z :: u64
    by (simp add: drop_bit_eq_div unat_div_distrib)
  have small: "unat z div ?W < ?W" for z :: u64 using u64_less [of z] by (simp add: less_mult_imp_div_less)
  have mask: "z AND 0xFFFFFFFF = take_bit 32 z" for z :: u64
    by (simp add: take_bit_eq_mask mask_eq_exp_minus_1)
  have prod: "unat (u * v) = unat u * unat v" if "unat u < ?W" "unat v < ?W" for u v :: u64
  proof -
    have "unat u * unat v \<le> (?W - 1) * (?W - 1)" using that by (intro mult_le_mono) simp_all
    then show ?thesis by (simp add: unat_word_ariths)
  qed
  have hi_lo: "unat (take_bit 32 (drop_bit 32 z)) = unat z div ?W" for z :: u64
    using small [of z] by (simp add: lo hi)
  have lo_lt: "unat (take_bit 32 z) < ?W" for z :: u64 by (simp add: lo)
  have hl_lt: "unat (take_bit 32 (drop_bit 32 z)) < ?W" for z :: u64 using small by (simp add: hi_lo)
  have vals: "unat (take_bit 32 x * take_bit 32 y) = ?al * ?bl"
    "unat (take_bit 32 x * take_bit 32 (drop_bit 32 y)) = ?al * ?bh"
    "unat (take_bit 32 (drop_bit 32 x) * take_bit 32 y) = ?ah * ?bl"
    "unat (take_bit 32 (drop_bit 32 x) * take_bit 32 (drop_bit 32 y)) = ?ah * ?bh"
    unfolding prod [OF lo_lt lo_lt] prod [OF lo_lt hl_lt] prod [OF hl_lt lo_lt] prod [OF hl_lt hl_lt] hi_lo
    by (simp_all only: lo)
  define mid where "mid = take_bit 32 (take_bit 32 x * take_bit 32 (drop_bit 32 y))
    + take_bit 32 (take_bit 32 (drop_bit 32 x) * take_bit 32 y) + drop_bit 32 (take_bit 32 x * take_bit 32 y)"
  have sum: "unat (u + v + w) = unat u + unat v + unat w" if "unat u < ?W" "unat v < ?W" "unat w < ?W" for u v w :: u64
    using that by (simp add: unat_word_ariths)
  have mid: "unat mid = ?al * ?bh mod ?W + ?ah * ?bl mod ?W + ?al * ?bl div ?W"
  proof -
    have "unat (drop_bit 32 (take_bit 32 x * take_bit 32 y)) < ?W" using small by (simp add: hi)
    then show ?thesis
      unfolding mid_def sum [OF lo_lt lo_lt] hi vals lo [of "take_bit 32 x * take_bit 32 (drop_bit 32 y)"]
        lo [of "take_bit 32 (drop_bit 32 x) * take_bit 32 y"] by (simp only: sum [OF lo_lt lo_lt] lo hi vals)
  qed
  let ?high = "?ah * ?bh + ?al * ?bh div ?W + ?ah * ?bl div ?W + unat mid div ?W"
  have high: "?high = unat x * unat y div 2 ^ 64"
    using mulhi_nat [of ?W "unat x" "unat y"] by (simp add: mid)
  have "unat x * unat y < 2 ^ 64 * 2 ^ 64" using u64_less [of x] u64_less [of y] by (intro mult_strict_mono) simp_all
  then have lt: "?high < 2 ^ 64" unfolding high by (simp add: less_mult_imp_div_less)
  have nat_sum: "a + b + (c + d) = word_of_nat (unat a + unat b + unat c + unat d)" for a b c d :: u64
    by (simp add: add.assoc)
  have "mulhi_lane x y = word_of_nat ?high"
    unfolding mulhi_lane_def Let_def mask mid_def [symmetric] nat_sum hi vals ..
  then show ?thesis using lt by (simp add: high unat_of_nat)
qed

text \<open>The estimate is the quotient or one less, so that one correction is enough.\<close>

lemma magic_estimate:
  fixes n q :: nat
  assumes "q = n * 0x421084210842108 div 2 ^ 64" "n < 2 ^ 64"
  shows "62 * q \<le> n" "n - 62 * q < 124" "q \<le> n div 62"
proof -
  have q: "q * 18446744073709551616 \<le> n * 297528130221121800"
    "n * 297528130221121800 < q * 18446744073709551616 + 18446744073709551616"
    using div_mult_mod_eq [of "n * 297528130221121800" 18446744073709551616]
      mod_less_divisor [of 18446744073709551616 "n * 297528130221121800"]
    unfolding assms(1) by simp_all
  then show "62 * q \<le> n" by linarith
  then show "q \<le> n div 62" by (simp add: less_eq_div_iff_mult_less_eq mult.commute)
  have "n < 62 * q + 124" using q(2) assms(2) by simp
  then show "n - 62 * q < 124" by linarith
qed

definition divmod62_lane :: "u64 \<Rightarrow> u64 \<times> u64" where
  "divmod62_lane v =
     (let q = mulhi_lane v CHRONOID_KSUID_DIV62_M;
          r = v - (push_bit 6 q - push_bit 1 q);
          ge62 = (if sint r > sint (61 :: u64) then - 1 else 0)
      in (q + (ge62 AND 1), r - (ge62 AND 62)))"

lemma divmod62_lane_val: "divmod62_lane v = (word_of_nat (unat v div 62), word_of_nat (unat v mod 62))"
proof -
  define n where "n = unat v"
  define q where "q = n * 0x421084210842108 div 2 ^ 64"
  have "n < 2 ^ 64" using u64_less [of v] by (simp add: n_def)
  note est = magic_estimate [OF q_def this]
  have Q: "mulhi_lane v CHRONOID_KSUID_DIV62_M = word_of_nat q"
  proof -
    have "unat (mulhi_lane v CHRONOID_KSUID_DIV62_M) = q"
      unfolding mulhi_lane_val q_def n_def by (simp add: CHRONOID_KSUID_DIV62_M_def)
    from this [symmetric] show ?thesis by simp
  qed
  have R: "v - (push_bit 6 (word_of_nat q) - push_bit 1 (word_of_nat q)) = word_of_nat (n - 62 * q)"
  proof -
    have "v = word_of_nat n" by (simp add: n_def)
    moreover have "push_bit 6 (word_of_nat q) - push_bit 1 (word_of_nat q) = (word_of_nat (62 * q) :: u64)"
      by (simp add: push_bit_eq_mult)
    ultimately show ?thesis using est(1) by simp
  qed
  have sint: "sint (word_of_nat r :: u64) = int r" if "r < 124" for r
    using that by (simp add: signed_of_nat signed_take_bit_int_eq_self)
  define r where "r = n - 62 * q"
  have n: "n = 62 * q + r" and r: "r < 124" using est by (simp_all add: r_def)
  have gt: "sint (61 :: u64) < sint (word_of_nat r :: u64) \<longleftrightarrow> 62 \<le> r"
    using sint [OF r] sint [of 61] by auto
  show ?thesis
  proof (cases "62 \<le> r")
    case True
    then have d: "n div 62 = q + 1" "n mod 62 = r - 62"
      using n r by (simp_all add: div_nat_eqI mod_nat_eqI)
    show ?thesis
      unfolding divmod62_lane_def Let_def Q R r_def [symmetric] gt n_def [symmetric] d
      using True by (simp add: of_nat_diff)
  next
    case False
    then have d: "n div 62 = q" "n mod 62 = r" using n by (simp_all add: div_nat_eqI mod_nat_eqI)
    show ?thesis
      unfolding divmod62_lane_def Let_def Q R r_def [symmetric] gt n_def [symmetric] d
      using False by simp
  qed
qed

section \<open>Vectors are lane functions\<close>

lemma qlanes2_map: "qlanes2 f (map a xs) (map b xs) = map (\<lambda>i. f (a i) (b i)) xs"
  by (induction xs) (auto simp: qlanes2_def)

lemma const_lanes: "replicate 4 c = map (\<lambda>_. c) [0..<4]"
  by (simp only: map_replicate_const length_upt diff_zero)

lemma mulhi_lanes:
  "chronoid_ksuid_mulhi64_avx2 (map a [0..<4]) (map b [0..<4]) = map (\<lambda>i. mulhi_lane (a i) (b i)) [0..<4]"
  unfolding chronoid_ksuid_mulhi64_avx2_def mulhi_lane_def Let_def ymm_defs const_lanes list.map_comp
    qlanes2_map comp_def ..

lemma divmod62_lanes:
  "chronoid_ksuid_divmod62_avx2 (map a [0..<4]) (mm256_set1_epi64x CHRONOID_KSUID_DIV62_M) =
     (map (\<lambda>i. fst (divmod62_lane (a i))) [0..<4], map (\<lambda>i. snd (divmod62_lane (a i))) [0..<4])"
  unfolding chronoid_ksuid_divmod62_avx2_def divmod62_lane_def Let_def ymm_defs const_lanes mulhi_lanes
    list.map_comp qlanes2_map comp_def fst_conv snd_conv ..

section \<open>Properties\<close>

text \<open>
  Claim C8. The reciprocal. For every 64-bit value, in every lane, the vector division is the exact
  quotient and remainder by 62: the estimate from the high product never exceeds the quotient and is
  at most one short, and the constant is the one the header pins.
\<close>

theorem avx2_divmod62_exact:
  "chronoid_ksuid_divmod62_avx2 (map a [0..<4]) (mm256_set1_epi64x CHRONOID_KSUID_DIV62_M) =
     (map (\<lambda>i. a i div 62) [0..<4], map (\<lambda>i. a i mod 62) [0..<4])
   \<and> 2 ^ 64 = unat CHRONOID_KSUID_DIV62_M * 62 + CHRONOID_KSUID_DIV62_M_2N_MINUS_M_TIMES_D"
proof -
  have "(word_of_nat (unat v div 62), word_of_nat (unat v mod 62)) = (v div 62, v mod 62)" for v :: u64
    using order.strict_trans1 [OF div_le_dividend u64_less, of v 62]
      order.strict_trans1 [OF mod_less_eq_dividend u64_less, of v 62]
    by (simp add: word_unat_eq_iff unat_div_distrib unat_mod_distrib unat_of_nat)
  then show ?thesis
    unfolding divmod62_lanes divmod62_lane_val
    by (simp add: CHRONOID_KSUID_DIV62_M_def CHRONOID_KSUID_DIV62_M_2N_MINUS_M_TIMES_D_def
        del: upt_rec_numeral)
qed

end
