(* ===== verification/Encode_Batch.thy ===== *)
theory Encode_Batch
  imports Batch Avx2_Div62 Ksuid
begin

text \<open>
  \<open>chronoid/ksuid/encode_batch.c\<close> and the kernel of \<open>encode_avx2.c\<close>: the batch encoder of KSUIDs.
  The AVX2 kernel packs eight identifiers into two vectors per limb and runs 27 columns of long
  division on all of them at once; both kernels meet the contract of \<open>Batch\<close>.
\<close>

section \<open>The kernel\<close>

definition k_avx2_b62_alphabet :: "u8 list" where
  "k_avx2_b62_alphabet =
     bytes_of ''0123456789ABCDEFGHIJKLMNOPQRSTUVWXYZabcdefghijklmnopqrstuvwxyz'' @ [0, 0]"

text \<open>
  Limb \<open>j\<close> of the identifiers \<open>lane0\<close> to \<open>lane0 + 3\<close> of the group: the array of identifiers is read
  as bytes.
\<close>

definition avx2_pack :: "u8 list \<Rightarrow> nat \<Rightarrow> nat \<Rightarrow> ymm" where
  "avx2_pack base_p lane0 j =
     map (\<lambda>lane. ucast (chronoid_be32_load (drop ((lane + lane0) * CHRONOID_KSUID_BYTES + j * 4) base_p))) [0..<4]"

text \<open>One limb of one column: the state is both packs of limbs and both running remainders.\<close>

definition avx2_limb_step :: "nat \<Rightarrow> ymm list \<times> ymm list \<times> ymm \<times> ymm \<Rightarrow> ymm list \<times> ymm list \<times> ymm \<times> ymm" where
  "avx2_limb_step j = (\<lambda>(Llo, Lhi, rem_lo, rem_hi).
     let mag = mm256_set1_epi64x CHRONOID_KSUID_DIV62_M;
         v_lo = mm256_or_si256 (Llo ! j) (mm256_slli_epi64 rem_lo 32);
         v_hi = mm256_or_si256 (Lhi ! j) (mm256_slli_epi64 rem_hi 32);
         (q_lo, r_lo) = chronoid_ksuid_divmod62_avx2 v_lo mag;
         (q_hi, r_hi) = chronoid_ksuid_divmod62_avx2 v_hi mag
     in (Llo[j := q_lo], Lhi[j := q_hi], r_lo, r_hi))"

definition avx2_scatter :: "nat \<Rightarrow> nat \<Rightarrow> u64 list \<Rightarrow> u8 list \<Rightarrow> u8 list run" where
  "avx2_scatter base col rems =
     run_fold (\<lambda>lane out.
       run_bind (peek k_avx2_b62_alphabet (unat (rems ! lane))) (\<lambda>c.
         poke out ((base + lane) * CHRONOID_KSUID_STRING_LEN + col) c)) [0..<8]"

definition avx2_column ::
    "nat \<Rightarrow> nat \<Rightarrow> (ymm list \<times> ymm list) \<times> u8 list \<Rightarrow> ((ymm list \<times> ymm list) \<times> u8 list) run" where
  "avx2_column base col = (\<lambda>((Llo, Lhi), out).
     case fold avx2_limb_step [0..<5] (Llo, Lhi, mm256_setzero_si256, mm256_setzero_si256) of
       (Llo, Lhi, rem_lo, rem_hi) \<Rightarrow>
         run_bind (avx2_scatter base col (rem_lo @ rem_hi) out) (\<lambda>out. Done ((Llo, Lhi), out)))"

definition avx2_group :: "ksuid list \<Rightarrow> nat \<Rightarrow> u8 list \<Rightarrow> u8 list run" where
  "avx2_group ids base out =
     (let base_p = concat (map ksuid_b (drop base ids));
          Llo = map (avx2_pack base_p 0) [0..<5];
          Lhi = map (avx2_pack base_p 4) [0..<5]
      in run_bind (run_fold (avx2_column base) (rev [0..<CHRONOID_KSUID_STRING_LEN]) ((Llo, Lhi), out))
           (\<lambda>(_, out). Done out))"

definition chronoid_ksuid_string_batch_scalar :: "ksuid list \<Rightarrow> u8 list \<Rightarrow> nat \<Rightarrow> u8 list run" where
  "chronoid_ksuid_string_batch_scalar ids out_27n n =
     run_fold (\<lambda>i out.
       run_bind (chronoid_ksuid_format (ids ! i)
           (buf_get out (i * CHRONOID_KSUID_STRING_LEN) CHRONOID_KSUID_STRING_LEN)) (\<lambda>s.
         Done (buf_put out (i * CHRONOID_KSUID_STRING_LEN) s))) [0..<n] out_27n"

text \<open>\<open>n & ~7\<close> is \<open>n div 8 * 8\<close>; the bulk loop runs over the groups of eight.\<close>

definition chronoid_ksuid_string_batch_avx2 :: "ksuid list \<Rightarrow> u8 list \<Rightarrow> nat \<Rightarrow> u8 list run" where
  "chronoid_ksuid_string_batch_avx2 ids out_27n n =
     (let bulk = n div 8 * 8
      in run_bind (run_fold (\<lambda>g. avx2_group ids (g * 8)) [0..<n div 8] out_27n) (\<lambda>out.
        if bulk < n
        then run_bind (chronoid_ksuid_string_batch_scalar (drop bulk ids)
               (drop (bulk * CHRONOID_KSUID_STRING_LEN) out) (n - bulk)) (\<lambda>rest.
               Done (take (bulk * CHRONOID_KSUID_STRING_LEN) out @ rest))
        else Done out))"

section \<open>The public entry\<close>

definition ksuid_batch_call :: "batch_impl \<Rightarrow> ksuid list \<Rightarrow> u8 list \<Rightarrow> nat \<Rightarrow> u8 list run" where
  "ksuid_batch_call f =
     (if f = Batch_avx2 then chronoid_ksuid_string_batch_avx2 else chronoid_ksuid_string_batch_scalar)"

text \<open>The trampoline resolves, stores the pointer and calls it; the result is the output and the pointer.\<close>

definition chronoid_ksuid_string_batch_init_trampoline ::
    "batch_env \<Rightarrow> ksuid list \<Rightarrow> u8 list \<Rightarrow> nat \<Rightarrow> (u8 list \<times> batch_impl) run" where
  "chronoid_ksuid_string_batch_init_trampoline B ids out n =
     (let resolved = resolve_impl B
      in run_bind (ksuid_batch_call resolved ids out n) (\<lambda>out. Done (out, resolved)))"

definition chronoid_ksuid_string_batch ::
    "batch_env \<Rightarrow> batch_impl \<Rightarrow> ksuid list \<Rightarrow> u8 list \<Rightarrow> nat \<Rightarrow> (u8 list \<times> batch_impl) run" where
  "chronoid_ksuid_string_batch B g_batch_impl ids out_27n n =
     (if n = 0 then Done (out_27n, g_batch_impl)
      else if g_batch_impl = Init_trampoline then chronoid_ksuid_string_batch_init_trampoline B ids out_27n n
      else run_bind (ksuid_batch_call g_batch_impl ids out_27n n) (\<lambda>out. Done (out, g_batch_impl)))"

section \<open>One column\<close>

text \<open>Limb \<open>j\<close> of the numbers \<open>V 0, \<dots>, V 3\<close>, as a vector.\<close>

definition limb_vec :: "(nat \<Rightarrow> nat) \<Rightarrow> nat \<Rightarrow> ymm" where
  "limb_vec V j = map (\<lambda>i. word_of_nat (V i div 4294967296 ^ (4 - j) mod 4294967296)) [0..<4]"

definition rem_vec :: "(nat \<Rightarrow> nat) \<Rightarrow> nat \<Rightarrow> ymm" where
  "rem_vec V k = map (\<lambda>i. word_of_nat (V i div 4294967296 ^ (5 - k) mod 62)) [0..<4]"

lemma digit_division:
  fixes P W D :: nat
  assumes "0 < W" "0 < D"
  shows "(P mod W + P div W mod D * W) div D = P div D mod W" "(P mod W + P div W mod D * W) mod D = P mod D"
proof -
  define Q where "Q = P div W"
  define v where "v = P mod W + Q mod D * W"
  have P: "P = v + D * (Q div D * W)"
  proof -
    have "P = Q * W + P mod W" by (simp add: Q_def)
    moreover have "Q * W = (Q div D * D + Q mod D) * W" by simp
    ultimately show ?thesis unfolding v_def by (metis add.commute add.left_commute distrib_right mult.assoc mult.commute)
  qed
  have "v mod D = P mod D" unfolding P by simp
  then show "(P mod W + P div W mod D * W) mod D = P mod D" by (simp add: v_def Q_def)
  have "v < D * W"
  proof -
    have "Suc (Q mod D) * W \<le> D * W" using assms by (intro mult_right_mono) (simp_all add: Suc_leI)
    moreover have "P mod W < W" using assms by simp
    ultimately show ?thesis by (simp add: v_def)
  qed
  then have "v div D < W" by (simp add: less_mult_imp_div_less mult.commute)
  moreover have "P div D = v div D + Q div D * W" unfolding P using assms by simp
  ultimately have "P div D mod W = v div D" by simp
  then show "(P mod W + P div W mod D * W) div D = P div D mod W" by (simp add: v_def Q_def)
qed

lemma limb_division:
  assumes "j < 5"
  shows "chronoid_ksuid_divmod62_avx2 (mm256_or_si256 (limb_vec V j) (mm256_slli_epi64 (rem_vec V j) 32))
      (mm256_set1_epi64x CHRONOID_KSUID_DIV62_M) = (limb_vec (\<lambda>i. V i div 62) j, rem_vec V (Suc j))"
proof -
  let ?W = "4294967296 :: nat"
  have lane: "divmod62_lane (word_of_nat (v div ?W ^ (4 - j) mod ?W) OR push_bit 32 (word_of_nat (v div ?W ^ (5 - j) mod 62))) =
      (word_of_nat (v div 62 div ?W ^ (4 - j) mod ?W), word_of_nat (v div ?W ^ (5 - Suc j) mod 62))" for v
  proof -
    define P where "P = v div ?W ^ (4 - j)"
    have up: "v div ?W ^ (5 - j) = P div ?W"
    proof -
      have "5 - j = Suc (4 - j)" using assms by simp
      then show ?thesis by (simp only: P_def power_Suc2 div_mult2_eq)
    qed
    have "unat (push_bit 32 (word_of_nat (P div ?W mod 62)) OR (word_of_nat (P mod ?W)) :: u64) =
        P div ?W mod 62 * 2 ^ 32 + P mod ?W"
      by (subst unat_or_push [where k = 6]) (simp_all add: unat_of_nat order.strict_trans [OF mod_less_divisor])
    then have u: "unat (word_of_nat (P mod ?W) OR push_bit 32 (word_of_nat (P div ?W mod 62)) :: u64) =
        P mod ?W + P div ?W mod 62 * ?W"
      by (simp add: or.commute)
    have q: "v div 62 div ?W ^ (4 - j) = P div 62" by (simp add: P_def div_mult2_eq [symmetric] mult.commute)
    have "5 - Suc j = 4 - j" by simp
    then show ?thesis
      unfolding up P_def [symmetric] divmod62_lane_val u q
      by (simp only: digit_division [of ?W 62 P, simplified]) (simp add: P_def)
  qed
  show ?thesis
    unfolding limb_vec_def rem_vec_def mm256_or_si256_def mm256_slli_epi64_def list.map_comp qlanes2_map
      comp_def divmod62_lanes lane fst_conv snd_conv ..
qed

definition limb_pack :: "(nat \<Rightarrow> nat) \<Rightarrow> ymm list" where
  "limb_pack V = map (limb_vec V) [0..<5]"

lemma column_prefix:
  assumes "k \<le> 5"
  shows "fold avx2_limb_step [0..<k] (limb_pack V, limb_pack U, rem_vec V 0, rem_vec U 0) =
     (map (\<lambda>j. limb_vec (if j < k then (\<lambda>i. V i div 62) else V) j) [0..<5],
      map (\<lambda>j. limb_vec (if j < k then (\<lambda>i. U i div 62) else U) j) [0..<5], rem_vec V k, rem_vec U k)"
  using assms
proof (induction k)
  case 0
  then show ?case by (simp add: limb_pack_def)
next
  case (Suc k)
  then have k: "k < 5" by simp
  have upd: "(map (\<lambda>j. limb_vec (if j < k then F else G) j) [0..<5])[k := limb_vec F k] =
      map (\<lambda>j. limb_vec (if j < Suc k then F else G) j) [0..<5]" for F G
    by (rule nth_equalityI) (auto simp: nth_list_update less_Suc_eq)
  show ?case
    using Suc.IH k
    by (simp add: avx2_limb_step_def limb_division upd del: upt_rec_numeral)
qed

lemma column_spec:
  assumes "\<forall>i < 4. V i < 2 ^ 160 \<and> U i < 2 ^ 160"
  shows "fold avx2_limb_step [0..<5] (limb_pack V, limb_pack U, mm256_setzero_si256, mm256_setzero_si256) =
     (limb_pack (\<lambda>i. V i div 62), limb_pack (\<lambda>i. U i div 62),
      map (\<lambda>i. word_of_nat (V i mod 62)) [0..<4], map (\<lambda>i. word_of_nat (U i mod 62)) [0..<4])"
proof -
  have zero: "rem_vec F 0 = mm256_setzero_si256" if "\<forall>i < 4. F i < 2 ^ 160" for F
  proof -
    have "F i div 4294967296 ^ 5 = 0" if "i < 4" for i using \<open>\<forall>i < 4. F i < 2 ^ 160\<close> that by (simp add: div_less)
    then show ?thesis
      unfolding rem_vec_def mm256_setzero_si256_def const_lanes by (intro map_cong) simp_all
  qed
  have "map (\<lambda>j. limb_vec (if j < 5 then F else G) j) [0..<5] = limb_pack F" for F G
    unfolding limb_pack_def by (rule map_cong) auto
  then show ?thesis
    using column_prefix [of 5 V U] zero [of V] zero [of U] assms by (simp add: rem_vec_def del: upt_rec_numeral)
qed

section \<open>Scattering the characters\<close>

definition scatter :: "nat \<Rightarrow> nat \<Rightarrow> (nat \<Rightarrow> u8) \<Rightarrow> nat \<Rightarrow> u8 list \<Rightarrow> u8 list" where
  "scatter base col c m out = fold (\<lambda>lane out. out[(base + lane) * 27 + col := c lane]) [0..<m] out"

lemma length_scatter [simp]: "length (scatter base col c m out) = length out"
  by (induction m) (simp_all add: scatter_def)

lemma scatter_nth:
  assumes "col < 27" "p < length out"
  shows "scatter base col c m out ! p =
     (if p mod 27 = col \<and> base \<le> p div 27 \<and> p div 27 < base + m then c (p div 27 - base) else out ! p)"
proof (induction m)
  case 0
  then show ?case by (auto simp: scatter_def)
next
  case (Suc m)
  have step: "scatter base col c (Suc m) out = (scatter base col c m out)[(base + m) * 27 + col := c m]"
    by (simp add: scatter_def)
  have "p = (base + m) * 27 + col \<longleftrightarrow> p mod 27 = col \<and> p div 27 = base + m"
  proof -
    have "(x * 27 + col) mod 27 = col \<and> (x * 27 + col) div 27 = x" for x using assms(1) by simp
    then show ?thesis using div_mult_mod_eq [of p 27] by metis
  qed
  then show ?case using Suc assms(2) by (auto simp: step nth_list_update)
qed

lemma alphabet_char:
  assumes "d < 62"
  shows "k_avx2_b62_alphabet ! d = b62_char d"
proof -
  have "k_avx2_b62_alphabet = kB62Alphabet @ [0]" by (simp add: k_avx2_b62_alphabet_def kB62Alphabet_def)
  moreover have "d < length kB62Alphabet" using assms by simp
  ultimately show ?thesis unfolding b62_char_def by (metis nth_append)
qed

lemma lanes_append: "map f [0..<4] @ map (\<lambda>i. f (i + 4)) [0..<4] = map f [0..<8]"
  by (rule nth_equalityI) (auto simp: nth_append simp del: upt_rec_numeral)

lemma scatter_spec:
  assumes "\<forall>i < 8. R i < 62" "col < 27" "(base + 8) * 27 \<le> length out"
  shows "avx2_scatter base col (map (\<lambda>i. word_of_nat (R i)) [0..<8]) out =
     Done (scatter base col (\<lambda>i. b62_char (R i)) 8 out)"
proof -
  have "length k_avx2_b62_alphabet = 64" by (simp add: k_avx2_b62_alphabet_def)
  then have get: "peek k_avx2_b62_alphabet (unat (word_of_nat (R i) :: u64)) = Done (b62_char (R i))"
    if "i < 8" for i
    using that assms(1) by (auto simp: peek_def alphabet_char unat_of_nat)
  let ?f = "\<lambda>lane out. run_bind (peek k_avx2_b62_alphabet (unat (map (\<lambda>i. word_of_nat (R i) :: u64) [0..<8] ! lane)))
    (\<lambda>c. poke out ((base + lane) * 27 + col) c)"
  have "(base + lane) * 27 + col < length out" if "lane < 8" for lane
    using that assms(2,3) by simp
  then have "run_fold ?f [0..<8] out = Done (fold (\<lambda>lane out. out[(base + lane) * 27 + col := b62_char (R lane)]) [0..<8] out)
      \<and> length (fold (\<lambda>lane out. out[(base + lane) * 27 + col := b62_char (R lane)]) [0..<8] out) = length out"
    by (intro run_fold_pure) (auto simp: get poke_def run_simps)
  then show ?thesis by (simp add: avx2_scatter_def scatter_def del: upt_rec_numeral)
qed

section \<open>A group of eight\<close>

definition columns :: "(nat \<Rightarrow> nat) \<Rightarrow> nat \<Rightarrow> nat \<Rightarrow> u8 list \<Rightarrow> u8 list" where
  "columns V base m out =
     fold (\<lambda>k. scatter base (26 - k) (\<lambda>i. b62_char (V i div 62 ^ k mod 62)) 8) [0..<m] out"

lemma columns_Suc:
  "columns V base (Suc m) out =
     scatter base (26 - m) (\<lambda>i. b62_char (V i div 62 ^ m mod 62)) 8 (columns V base m out)"
  by (simp add: columns_def)

lemma length_columns [simp]: "length (columns V base m out) = length out"
  by (induction m) (simp_all add: columns_Suc, simp add: columns_def)

lemma columns_nth:
  assumes "m \<le> 27" "p < length out"
  shows "columns V base m out ! p =
     (if base \<le> p div 27 \<and> p div 27 < base + 8 \<and> 26 - p mod 27 < m
      then b62_char (V (p div 27 - base) div 62 ^ (26 - p mod 27) mod 62) else out ! p)"
  using assms(1)
proof (induction m)
  case 0
  then show ?case by (simp add: columns_def)
next
  case (Suc m)
  have "p mod 27 = 26 - m \<longleftrightarrow> 26 - p mod 27 = m" using Suc.prems by (auto simp: less_Suc_eq_le)
  then show ?case
    using Suc assms(2) by (auto simp: columns_Suc scatter_nth less_Suc_eq)
qed

lemma columns_run:
  assumes "\<forall>i < 8. V i < 2 ^ 160" "(base + 8) * 27 \<le> length out" "m \<le> 27"
  shows "run_fold (avx2_column base) (map (\<lambda>k. 26 - k) [0..<m]) ((limb_pack V, limb_pack (\<lambda>i. V (i + 4))), out) =
     Done ((limb_pack (\<lambda>i. V i div 62 ^ m), limb_pack (\<lambda>i. V (i + 4) div 62 ^ m)), columns V base m out)"
  using assms(3)
proof (induction m)
  case 0
  then show ?case by (simp add: columns_def)
next
  case (Suc m)
  let ?V = "\<lambda>i. V i div 62 ^ m"
  have lt: "?V i < 2 ^ 160" if "i < 8" for i using assms(1) that by (meson div_le_dividend order.strict_trans1)
  have rems: "map (\<lambda>i. word_of_nat (?V i mod 62)) [0..<4] @ map (\<lambda>i. word_of_nat (?V (i + 4) mod 62)) [0..<4] =
      map (\<lambda>i. word_of_nat (?V i mod 62)) [0..<8]"
    by (rule lanes_append)
  have "avx2_column base (26 - m) ((limb_pack ?V, limb_pack (\<lambda>i. ?V (i + 4))), columns V base m out) =
      Done ((limb_pack (\<lambda>i. ?V i div 62), limb_pack (\<lambda>i. ?V (i + 4) div 62)), columns V base (Suc m) out)"
    using lt assms(2)
    by (simp add: avx2_column_def column_spec rems scatter_spec columns_Suc run_simps del: upt_rec_numeral)
  then show ?case
    using Suc by (simp add: run_fold_append run_simps power_Suc2 div_mult2_eq del: power_Suc)
qed

section \<open>Packing\<close>

lemma be_digits_nth: "j < k \<Longrightarrow> be_digits B k n ! j = n div B ^ (k - 1 - j) mod B"
proof (induction k arbitrary: n)
  case 0
  then show ?case by simp
next
  case (Suc k)
  then show ?case
  proof (cases "j = k")
    case True
    then show ?thesis by (simp add: nth_append)
  next
    case False
    then have j: "j < k" using Suc.prems by simp
    then have "k - j = Suc (k - 1 - j)" by simp
    then have "n div B ^ (k - j) = n div B div B ^ (k - 1 - j)" by (simp only: power_Suc div_mult2_eq)
    then show ?thesis using Suc.IH [OF j, of "n div B"] j by (simp add: nth_append)
  qed
qed

lemma limb_load:
  assumes "length b = 20" "j < 5"
  shows "unat (chronoid_be32_load (drop (j * 4) b)) = bytes_val b div 4294967296 ^ (4 - j) mod 4294967296"
proof -
  let ?ls = "[chronoid_be32_load b, chronoid_be32_load (drop 4 b), chronoid_be32_load (drop 8 b),
    chronoid_be32_load (drop 12 b), chronoid_be32_load (drop 16 b)]"
  have "\<forall>x \<in> set (map unat ?ls). x < 4294967296"
    using unsigned_less [where ?'a = nat and 'b = 32] by auto
  then have "be_digits 4294967296 (length (map unat ?ls)) (bytes_val b) = map unat ?ls"
    unfolding limbs_val [OF assms(1), symmetric] by (rule be_digits_val)
  moreover have "length (map unat ?ls) = 5" by simp
  ultimately have "be_digits 4294967296 5 (bytes_val b) = map unat ?ls" by metis
  then have "map unat ?ls ! j = bytes_val b div 4294967296 ^ (4 - j) mod 4294967296"
    using be_digits_nth [OF assms(2), of 4294967296 "bytes_val b"] by simp
  moreover have "j = 0 \<or> j = 1 \<or> j = 2 \<or> j = 3 \<or> j = 4" using assms(2) by auto
  ultimately show ?thesis by auto
qed

lemma pack_spec:
  assumes "list_all wf_ksuid ids" "base + lane0 + 4 \<le> length ids" "j < 5"
  shows "avx2_pack (concat (map ksuid_b (drop base ids))) lane0 j =
     limb_vec (\<lambda>i. bytes_val (ksuid_b (ids ! (base + lane0 + i)))) j"
proof -
  let ?bs = "map ksuid_b (drop base ids)"
  have all: "\<forall>x \<in> set ?bs. length x = 20"
    using assms(1) by (auto simp: list_all_iff wf_ksuid_def dest: in_set_dropD)
  have "chronoid_be32_load (drop ((i + lane0) * 20 + j * 4) (concat ?bs)) =
      chronoid_be32_load (drop (j * 4) (ksuid_b (ids ! (base + lane0 + i))))" if "i < 4" for i
  proof -
    define b where "b = ksuid_b (ids ! (base + lane0 + i))"
    have at: "take 20 (drop ((i + lane0) * 20) (concat ?bs)) = b"
      using concat_uniform(3) [OF all, of "i + lane0" "[]"] assms(2) that by (simp add: b_def add_ac)
    have lb: "length b = 20" using assms(1,2) that by (simp add: b_def list_all_length wf_ksuid_def)
    then have "length (take 20 (drop ((i + lane0) * 20) (concat ?bs))) = 20" using at by simp
    then have more: "20 \<le> length (drop ((i + lane0) * 20) (concat ?bs))" by simp
    have "take 4 (drop (j * 4) (take 20 q)) = take 4 (drop (j * 4) q)" for q :: "u8 list"
      using assms(3) by (simp add: drop_take min_def)
    then have "take 4 (drop ((i + lane0) * 20 + j * 4) (concat ?bs)) = take 4 (drop (j * 4) b)"
      by (metis at drop_drop add.commute)
    moreover have "4 \<le> length (drop (j * 4) b)" "4 \<le> length (drop ((i + lane0) * 20 + j * 4) (concat ?bs))"
      using lb more assms(3) by auto
    ultimately show ?thesis
      by (metis be32_load_val word_unat_eq_iff b_def)
  qed
  moreover have "length (ksuid_b (ids ! (base + lane0 + i))) = 20" if "i < 4" for i
    using assms(1,2) that by (simp add: list_all_length wf_ksuid_def)
  ultimately show ?thesis
    unfolding avx2_pack_def limb_vec_def
    using assms(3) by (intro map_cong refl) (auto simp: limb_load [symmetric])
qed

section \<open>The kernel meets the contract\<close>

lemma ksuid_val_less: "wf_ksuid k \<Longrightarrow> bytes_val (ksuid_b k) < 2 ^ 160"
  using bytes_val_less [of "ksuid_b k"] by (simp add: wf_ksuid_def)

lemma group_spec:
  assumes "list_all wf_ksuid ids" "base + 8 \<le> length ids" "(base + 8) * 27 \<le> length out"
  shows "avx2_group ids base out =
     Done (buf_put out (base * 27) (concat (map ksuid_text (take 8 (drop base ids)))))"
proof -
  define V where "V = (\<lambda>i. bytes_val (ksuid_b (ids ! (base + i))))"
  have wf: "wf_ksuid (ids ! (base + i))" if "i < 8" for i using assms(1,2) that by (simp add: list_all_length)
  then have V: "\<forall>i < 8. V i < 2 ^ 160" using ksuid_val_less by (simp add: V_def)
  have lo: "map (avx2_pack (concat (map ksuid_b (drop base ids))) 0) [0..<5] = limb_pack V"
    unfolding limb_pack_def V_def using pack_spec [OF assms(1), of base 0] assms(2) by (intro map_cong) auto
  have hi: "map (avx2_pack (concat (map ksuid_b (drop base ids))) 4) [0..<5] = limb_pack (\<lambda>i. V (i + 4))"
    unfolding limb_pack_def V_def using pack_spec [OF assms(1), of base 4] assms(2)
    by (intro map_cong) (auto simp: add_ac)
  have "rev [0..<27] = map (\<lambda>k. 26 - k) [0..<27]" by (rule nth_equalityI) (auto simp: rev_nth simp del: upt_rec_numeral)
  then have run: "avx2_group ids base out = Done (columns V base 27 out)"
    using columns_run [OF V assms(3), of 27]
    by (simp add: avx2_group_def Let_def lo hi run_simps del: upt_rec_numeral)
  let ?ts = "map ksuid_text (take 8 (drop base ids))"
  have ts: "\<forall>x \<in> set ?ts. length x = 27" "length ?ts = 8"
    using assms(2) by (auto simp: ksuid_text_def b62_string_def)
  have "columns V base 27 out = buf_put out (base * 27) (concat ?ts)"
  proof (rule nth_equalityI)
    show "length (columns V base 27 out) = length (buf_put out (base * 27) (concat ?ts))"
      using concat_uniform(1) [OF ts(1)] ts(2) assms(3) by (simp add: buf_put_def)
  next
    fix p assume "p < length (columns V base 27 out)"
    then have p: "p < length out" by simp
    show "columns V base 27 out ! p = buf_put out (base * 27) (concat ?ts) ! p"
    proof (cases "base * 27 \<le> p \<and> p < base * 27 + 216")
      case True
      define l c where "l = (p - base * 27) div 27" "c = (p - base * 27) mod 27"
      have d: "p div 27 = base + l" "p mod 27 = c" "l < 8" "c < 27"
      proof -
        have "p = base * 27 + (p - base * 27)" using True by simp
        then have "p div 27 = base + l \<and> p mod 27 = c"
          unfolding l_c_def by (metis add.commute div_mult_self3 mod_mult_self3 zero_neq_numeral)
        then show "p div 27 = base + l" "p mod 27 = c" by simp_all
        have "p - base * 27 < 8 * 27" using True by linarith
        then show "l < 8" unfolding l_c_def by (rule less_mult_imp_div_less)
        show "c < 27" by (simp add: l_c_def)
      qed
      have "buf_put out (base * 27) (concat ?ts) ! p = concat ?ts ! (p - base * 27)"
      proof -
        have "p - base * 27 < 216" "base * 27 \<le> p" using True by linarith+
        then show ?thesis
          using p concat_uniform(1) [OF ts(1)] ts(2) assms(3) by (simp add: buf_put_def nth_append)
      qed
      also have "\<dots> = ksuid_text (ids ! (base + l)) ! c"
        using concat_uniform(2) [OF ts(1), of "p - base * 27"] ts(2) True d(3) assms(2)
        by (simp add: l_c_def)
      also have "\<dots> = b62_char (V l div 62 ^ (26 - c) mod 62)"
        using d(4) by (simp add: ksuid_text_def b62_string_def be_digits_nth V_def)
      finally have put: "buf_put out (base * 27) (concat ?ts) ! p = b62_char (V l div 62 ^ (26 - c) mod 62)" .
      have "26 - c < 27" by linarith
      then show ?thesis unfolding put using columns_nth [of 27 p out V base] p d by simp
    next
      case False
      then have "\<not> (base \<le> p div 27 \<and> p div 27 < base + 8)" by (auto simp: div_less_iff_less_mult less_eq_div_iff_mult_less_eq)
      then have "columns V base 27 out ! p = out ! p" using columns_nth [of 27 p out V base] p by auto
      moreover have "buf_put out (base * 27) (concat ?ts) ! p = out ! p"
        using False p concat_uniform(1) [OF ts(1)] ts(2) assms(3) by (auto simp: buf_put_def nth_append)
      ultimately show ?thesis by simp
    qed
  qed
  then show ?thesis using run by simp
qed

lemma ksuid_text_length [simp]: "length (ksuid_text k) = 27"
  by (simp add: ksuid_text_def b62_string_def)

lemma scalar_batch_spec:
  assumes "list_all wf_ksuid ids" "n \<le> length ids" "n * 27 \<le> length out"
  shows "chronoid_ksuid_string_batch_scalar ids out n =
     Done (concat (map ksuid_text (take n ids)) @ drop (n * 27) out)"
proof -
  have "run_bind (chronoid_ksuid_format (ids ! g) (buf_get s (g * 27) 27)) (\<lambda>t. Done (buf_put s (g * 27) t)) =
      Done (buf_put s (g * 1 * 27) (concat (map ksuid_text (take 1 (drop (g * 1) ids)))))"
    if "g < n" "length s = length out" for g s
  proof -
    have "(g + 1) * 27 \<le> n * 27" using that(1) by (intro mult_right_mono) simp_all
    then have "length (buf_get s (g * 27) 27) = 27" using that(2) assms(3) by (simp add: len_simps)
    moreover have "take 1 (drop g ids) = [ids ! g]" using that(1) assms(2) by (simp add: take_Suc hd_drop_conv_nth)
    ultimately show ?thesis
      using assms(1,2) that(1) by (simp add: format_refines list_all_length run_simps)
  qed
  then show ?thesis
    using group_loop [of ksuid_text 27 ids n 1 out] assms
    by (simp add: chronoid_ksuid_string_batch_scalar_def list_all_iff)
qed

interpretation ksuid_scalar: batch_kernel ksuid_text 27 wf_ksuid chronoid_ksuid_string_batch_scalar
  by unfold_locales (simp_all add: scalar_batch_spec)

lemma avx2_batch_spec:
  assumes "list_all wf_ksuid ids" "length ids = n" "n * 27 \<le> length out"
  shows "chronoid_ksuid_string_batch_avx2 ids out n = Done (concat (map ksuid_text ids) @ drop (n * 27) out)"
proof -
  let ?m = "n div 8"
  let ?out = "concat (map ksuid_text (take (?m * 8) ids)) @ drop (?m * 8 * 27) out"
  have le: "?m * 8 \<le> n" by simp
  then have le27: "?m * 8 * 27 \<le> n * 27" by (intro mult_right_mono) simp_all
  have bulk: "run_fold (\<lambda>g. avx2_group ids (g * 8)) [0..<?m] out = Done ?out"
  proof (rule group_loop)
    fix g and s :: "u8 list" assume g: "g < ?m" "length s = length out"
    have "(g + 1) * 8 \<le> ?m * 8" using g(1) by (intro mult_right_mono) simp_all
    then have "g * 8 + 8 \<le> n" using le by simp
    then show "avx2_group ids (g * 8) s =
        Done (buf_put s (g * 8 * 27) (concat (map ksuid_text (take 8 (drop (g * 8) ids)))))"
      using assms g(2) by (intro group_spec) simp_all
  qed (use assms le le27 in \<open>auto simp: list_all_iff\<close>)
  have len: "length (concat (map ksuid_text (take (?m * 8) ids))) = ?m * 8 * 27"
    using concat_uniform(1) [of "map ksuid_text (take (?m * 8) ids)" 27] le assms(2) by auto
  show ?thesis
  proof (cases "?m * 8 < n")
    case True
    then show ?thesis
      using ksuid_scalar.tail [OF assms(1,2) le assms(3) len refl] len
      by (simp add: chronoid_ksuid_string_batch_avx2_def bulk run_simps)
  next
    case False
    then have "?m * 8 = n" using le by simp
    then show ?thesis
      using assms(2) by (simp add: chronoid_ksuid_string_batch_avx2_def bulk run_simps)
  qed
qed

interpretation ksuid_avx2: batch_kernel ksuid_text 27 wf_ksuid chronoid_ksuid_string_batch_avx2
  by unfold_locales (simp_all add: avx2_batch_spec)

text \<open>Whatever the pointer holds, the kernel it stands for meets the contract.\<close>

interpretation ksuid_any: batch_kernel ksuid_text 27 wf_ksuid "ksuid_batch_call f"
  by unfold_locales (simp_all add: ksuid_batch_call_def scalar_batch_spec avx2_batch_spec)

section \<open>Properties\<close>

lemma ksuid_batch_runs:
  assumes "list_all wf_ksuid ids" "length ids = n" "n * CHRONOID_KSUID_STRING_LEN \<le> length out"
    and "g = Init_trampoline \<or> g = resolve_impl B"
  shows "chronoid_ksuid_string_batch B g ids out n =
    (if n = 0 then Done (out, g) else Done (concat (map ksuid_text ids) @ drop (n * 27) out, resolve_impl B))"
  using assms ksuid_any.writes [OF assms(1,2), of out "resolve_impl B"]
  by (auto simp: chronoid_ksuid_string_batch_def chronoid_ksuid_string_batch_init_trampoline_def run_simps)

text \<open>
  Claim C3. Batch encoding, whichever kernel dispatch selects (on the first call and on later ones,
  on any processor and build): the output is the texts of the identifiers one after the other, each
  slot exactly what \<open>chronoid_ksuid_format\<close> writes, nothing beyond the last slot changes, no access
  leaves an array, and after the first call that does anything the pointer is resolved.
\<close>

theorem ksuid_string_batch_spec:
  assumes "list_all wf_ksuid ids" "length ids = n" "n * CHRONOID_KSUID_STRING_LEN \<le> length out"
    and "g = Init_trampoline \<or> g = resolve_impl B"
  shows "\<exists>out'. chronoid_ksuid_string_batch B g ids out n =
      Done (out', if n = 0 then g else resolve_impl B)
    \<and> length out' = length out \<and> drop (n * 27) out' = drop (n * 27) out
    \<and> (\<forall>i < n. chronoid_ksuid_format (ids ! i) (buf_get out (i * 27) 27) = Done (buf_get out' (i * 27) 27))"
proof (cases "n = 0")
  case True
  then show ?thesis by (simp add: chronoid_ksuid_string_batch_def)
next
  case False
  let ?out = "concat (map ksuid_text ids) @ drop (n * 27) out"
  have "chronoid_ksuid_string_batch B g ids out n = Done (?out, resolve_impl B)"
    using False ksuid_batch_runs [OF assms] by simp
  moreover have len: "length (concat (map ksuid_text ids)) = n * 27"
    using ksuid_scalar.texts_length [OF assms(1)] assms(2) by simp
  moreover have "chronoid_ksuid_format (ids ! i) (buf_get out (i * 27) 27) = Done (buf_get ?out (i * 27) 27)"
    if "i < n" for i
  proof -
    have "(i + 1) * 27 \<le> n * 27" using that by (intro mult_right_mono) simp_all
    then have "length (buf_get out (i * 27) 27) = 27" using assms(3) by (simp add: len_simps)
    then show ?thesis
      using ksuid_scalar.slot [OF assms(1), of i] that assms(1,2) by (simp add: format_refines list_all_length)
  qed
  ultimately show ?thesis using False assms(3) by auto
qed

lemma ksuid_string_batch_spec_witness:
  "\<exists>out'. chronoid_ksuid_string_batch sample_batch_env Init_trampoline
      (replicate 9 CHRONOID_KSUID_MAX) (replicate 243 0) 9 = Done (out', Batch_avx2)
    \<and> chronoid_ksuid_format CHRONOID_KSUID_MAX (replicate 27 0) = Done (buf_get out' 216 27)"
proof -
  have "list_all wf_ksuid (replicate 9 CHRONOID_KSUID_MAX)" by (simp add: list_all_iff)
  from ksuid_string_batch_spec [OF this, of 9 "replicate 243 0" Init_trampoline sample_batch_env]
  obtain out' where out': "chronoid_ksuid_string_batch sample_batch_env Init_trampoline
      (replicate 9 CHRONOID_KSUID_MAX) (replicate 243 0) 9 = Done (out', Batch_avx2)"
    "\<forall>i < 9. chronoid_ksuid_format (replicate 9 CHRONOID_KSUID_MAX ! i) (buf_get (replicate 243 0) (i * 27) 27)
      = Done (buf_get out' (i * 27) 27)"
    by (auto simp: sample_resolves)
  from out'(2) [THEN spec, of 8] have
    "chronoid_ksuid_format CHRONOID_KSUID_MAX (replicate 27 0) = Done (buf_get out' 216 27)"
    by (simp add: buf_get_def)
  with out'(1) show ?thesis by blast
qed

end
