(* ===== verification/Hex_Batch.thy ===== *)
theory Hex_Batch
  imports Batch Uuidv7
begin

text \<open>
  \<open>chronoid/uuidv7/hex_batch.c\<close> and \<open>hex_avx2.c\<close>: the batch encoder of UUIDv7s. The AVX2 kernel is
  the SSSE3 kernel on two 128-bit lanes at once, two passes for a group of four identifiers.
\<close>

section \<open>Vectors of two 128-bit lanes\<close>

definition lanes128 :: "(vec \<Rightarrow> vec \<Rightarrow> vec) \<Rightarrow> vec \<Rightarrow> vec \<Rightarrow> vec" where
  "lanes128 f a b = f (take 16 a) (take 16 b) @ f (drop 16 a) (drop 16 b)"

definition mm256_loadu_si256 :: "u8 list \<Rightarrow> vec" where "mm256_loadu_si256 p = take 32 p"
definition mm256_broadcastsi128_si256 :: "vec \<Rightarrow> vec" where "mm256_broadcastsi128_si256 a = a @ a"
definition mm256_set1_epi8 :: "u8 \<Rightarrow> vec" where "mm256_set1_epi8 c = replicate 32 c"
definition mm256_srli_epi16 :: "vec \<Rightarrow> nat \<Rightarrow> vec" where "mm256_srli_epi16 a k = mm_srli_epi16 k a"
definition mm256_and_si256b :: "vec \<Rightarrow> vec \<Rightarrow> vec" where "mm256_and_si256b = lanes2 (AND)"
definition mm256_shuffle_epi8 :: "vec \<Rightarrow> vec \<Rightarrow> vec" where "mm256_shuffle_epi8 = lanes128 mm_shuffle_epi8"
definition mm256_unpacklo_epi8 :: "vec \<Rightarrow> vec \<Rightarrow> vec" where "mm256_unpacklo_epi8 = lanes128 mm_unpacklo_epi8"
definition mm256_unpackhi_epi8 :: "vec \<Rightarrow> vec \<Rightarrow> vec" where "mm256_unpackhi_epi8 = lanes128 mm_unpackhi_epi8"
definition mm256_castsi256_si128 :: "vec \<Rightarrow> vec" where "mm256_castsi256_si128 a = take 16 a"
definition mm256_extracti128_si256 :: "vec \<Rightarrow> nat \<Rightarrow> vec" where
  "mm256_extracti128_si256 a i = take 16 (drop (16 * i) a)"

section \<open>The kernels\<close>

definition chronoid_uuidv7_string_batch_scalar :: "bool \<Rightarrow> uuidv7 list \<Rightarrow> u8 list \<Rightarrow> nat \<Rightarrow> u8 list run" where
  "chronoid_uuidv7_string_batch_scalar have_ssse3 ids out_36n n =
     run_fold (\<lambda>i. slot_write (i * CHRONOID_UUIDV7_STRING_LEN) CHRONOID_UUIDV7_STRING_LEN
       (chronoid_uuidv7_format have_ssse3 (ids ! i))) [0..<n] out_36n"

definition chronoid_uuidv7_hex32_avx2 :: "u8 list \<Rightarrow> u8 list \<Rightarrow> u8 list" where
  "chronoid_uuidv7_hex32_avx2 out64 in32 =
     (let v = mm256_loadu_si256 in32;
          lut128 = mm_loadu_si128 kHexLowerLut;
          lut = mm256_broadcastsi128_si256 lut128;
          mask_low = mm256_set1_epi8 0x0F;
          hi_nibbles = mm256_and_si256b (mm256_srli_epi16 v 4) mask_low;
          lo_nibbles = mm256_and_si256b v mask_low;
          ascii_hi = mm256_shuffle_epi8 lut hi_nibbles;
          ascii_lo = mm256_shuffle_epi8 lut lo_nibbles;
          lo_half = mm256_unpacklo_epi8 ascii_hi ascii_lo;
          hi_half = mm256_unpackhi_epi8 ascii_hi ascii_lo;
          out64 = buf_put out64 0 (mm256_castsi256_si128 lo_half);
          out64 = buf_put out64 16 (mm256_castsi256_si128 hi_half);
          out64 = buf_put out64 32 (mm256_extracti128_si256 lo_half 1)
      in buf_put out64 48 (mm256_extracti128_si256 hi_half 1))"

definition chronoid_uuidv7_dash_splice :: "u8 list \<Rightarrow> u8 list \<Rightarrow> u8 list" where
  "chronoid_uuidv7_dash_splice hex32 out36 =
     (let out36 = buf_put out36 0 (buf_get hex32 0 8);
          out36 = out36[8 := HYPHEN];
          out36 = buf_put out36 9 (buf_get hex32 8 4);
          out36 = out36[13 := HYPHEN];
          out36 = buf_put out36 14 (buf_get hex32 12 4);
          out36 = out36[18 := HYPHEN];
          out36 = buf_put out36 19 (buf_get hex32 16 4);
          out36 = out36[23 := HYPHEN]
      in buf_put out36 24 (buf_get hex32 20 12))"

text \<open>One group: \<open>hex\<close> is the uninitialised array of 128 characters.\<close>

definition hex_avx2_group :: "u8 list \<Rightarrow> uuidv7 list \<Rightarrow> nat \<Rightarrow> u8 list \<Rightarrow> u8 list run" where
  "hex_avx2_group hex ids base out =
     (let hex = buf_put hex 0 (chronoid_uuidv7_hex32_avx2 (buf_get hex 0 64) (concat (map uuid_b (drop base ids))));
          hex = buf_put hex 64
            (chronoid_uuidv7_hex32_avx2 (buf_get hex 64 64) (concat (map uuid_b (drop (base + 2) ids))))
      in run_fold (\<lambda>i. slot_write ((base + i) * CHRONOID_UUIDV7_STRING_LEN) CHRONOID_UUIDV7_STRING_LEN
           (chronoid_uuidv7_dash_splice (drop (32 * i) hex))) [0..<4] out)"

text \<open>\<open>n & ~3\<close> is \<open>n div 4 * 4\<close>.\<close>

definition chronoid_uuidv7_string_batch_avx2 ::
    "u8 list \<Rightarrow> bool \<Rightarrow> uuidv7 list \<Rightarrow> u8 list \<Rightarrow> nat \<Rightarrow> u8 list run" where
  "chronoid_uuidv7_string_batch_avx2 hex have_ssse3 ids out_36n n =
     (let bulk = n div 4 * 4
      in run_bind (run_fold (\<lambda>g. hex_avx2_group hex ids (g * 4)) [0..<n div 4] out_36n) (\<lambda>out.
        if bulk < n
        then run_bind (chronoid_uuidv7_string_batch_scalar have_ssse3 (drop bulk ids)
               (drop (bulk * CHRONOID_UUIDV7_STRING_LEN) out) (n - bulk)) (\<lambda>rest.
               Done (take (bulk * CHRONOID_UUIDV7_STRING_LEN) out @ rest))
        else Done out))"

section \<open>The public entry\<close>

definition chronoid_uuidv7_force_scalar_env :: "string option \<Rightarrow> bool" where
  "chronoid_uuidv7_force_scalar_env v =
     (case v of
        None \<Rightarrow> False
      | Some s \<Rightarrow> if s = '''' then False
                  else if s = ''0'' \<or> s = ''false'' \<or> s = ''FALSE'' then False else True)"

definition chronoid_uuidv7_cpu_supports_avx2 :: "toolchain \<Rightarrow> cpu \<Rightarrow> bool" where
  "chronoid_uuidv7_cpu_supports_avx2 tc c =
     (case tc of
        Gnu \<Rightarrow>
          if \<not> builtin_avx2 c then False
          else (case leaf7_ebx c of None \<Rightarrow> False | Some ebx \<Rightarrow> ebx AND push_bit 5 1 \<noteq> 0)
      | Msvc \<Rightarrow>
          if (case leaf7_ebx c of None \<Rightarrow> 0 | Some ebx \<Rightarrow> ebx) AND push_bit 5 1 = 0 then False
          else xgetbv0 c AND 6 = 6
      | Other_compiler \<Rightarrow> False)"

definition uuidv7_batch_call ::
    "u8 list \<Rightarrow> bool \<Rightarrow> batch_impl \<Rightarrow> uuidv7 list \<Rightarrow> u8 list \<Rightarrow> nat \<Rightarrow> u8 list run" where
  "uuidv7_batch_call hex have_ssse3 f =
     (if f = Batch_avx2 then chronoid_uuidv7_string_batch_avx2 hex have_ssse3
      else chronoid_uuidv7_string_batch_scalar have_ssse3)"

definition chronoid_uuidv7_string_batch_init_trampoline ::
    "batch_env \<Rightarrow> u8 list \<Rightarrow> bool \<Rightarrow> uuidv7 list \<Rightarrow> u8 list \<Rightarrow> nat \<Rightarrow> (u8 list \<times> batch_impl) run" where
  "chronoid_uuidv7_string_batch_init_trampoline B hex have_ssse3 ids out n =
     (let resolved =
            (if have_avx2 B \<and> \<not> chronoid_uuidv7_force_scalar_env (force_scalar B)
                \<and> chronoid_uuidv7_cpu_supports_avx2 (compiler B) (processor B)
             then Batch_avx2 else Batch_scalar)
      in run_bind (uuidv7_batch_call hex have_ssse3 resolved ids out n) (\<lambda>out. Done (out, resolved)))"

definition chronoid_uuidv7_string_batch ::
    "batch_env \<Rightarrow> u8 list \<Rightarrow> bool \<Rightarrow> batch_impl \<Rightarrow> uuidv7 list \<Rightarrow> u8 list \<Rightarrow> nat
      \<Rightarrow> (u8 list \<times> batch_impl) run" where
  "chronoid_uuidv7_string_batch B hex have_ssse3 g_hex_batch_impl ids out_36n n =
     (if n = 0 then Done (out_36n, g_hex_batch_impl)
      else if g_hex_batch_impl = Init_trampoline
      then chronoid_uuidv7_string_batch_init_trampoline B hex have_ssse3 ids out_36n n
      else run_bind (uuidv7_batch_call hex have_ssse3 g_hex_batch_impl ids out_36n n)
        (\<lambda>out. Done (out, g_hex_batch_impl)))"

section \<open>Two identifiers in one pass\<close>

lemma interleave_digits:
  assumes "length x = 16"
  shows "mm_unpacklo_epi8 (map (\<lambda>b. hex_char (unat b div 16)) x) (map (\<lambda>b. hex_char (unat b mod 16)) x)
     = hex_digits (take 8 x)"
    and "mm_unpackhi_epi8 (map (\<lambda>b. hex_char (unat b div 16)) x) (map (\<lambda>b. hex_char (unat b mod 16)) x)
     = hex_digits (drop 8 x)"
  using assms
  by (auto elim!: list_16 simp: mm_unpacklo_epi8_def mm_unpackhi_epi8_def hex_digits_def hex_pair_def)

lemma hex_digits_append: "hex_digits (x @ y) = hex_digits x @ hex_digits y"
  by (simp add: hex_digits_def)

lemma hex32_spec:
  assumes "length x = 16" "length y = 16" "length out64 = 64"
  shows "chronoid_uuidv7_hex32_avx2 out64 (x @ y @ rest) = hex_digits x @ hex_digits y"
proof -
  let ?lut = "mm256_broadcastsi128_si256 (mm_loadu_si128 kHexLowerLut)"
  have v: "mm256_loadu_si256 (x @ y @ rest) = x @ y" using assms by (simp add: mm256_loadu_si256_def)
  have hi: "mm256_and_si256b (mm256_srli_epi16 (x @ y) 4) (mm256_set1_epi8 0x0F) = map (drop_bit 4) (x @ y)"
    using assms srli_nibbles [of "x @ y"]
    by (simp add: mm256_and_si256b_def mm256_srli_epi16_def mm256_set1_epi8_def lane_simps)
  have lo: "mm256_and_si256b (x @ y) (mm256_set1_epi8 0x0F) = map (\<lambda>b. b AND 0x0f) (x @ y)"
    using assms by (simp add: mm256_and_si256b_def mm256_set1_epi8_def lane_simps)
  have lut: "take 16 ?lut = mm_loadu_si128 kHexLowerLut" "drop 16 ?lut = mm_loadu_si128 kHexLowerLut"
    by (simp_all add: mm256_broadcastsi128_si256_def mm_loadu_si128_def kHexLowerLut_def)
  have "unat (drop_bit 4 (b :: u8)) < 16" for b using unat_u8_less [of b] by (simp add: high_nibble)
  then have ahi: "mm_shuffle_epi8 (mm_loadu_si128 kHexLowerLut) (map (drop_bit 4) z) =
      map (\<lambda>b. hex_char (unat b div 16)) z" for z
    by (subst shuffle_nibbles) (auto simp: high_nibble)
  have alo: "mm_shuffle_epi8 (mm_loadu_si128 kHexLowerLut) (map (\<lambda>b. b AND 0x0f) z) =
      map (\<lambda>b. hex_char (unat b mod 16)) z" for z
    by (subst shuffle_nibbles) (auto simp: nibbles)
  have shuf: "mm256_shuffle_epi8 ?lut (map f (x @ y)) =
      mm_shuffle_epi8 (mm_loadu_si128 kHexLowerLut) (map f x) @ mm_shuffle_epi8 (mm_loadu_si128 kHexLowerLut) (map f y)" for f
    using assms by (simp add: mm256_shuffle_epi8_def lanes128_def lut)
  have unp: "mm256_unpacklo_epi8 (a @ b) (c @ d) = mm_unpacklo_epi8 a c @ mm_unpacklo_epi8 b d"
    "mm256_unpackhi_epi8 (a @ b) (c @ d) = mm_unpackhi_epi8 a c @ mm_unpackhi_epi8 b d"
    if "length a = 16" "length c = 16" for a b c d
    using that by (simp_all add: mm256_unpacklo_epi8_def mm256_unpackhi_epi8_def lanes128_def)
  have split: "hex_digits z = hex_digits (take 8 z) @ hex_digits (drop 8 z)" for z
    by (simp flip: hex_digits_append)
  show ?thesis
    unfolding chronoid_uuidv7_hex32_avx2_def Let_def v hi lo shuf ahi alo split [of x] split [of y]
    using assms
    by (simp add: unp interleave_digits mm256_castsi256_si128_def mm256_extracti128_si256_def buf_put_def)
qed

lemma splice_text:
  assumes "length bs = 16" "length out = 36"
  shows "chronoid_uuidv7_dash_splice (hex_digits bs @ rest) out = hex_text bs"
proof -
  obtain a b c d e f g h i j k l m n p q where bs: "bs = [a, b, c, d, e, f, g, h, i, j, k, l, m, n, p, q]"
    using list_16 [OF assms(1)] .
  show ?thesis
    using assms(2)
    by (elim list_36)
       (simp add: chronoid_uuidv7_dash_splice_def buf_put_def buf_get_def Let_def bs hex_text_def
         hex_digits_def hex_pair_def)
qed

section \<open>The kernels meet the contract\<close>

lemma uuid_text_length [simp]: "wf_uuidv7 u \<Longrightarrow> length (uuid_text u) = 36"
  by (simp add: uuid_text_def wf_uuidv7_def hex_text_def)

lemma slot_write_text:
  assumes "wf_uuidv7 u" "i < n" "n * 36 \<le> length out" "\<And>b. length b = 36 \<Longrightarrow> f b = uuid_text u"
  shows "slot_write (i * 36) 36 f out = Done (buf_put out (i * 36) (uuid_text u))"
proof -
  have "(i + 1) * 36 \<le> n * 36" using assms(2) by (intro mult_right_mono) simp_all
  then show ?thesis using assms(3,4) by (simp add: slot_write_def len_simps)
qed

lemma hex_scalar_spec:
  assumes "list_all wf_uuidv7 ids" "n \<le> length ids" "n * 36 \<le> length out"
  shows "chronoid_uuidv7_string_batch_scalar ssse3 ids out n =
     Done (concat (map uuid_text (take n ids)) @ drop (n * 36) out)"
proof -
  have "slot_write (g * 36) 36 (chronoid_uuidv7_format ssse3 (ids ! g)) s =
      Done (buf_put s (g * 1 * 36) (concat (map uuid_text (take 1 (drop (g * 1) ids)))))"
    if "g < n" "length s = length out" for g s
  proof -
    have "wf_uuidv7 (ids ! g)" using assms(1,2) that(1) by (simp add: list_all_length)
    then show ?thesis
      using slot_write_text [of "ids ! g" g n s] that assms(2,3)
      by (simp add: uuid_format_refines take_Suc hd_drop_conv_nth)
  qed
  then show ?thesis
    using group_loop [of uuid_text 36 ids n 1 out] assms
    by (simp add: chronoid_uuidv7_string_batch_scalar_def list_all_iff)
qed

interpretation uuid_scalar: batch_kernel uuid_text 36 wf_uuidv7 "chronoid_uuidv7_string_batch_scalar ssse3"
  by unfold_locales (simp_all add: hex_scalar_spec)

lemma hex_array:
  assumes "length a = 16" "length b = 16" "length c = 16" "length d = 16" "length hex = 128"
    and "h = buf_put hex 0 (chronoid_uuidv7_hex32_avx2 (buf_get hex 0 64) (a @ b @ c @ d @ r))"
  shows "buf_put h 64 (chronoid_uuidv7_hex32_avx2 (buf_get h 64 64) (c @ d @ r)) =
     concat (map hex_digits [a, b, c, d])"
  using assms by (simp add: hex32_spec len_simps buf_put_def)

lemma four_slots: "[0..<4] = [0, 1, 2, 3 :: nat]" by (simp add: upt_rec)

lemma put_four:
  assumes "length w = 36" "length x = 36" "length y = 36" "length z = 36" "(base + 4) * 36 \<le> length out"
  shows "fold (\<lambda>i s. buf_put s ((base + i) * 36) ([w, x, y, z] ! i)) [0..<4] out =
     buf_put out (base * 36) (concat [w, x, y, z])"
  using assms by (simp add: four_slots buf_put_def add_mult_distrib add.commute)

lemma hex_group_spec:
  assumes "list_all wf_uuidv7 ids" "base + 4 \<le> length ids" "(base + 4) * 36 \<le> length out" "length hex = 128"
  shows "hex_avx2_group hex ids base out =
     Done (buf_put out (base * 36) (concat (map uuid_text (take 4 (drop base ids)))))"
proof -
  have "Suc (Suc (Suc (Suc 0))) \<le> length (drop base ids)" using assms(2) by simp
  then obtain a b c d r where ids: "drop base ids = a # b # c # d # r"
    by (auto simp: Suc_le_length_iff simp del: length_drop)
  then have ids2: "drop (base + 2) ids = c # d # r"
    by (metis drop_drop add.commute drop_Suc_Cons drop0 numeral_2_eq_2)
  have "set [a, b, c, d] \<subseteq> set (drop base ids)" unfolding ids by auto
  then have wf: "\<forall>u \<in> set [a, b, c, d]. wf_uuidv7 u"
    using assms(1) by (auto simp: list_all_iff dest!: in_set_dropD)
  then have len: "length (uuid_b a) = 16" "length (uuid_b b) = 16" "length (uuid_b c) = 16" "length (uuid_b d) = 16"
    by (simp_all add: wf_uuidv7_def)
  have ids2': "drop (Suc (Suc base)) ids = c # d # r" using ids2 by simp
  define h where "h = buf_put hex 0 (chronoid_uuidv7_hex32_avx2 (buf_get hex 0 64) (concat (map uuid_b (drop base ids))))"
  define all where "all = concat (map hex_digits [uuid_b a, uuid_b b, uuid_b c, uuid_b d])"
  have all: "buf_put h 64 (chronoid_uuidv7_hex32_avx2 (buf_get h 64 64) (concat (map uuid_b (drop (base + 2) ids)))) = all"
    using hex_array [OF len assms(4), of h "concat (map uuid_b r)"]
    by (simp add: all_def h_def ids ids2')
  have sp: "chronoid_uuidv7_dash_splice (drop (32 * i) all) s = uuid_text ([a, b, c, d] ! i)"
    if "i < 4" "length s = 36" for i s
  proof -
    have "i = 0 \<or> i = 1 \<or> i = 2 \<or> i = 3" using that(1) by auto
    then show ?thesis
      using len that(2) by (auto simp: all_def splice_text splice_text [where rest = "[]", simplified] uuid_text_def numeral_2_eq_2 numeral_3_eq_3)
  qed
  have run: "run_fold (\<lambda>i. slot_write ((base + i) * 36) 36 (chronoid_uuidv7_dash_splice (drop (32 * i) all))) [0..<4] out
      = Done (fold (\<lambda>i s. buf_put s ((base + i) * 36) (uuid_text ([a, b, c, d] ! i))) [0..<4] out)"
  proof (rule run_fold_pure [where I = "\<lambda>s. length s = length out", THEN conjunct1])
    fix i and s :: "u8 list" assume "i \<in> set [0..<4]" "length s = length out"
    then have i: "i < 4" "length s = length out" by simp_all
    have w: "wf_uuidv7 ([a, b, c, d] ! i)" using bspec [OF wf nth_mem, of i] i(1) by simp
    have "(base + i + 1) * 36 \<le> (base + 4) * 36" using i(1) by (intro mult_right_mono) simp_all
    then show "slot_write ((base + i) * 36) 36 (chronoid_uuidv7_dash_splice (drop (32 * i) all)) s =
        Done (buf_put s ((base + i) * 36) (uuid_text ([a, b, c, d] ! i)))
      \<and> length (buf_put s ((base + i) * 36) (uuid_text ([a, b, c, d] ! i))) = length out"
      using slot_write_text [OF w, of "base + i" "base + 4" s] w sp [OF i(1)] i assms(3)
      by (simp add: len_simps)
  qed simp
  have "fold (\<lambda>i s. buf_put s ((base + i) * 36) (uuid_text ([a, b, c, d] ! i))) [0..<4] out =
      buf_put out (base * 36) (concat (map uuid_text (take 4 (drop base ids))))"
    using put_four [of "uuid_text a" "uuid_text b" "uuid_text c" "uuid_text d" base out] wf assms(3)
    by (simp add: ids four_slots)
  then show ?thesis
    using run unfolding hex_avx2_group_def Let_def h_def [symmetric] all by metis
qed

lemma hex_avx2_spec:
  assumes "list_all wf_uuidv7 ids" "length ids = n" "n * 36 \<le> length out" "length hex = 128"
  shows "chronoid_uuidv7_string_batch_avx2 hex ssse3 ids out n =
     Done (concat (map uuid_text ids) @ drop (n * 36) out)"
proof -
  let ?m = "n div 4"
  let ?out = "concat (map uuid_text (take (?m * 4) ids)) @ drop (?m * 4 * 36) out"
  have le: "?m * 4 \<le> n" by simp
  then have le36: "?m * 4 * 36 \<le> n * 36" by (intro mult_right_mono) simp_all
  have bulk: "run_fold (\<lambda>g. hex_avx2_group hex ids (g * 4)) [0..<?m] out = Done ?out"
  proof (rule group_loop)
    fix g and s :: "u8 list" assume g: "g < ?m" "length s = length out"
    have "(g + 1) * 4 \<le> ?m * 4" using g(1) by (intro mult_right_mono) simp_all
    then have "g * 4 + 4 \<le> n" using le by simp
    then show "hex_avx2_group hex ids (g * 4) s =
        Done (buf_put s (g * 4 * 36) (concat (map uuid_text (take 4 (drop (g * 4) ids)))))"
      using assms g(2) by (intro hex_group_spec) simp_all
  qed (use assms le le36 in \<open>auto simp: list_all_iff\<close>)
  have len: "length (concat (map uuid_text (take (?m * 4) ids))) = ?m * 4 * 36"
    using uuid_scalar.texts_length [of "take (?m * 4) ids"] assms(1,2) le
    by (auto simp: list_all_iff dest: in_set_takeD)
  show ?thesis
  proof (cases "?m * 4 < n")
    case True
    then show ?thesis
      using uuid_scalar.tail [OF assms(1,2) le assms(3) len refl] len
      by (simp add: chronoid_uuidv7_string_batch_avx2_def bulk run_simps)
  next
    case False
    then have "?m * 4 = n" using le by simp
    then show ?thesis
      using assms(2) by (simp add: chronoid_uuidv7_string_batch_avx2_def bulk run_simps)
  qed
qed

text \<open>
  Whatever the pointer holds, the kernel it stands for meets the contract, for every content of the
  array (here 128 characters of which nothing but the length is used).
\<close>

lemma hex_call_spec:
  assumes "list_all wf_uuidv7 ids" "length ids = n" "n * 36 \<le> length out" "length hex = 128"
  shows "uuidv7_batch_call hex ssse3 f ids out n = Done (concat (map uuid_text ids) @ drop (n * 36) out)"
  using assms by (simp add: uuidv7_batch_call_def hex_scalar_spec hex_avx2_spec)

interpretation uuid_any: batch_kernel uuid_text 36 wf_uuidv7 "uuidv7_batch_call (replicate 128 x) ssse3 f"
  by unfold_locales (simp_all add: hex_call_spec)

section \<open>Properties\<close>

lemma uuidv7_resolves:
  "chronoid_uuidv7_force_scalar_env = chronoid_force_scalar_env"
  "chronoid_uuidv7_cpu_supports_avx2 = chronoid_ksuid_cpu_supports_avx2"
  by (simp_all add: fun_eq_iff chronoid_uuidv7_force_scalar_env_def chronoid_force_scalar_env_def
      chronoid_uuidv7_cpu_supports_avx2_def chronoid_ksuid_cpu_supports_avx2_def)

lemma uuidv7_batch_runs:
  assumes "list_all wf_uuidv7 ids" "length ids = n" "n * CHRONOID_UUIDV7_STRING_LEN \<le> length out"
    and "length hex = 128" "g = Init_trampoline \<or> g = resolve_impl B"
  shows "chronoid_uuidv7_string_batch B hex ssse3 g ids out n =
    (if n = 0 then Done (out, g) else Done (concat (map uuid_text ids) @ drop (n * 36) out, resolve_impl B))"
  using assms hex_call_spec [OF assms(1,2) _ assms(4), of out ssse3 "resolve_impl B"]
  by (auto simp: chronoid_uuidv7_string_batch_def chronoid_uuidv7_string_batch_init_trampoline_def
      uuidv7_resolves resolve_impl_def [symmetric] run_simps)

text \<open>
  Claim C19. Batch encoding of UUIDv7s, whichever kernel dispatch selects and whatever the kernel's
  uninitialised array of 128 characters holds: every slot is exactly what
  \<open>chronoid_uuidv7_format\<close> writes (by the SSSE3 kernel or the scalar one), nothing beyond the last
  slot changes, no access leaves an array, and the first call that does anything resolves the pointer
  to the same kernel as in the KSUID encoder.
\<close>

theorem uuidv7_string_batch_spec:
  assumes "list_all wf_uuidv7 ids" "length ids = n" "n * CHRONOID_UUIDV7_STRING_LEN \<le> length out"
    and "length hex = 128" "g = Init_trampoline \<or> g = resolve_impl B"
  shows "\<exists>out'. chronoid_uuidv7_string_batch B hex ssse3 g ids out n =
      Done (out', if n = 0 then g else resolve_impl B)
    \<and> length out' = length out \<and> drop (n * 36) out' = drop (n * 36) out
    \<and> (\<forall>i < n. chronoid_uuidv7_format ssse3 (ids ! i) (buf_get out (i * 36) 36) = buf_get out' (i * 36) 36)"
proof (cases "n = 0")
  case True
  then show ?thesis by (simp add: chronoid_uuidv7_string_batch_def)
next
  case False
  let ?out = "concat (map uuid_text ids) @ drop (n * 36) out"
  have run: "chronoid_uuidv7_string_batch B hex ssse3 g ids out n = Done (?out, resolve_impl B)"
    using False uuidv7_batch_runs [OF assms] by simp
  have len: "length (concat (map uuid_text ids)) = n * 36"
    using uuid_scalar.texts_length [OF assms(1)] assms(2) by simp
  have "chronoid_uuidv7_format ssse3 (ids ! i) (buf_get out (i * 36) 36) = buf_get ?out (i * 36) 36"
    if "i < n" for i
  proof -
    have "(i + 1) * 36 \<le> n * 36" using that by (intro mult_right_mono) simp_all
    then have "length (buf_get out (i * 36) 36) = 36" using assms(3) by (simp add: len_simps)
    then show ?thesis
      using uuid_scalar.slot [OF assms(1), of i] that assms(1,2)
      by (simp add: uuid_format_refines list_all_length)
  qed
  then show ?thesis using False assms(3) run len by auto
qed

lemma uuidv7_string_batch_spec_witness:
  "\<exists>out'. chronoid_uuidv7_string_batch sample_batch_env (replicate 128 7) True Init_trampoline
      (replicate 5 CHRONOID_UUIDV7_MAX) (replicate 180 0) 5 = Done (out', Batch_avx2)
    \<and> chronoid_uuidv7_format True CHRONOID_UUIDV7_MAX (replicate 36 0) = buf_get out' 144 36"
proof -
  have "list_all wf_uuidv7 (replicate 5 CHRONOID_UUIDV7_MAX)"
    by (simp add: list_all_iff wf_uuidv7_def CHRONOID_UUIDV7_MAX_def)
  from uuidv7_string_batch_spec [OF this, of 5 "replicate 180 0" "replicate 128 7" Init_trampoline
      sample_batch_env True]
  obtain out' where out': "chronoid_uuidv7_string_batch sample_batch_env (replicate 128 7) True Init_trampoline
      (replicate 5 CHRONOID_UUIDV7_MAX) (replicate 180 0) 5 = Done (out', Batch_avx2)"
    "\<forall>i < 5. chronoid_uuidv7_format True (replicate 5 CHRONOID_UUIDV7_MAX ! i)
      (buf_get (replicate 180 0) (i * 36) 36) = buf_get out' (i * 36) 36"
    by (auto simp: sample_resolves)
  from out'(2) [THEN spec, of 4] have
    "chronoid_uuidv7_format True CHRONOID_UUIDV7_MAX (replicate 36 0) = buf_get out' 144 36"
    by (simp add: buf_get_def)
  with out'(1) show ?thesis by blast
qed

end
