(* ===== verification/Cli_Print.thy ===== *)
theory Cli_Print
  imports Generation Batch
begin

text \<open>
  The output half of \<open>examples/chronoid-gen.c\<close>: what of the C library's printing and calendar it
  uses, and its projections of an identifier. A stream is the list of bytes written to it (the
  program ignores the results of its writes, so a write always succeeds here). The build modelled is
  the POSIX one, with a \<open>time_t\<close> of 64 bits.
\<close>

section \<open>Streams and strings\<close>

datatype stream = Stdout | Stderr

record streams =
  out_bytes :: "u8 list"
  err_bytes :: "u8 list"

fun put :: "u8 list \<Rightarrow> stream \<Rightarrow> streams \<Rightarrow> streams" where
  "put s Stdout io = io\<lparr>out_bytes := out_bytes io @ s\<rparr>"
| "put s Stderr io = io\<lparr>err_bytes := err_bytes io @ s\<rparr>"

definition fputc :: "u8 \<Rightarrow> stream \<Rightarrow> streams \<Rightarrow> streams" where
  "fputc c = put [c]"

text \<open>The string at an array: the bytes before the first NUL, which has to be inside the array.\<close>

definition cstring :: "u8 list \<Rightarrow> u8 list run" where
  "cstring s = (if 0 \<in> set s then Done (takeWhile (\<lambda>c. c \<noteq> 0) s) else Undef)"

abbreviation (input) "NEWLINE \<equiv> (10 :: u8)"

definition text_lines :: "string list \<Rightarrow> u8 list" where
  "text_lines ls = concat (map (\<lambda>l. bytes_of l @ [NEWLINE]) ls)"

definition puts :: "u8 list \<Rightarrow> streams \<Rightarrow> streams run" where
  "puts s io = run_bind (cstring s) (\<lambda>t. Done (put (t @ [NEWLINE]) Stdout io))"

definition fputs :: "u8 list \<Rightarrow> stream \<Rightarrow> streams \<Rightarrow> streams run" where
  "fputs s f io = run_bind (cstring s) (\<lambda>t. Done (put t f io))"

section \<open>Conversions of \<open>printf\<close>\<close>

fun radix :: "nat \<Rightarrow> nat \<Rightarrow> nat list" where
  "radix B n = (if B < 2 \<or> n < B then [n] else radix B (n div B) @ [n mod B])"

declare radix.simps [simp del]

definition DIGITS :: "u8 list" where "DIGITS = bytes_of ''0123456789ABCDEF''"

definition fmt_u :: "nat \<Rightarrow> u8 list" where "fmt_u n = map ((!) DIGITS) (radix 10 n)"
definition fmt_d :: "int \<Rightarrow> u8 list" where
  "fmt_d i = (if i < 0 then 45 # fmt_u (nat (- i)) else fmt_u (nat i))"
definition fmt_X :: "nat \<Rightarrow> u8 list" where "fmt_X n = map ((!) DIGITS) (radix 16 n)"
definition zero_pad :: "nat \<Rightarrow> u8 list \<Rightarrow> u8 list" where "zero_pad w s = replicate (w - length s) 48 @ s"

section \<open>The calendar\<close>

record tm =
  tm_year :: int
  tm_mon :: nat
  tm_mday :: int
  tm_hour :: int
  tm_min :: int
  tm_sec :: int
  tm_gmtoff :: int
  tm_zone :: "u8 list"

definition is_leap :: "int \<Rightarrow> bool" where
  "is_leap y \<longleftrightarrow> y mod 4 = 0 \<and> (y mod 100 \<noteq> 0 \<or> y mod 400 = 0)"

definition year_days :: "int \<Rightarrow> int" where "year_days y = (if is_leap y then 366 else 365)"

definition month_days :: "int \<Rightarrow> int list" where
  "month_days y = [31, if is_leap y then 29 else 28, 31, 30, 31, 30, 31, 31, 30, 31, 30, 31]"

text \<open>The year, counted from \<open>y\<close>, in which day \<open>d\<close> falls, and its day of that year.\<close>

function find_year :: "int \<Rightarrow> int \<Rightarrow> int \<times> int" where
  "find_year y d = (if d < year_days y then (y, d) else find_year (y + 1) (d - year_days y))"
  by auto
termination by (relation "measure (\<lambda>(y, d). nat d)") (auto simp: year_days_def split: if_splits)

declare find_year.simps [simp del]

fun find_month :: "nat \<Rightarrow> int list \<Rightarrow> int \<Rightarrow> nat \<times> int" where
  "find_month m [] d = (m, d)"
| "find_month m (l # ls) d = (if d < l then (m, d) else find_month (m + 1) ls (d - l))"

text \<open>
  The Gregorian calendar repeats after 400 years of 146097 days; day 0 is 1970-01-01. \<open>off\<close> is the
  distance of the zone's clock from UTC, in seconds.
\<close>

definition broken_down :: "int \<Rightarrow> int \<Rightarrow> u8 list \<Rightarrow> tm" where
  "broken_down t off zone =
     (let s = t + off;
          d = s div 86400;
          r = s mod 86400;
          (y, yd) = find_year (1970 + 400 * (d div 146097)) (d mod 146097);
          (m, md) = find_month 0 (month_days y) yd
      in \<lparr>tm_year = y - 1900, tm_mon = m, tm_mday = md + 1, tm_hour = r div 3600,
          tm_min = r mod 3600 div 60, tm_sec = r mod 60, tm_gmtoff = off, tm_zone = zone\<rparr>)"

text \<open>\<open>tm_year\<close> is an \<open>int\<close> of 32 bits: a year it cannot hold makes the conversion fail.\<close>

definition tm_checked :: "tm \<Rightarrow> tm option" where
  "tm_checked x = (if - (2 ^ 31) \<le> tm_year x \<and> tm_year x < 2 ^ 31 then Some x else None)"

definition gmtime_r :: "int \<Rightarrow> tm option" where
  "gmtime_r t = tm_checked (broken_down t 0 (bytes_of ''GMT''))"

text \<open>The zone database of the machine: offset and abbreviation in force at a time.\<close>

type_synonym zones = "int \<Rightarrow> int \<times> u8 list"

definition localtime_r :: "zones \<Rightarrow> int \<Rightarrow> tm option" where
  "localtime_r tz t = (case tz t of (off, zone) \<Rightarrow> tm_checked (broken_down t off zone))"

definition strftime_conv :: "char \<Rightarrow> tm \<Rightarrow> u8 list" where
  "strftime_conv c x =
     (if c = CHR ''Y'' then fmt_d (tm_year x + 1900)
      else if c = CHR ''m'' then zero_pad 2 (fmt_d (int (tm_mon x) + 1))
      else if c = CHR ''d'' then zero_pad 2 (fmt_d (tm_mday x))
      else if c = CHR ''H'' then zero_pad 2 (fmt_d (tm_hour x))
      else if c = CHR ''M'' then zero_pad 2 (fmt_d (tm_min x))
      else if c = CHR ''S'' then zero_pad 2 (fmt_d (tm_sec x))
      else if c = CHR ''z'' then
        (let mins = \<bar>tm_gmtoff x\<bar> div 60
         in (if tm_gmtoff x < 0 then 45 else 43) # zero_pad 4 (fmt_d (mins div 60 * 100 + mins mod 60)))
      else if c = CHR ''Z'' then tm_zone x
      else [])"

fun strftime_text :: "string \<Rightarrow> tm \<Rightarrow> u8 list" where
  "strftime_text [] x = []"
| "strftime_text [c] x = bytes_of [c]"
| "strftime_text (c # d # cs) x =
     (if c = CHR ''%'' then strftime_conv d x @ strftime_text cs x
      else bytes_of [c] @ strftime_text (d # cs) x)"

text \<open>The length written without the NUL, and the text; 0 when text and NUL do not fit.\<close>

definition strftime :: "nat \<Rightarrow> string \<Rightarrow> tm \<Rightarrow> nat \<times> u8 list" where
  "strftime maxsize fmt x =
     (let s = strftime_text fmt x in if length s + 1 \<le> maxsize then (length s, s) else (0, []))"

section \<open>Times\<close>

definition fputs_hex_upper :: "u8 list \<Rightarrow> nat \<Rightarrow> stream \<Rightarrow> streams \<Rightarrow> streams" where
  "fputs_hex_upper bytes n f io =
     fold (\<lambda>i io.
       let io = fputc (DIGITS ! unat (drop_bit 4 (bytes ! i) AND 0xf)) f io
       in fputc (DIGITS ! unat (bytes ! i AND 0xf)) f io) [0..<n] io"

definition fputs_time_local :: "zones \<Rightarrow> i64 \<Rightarrow> stream \<Rightarrow> streams \<Rightarrow> streams" where
  "fputs_time_local tz unix_seconds f io =
     (let t = unix_seconds
      in case localtime_r tz t of
           None \<Rightarrow> put (fmt_d unix_seconds) f io
         | Some x \<Rightarrow>
             (case strftime 64 ''%Y-%m-%d %H:%M:%S %z %Z'' x of (len, buf) \<Rightarrow>
                let buf = if len = 0 then fmt_d unix_seconds else buf
                in put buf f io))"

text \<open>C division rounds towards zero (\<open>b\<close> is positive).\<close>

definition cdiv :: "int \<Rightarrow> int \<Rightarrow> int" where "cdiv a b = (if a < 0 then - (- a div b) else a div b)"
definition cmod :: "int \<Rightarrow> int \<Rightarrow> int" where "cmod a b = a - cdiv a b * b"

definition fputs_time_utc_ms :: "i64 \<Rightarrow> stream \<Rightarrow> streams \<Rightarrow> streams" where
  "fputs_time_utc_ms unix_ms f io =
     (let secs = cdiv unix_ms 1000;
          ms = cmod unix_ms 1000;
          (ms, secs) = (if ms < 0 then (ms + 1000, secs - 1) else (ms, secs));
          t = secs
      in case gmtime_r t of
           None \<Rightarrow> put (fmt_d unix_ms) f io
         | Some x \<Rightarrow>
             (case strftime 64 ''%Y-%m-%d %H:%M:%S'' x of (len, buf) \<Rightarrow>
                if len = 0 then put (fmt_d unix_ms) f io
                else put (buf @ [46] @ zero_pad 3 (fmt_d ms) @ bytes_of '' +0000 UTC'') f io))"

section \<open>Projections of a KSUID\<close>

text \<open>
  What a run of the program finds around it: the build and the processor, the system, the machine's
  time zones, the range of \<open>long\<close>, and the contents \<open>junk\<close> of arrays that are not initialised.
\<close>

record machine =
  build :: config
  sys :: env
  simd :: simd_target
  ssse3 :: bool
  zone_info :: zones
  long_max :: int
  junk :: "nat \<Rightarrow> u8"

definition uninit :: "machine \<Rightarrow> nat \<Rightarrow> u8 list" where "uninit C n = map (junk C) [0..<n]"

text \<open>\<open>char s[27 + 1]; chronoid_ksuid_format (id, s); s[27] = 0;\<close>\<close>

definition ksuid_cstr :: "machine \<Rightarrow> ksuid \<Rightarrow> u8 list run" where
  "ksuid_cstr C i =
     (let s = uninit C (CHRONOID_KSUID_STRING_LEN + 1)
      in run_bind (chronoid_ksuid_format i (buf_get s 0 CHRONOID_KSUID_STRING_LEN)) (\<lambda>t.
           poke (buf_put s 0 t) CHRONOID_KSUID_STRING_LEN 0))"

definition print_string :: "machine \<Rightarrow> ksuid \<Rightarrow> streams \<Rightarrow> streams run" where
  "print_string C i io = run_bind (ksuid_cstr C i) (\<lambda>s. puts s io)"

definition print_inspect :: "machine \<Rightarrow> ksuid \<Rightarrow> streams \<Rightarrow> streams run" where
  "print_inspect C i io =
     run_bind (ksuid_cstr C i) (\<lambda>s. run_bind (cstring s) (\<lambda>s.
       let io = put (text_lines ['''', ''REPRESENTATION:'', ''''] @ bytes_of ''  String: '' @ s @ [NEWLINE]
                  @ bytes_of ''     Raw: '') Stdout io;
           io = fputs_hex_upper (ksuid_b i) CHRONOID_KSUID_BYTES Stdout io;
           io = put (text_lines ['''', '''', ''COMPONENTS:'', ''''] @ bytes_of ''       Time: '') Stdout io;
           io = fputs_time_local (zone_info C) (chronoid_ksuid_time_unix i) Stdout io;
           io = put (text_lines [''''] @ bytes_of ''  Timestamp: '' @ fmt_u (unat (chronoid_ksuid_timestamp i))
                  @ [NEWLINE] @ bytes_of ''    Payload: '') Stdout io;
           io = fputs_hex_upper (chronoid_ksuid_payload i) CHRONOID_KSUID_PAYLOAD_LEN Stdout io
       in Done (put (text_lines ['''', '''']) Stdout io)))"

definition print_time :: "machine \<Rightarrow> ksuid \<Rightarrow> streams \<Rightarrow> streams run" where
  "print_time C i io =
     Done (fputc NEWLINE Stdout (fputs_time_local (zone_info C) (chronoid_ksuid_time_unix i) Stdout io))"

definition print_timestamp :: "ksuid \<Rightarrow> streams \<Rightarrow> streams run" where
  "print_timestamp i io = Done (put (fmt_u (unat (chronoid_ksuid_timestamp i)) @ [NEWLINE]) Stdout io)"

definition print_payload :: "ksuid \<Rightarrow> streams \<Rightarrow> streams run" where
  "print_payload i io =
     Done (put (take CHRONOID_KSUID_PAYLOAD_LEN (chronoid_ksuid_payload i)) Stdout io)"

definition print_raw :: "ksuid \<Rightarrow> streams \<Rightarrow> streams run" where
  "print_raw i io = Done (put (take CHRONOID_KSUID_BYTES (ksuid_b i)) Stdout io)"

datatype out_format = FMT_STRING | FMT_INSPECT | FMT_TIME | FMT_TIMESTAMP | FMT_PAYLOAD | FMT_RAW

datatype id_format = IDFMT_KSUID | IDFMT_UUIDV7

definition print_one_ksuid :: "machine \<Rightarrow> out_format \<Rightarrow> ksuid \<Rightarrow> bool \<Rightarrow> streams \<Rightarrow> streams run" where
  "print_one_ksuid C format i verbose io =
     run_bind
       (if verbose
        then run_bind (ksuid_cstr C i) (\<lambda>s. run_bind (fputs s Stdout io) (\<lambda>io.
               Done (put (bytes_of '': '') Stdout io)))
        else Done io)
       (\<lambda>io. case format of
          FMT_STRING \<Rightarrow> print_string C i io
        | FMT_INSPECT \<Rightarrow> print_inspect C i io
        | FMT_TIME \<Rightarrow> print_time C i io
        | FMT_TIMESTAMP \<Rightarrow> print_timestamp i io
        | FMT_PAYLOAD \<Rightarrow> print_payload i io
        | FMT_RAW \<Rightarrow> print_raw i io)"

section \<open>Projections of a UUIDv7\<close>

definition uuidv7_cstr :: "machine \<Rightarrow> uuidv7 \<Rightarrow> u8 list run" where
  "uuidv7_cstr C i =
     (let s = uninit C (CHRONOID_UUIDV7_STRING_LEN + 1);
          t = chronoid_uuidv7_format (ssse3 C) i (buf_get s 0 CHRONOID_UUIDV7_STRING_LEN)
      in poke (buf_put s 0 t) CHRONOID_UUIDV7_STRING_LEN 0)"

definition print_string_uuidv7 :: "machine \<Rightarrow> uuidv7 \<Rightarrow> streams \<Rightarrow> streams run" where
  "print_string_uuidv7 C i io = run_bind (uuidv7_cstr C i) (\<lambda>s. puts s io)"

definition print_inspect_uuidv7 :: "machine \<Rightarrow> uuidv7 \<Rightarrow> streams \<Rightarrow> streams run" where
  "print_inspect_uuidv7 C i io =
     run_bind (uuidv7_cstr C i) (\<lambda>s. run_bind (cstring s) (\<lambda>s.
       let rand_a_12 = push_bit 8 (ucast (uuid_b i ! 6 AND 0x0f)) OR ucast (uuid_b i ! 7) :: u16;
           variant = ucast (chronoid_uuidv7_variant i) :: u32;
           io = put (text_lines ['''', ''REPRESENTATION:'', ''''] @ bytes_of ''  String: '' @ s @ [NEWLINE]
                  @ bytes_of ''     Raw: '') Stdout io;
           io = fputs_hex_upper (uuid_b i) CHRONOID_UUIDV7_BYTES Stdout io;
           io = put (text_lines ['''', '''', ''COMPONENTS:'', ''''] @ bytes_of ''       Time: '') Stdout io;
           io = fputs_time_utc_ms (chronoid_uuidv7_unix_ms i) Stdout io;
           io = put (text_lines [''''] @ bytes_of ''  Timestamp: '' @ fmt_d (chronoid_uuidv7_unix_ms i) @ [NEWLINE]
                  @ bytes_of ''    Version: '' @ fmt_u (unat (chronoid_uuidv7_version i)) @ [NEWLINE]
                  @ bytes_of ''    Variant: 0b'' @ fmt_u (unat (drop_bit 1 variant AND 1))
                  @ fmt_u (unat (variant AND 1)) @ bytes_of '' (RFC 4122 / 9562)'' @ [NEWLINE]
                  @ bytes_of ''     rand_a: 0x'' @ zero_pad 3 (fmt_X (unat rand_a_12)) @ [NEWLINE]
                  @ bytes_of ''     rand_b: '') Stdout io;
           io = fputs_hex_upper (drop 8 (uuid_b i)) 8 Stdout io
       in Done (put (text_lines ['''', '''']) Stdout io)))"

definition print_time_uuidv7 :: "uuidv7 \<Rightarrow> streams \<Rightarrow> streams run" where
  "print_time_uuidv7 i io =
     Done (fputc NEWLINE Stdout (fputs_time_utc_ms (chronoid_uuidv7_unix_ms i) Stdout io))"

definition print_timestamp_uuidv7 :: "uuidv7 \<Rightarrow> streams \<Rightarrow> streams run" where
  "print_timestamp_uuidv7 i io = Done (put (fmt_d (chronoid_uuidv7_unix_ms i) @ [NEWLINE]) Stdout io)"

definition print_raw_uuidv7 :: "uuidv7 \<Rightarrow> streams \<Rightarrow> streams run" where
  "print_raw_uuidv7 i io = Done (put (take CHRONOID_UUIDV7_BYTES (uuid_b i)) Stdout io)"

definition print_one_uuidv7 :: "machine \<Rightarrow> out_format \<Rightarrow> uuidv7 \<Rightarrow> bool \<Rightarrow> streams \<Rightarrow> streams run" where
  "print_one_uuidv7 C format i verbose io =
     run_bind
       (if verbose
        then run_bind (uuidv7_cstr C i) (\<lambda>s. run_bind (fputs s Stdout io) (\<lambda>io.
               Done (put (bytes_of '': '') Stdout io)))
        else Done io)
       (\<lambda>io. case format of
          FMT_STRING \<Rightarrow> print_string_uuidv7 C i io
        | FMT_INSPECT \<Rightarrow> print_inspect_uuidv7 C i io
        | FMT_TIME \<Rightarrow> print_time_uuidv7 i io
        | FMT_TIMESTAMP \<Rightarrow> print_timestamp_uuidv7 i io
        | FMT_RAW \<Rightarrow> print_raw_uuidv7 i io
        | FMT_PAYLOAD \<Rightarrow> Done io)"

section \<open>What the projections write\<close>

lemma put_put [simp]: "put t f (put s f io) = put (s @ t) f io"
  by (cases f) simp_all

lemma put_nil [simp]: "put [] f io = io"
  by (cases f) simp_all

definition hex_upper :: "u8 list \<Rightarrow> u8 list" where
  "hex_upper bs = concat (map (\<lambda>b. [DIGITS ! (unat b div 16), DIGITS ! (unat b mod 16)]) bs)"

lemma fputs_hex_upper_put:
  assumes "n \<le> length bs"
  shows "fputs_hex_upper bs n f io = put (hex_upper (take n bs)) f io"
  using assms
proof (induction n)
  case 0
  then show ?case by (simp add: fputs_hex_upper_def hex_upper_def)
next
  case (Suc n)
  show ?case
    using Suc
    by (simp add: fputs_hex_upper_def Let_def fputc_def nibbles nibbles_mod take_Suc_conv_app_nth hex_upper_def
        del: upt_rec_numeral)
qed

definition time_local_text :: "zones \<Rightarrow> i64 \<Rightarrow> u8 list" where
  "time_local_text tz s =
     (case localtime_r tz s of
        None \<Rightarrow> fmt_d s
      | Some x \<Rightarrow> let t = strftime_text ''%Y-%m-%d %H:%M:%S %z %Z'' x in if t = [] \<or> 64 \<le> length t then fmt_d s else t)"

lemma fputs_time_local_put: "fputs_time_local tz s f io = put (time_local_text tz s) f io"
  by (auto simp: fputs_time_local_def time_local_text_def strftime_def Let_def split: option.splits)

definition time_utc_ms_text :: "i64 \<Rightarrow> u8 list" where
  "time_utc_ms_text ms =
     (case gmtime_r (ms div 1000) of
        None \<Rightarrow> fmt_d ms
      | Some x \<Rightarrow> let t = strftime_text ''%Y-%m-%d %H:%M:%S'' x
          in if t = [] \<or> 64 \<le> length t then fmt_d ms
             else t @ [46] @ zero_pad 3 (fmt_d (ms mod 1000)) @ bytes_of '' +0000 UTC'')"

text \<open>The defensive branch makes the division floor on negative times too.\<close>

lemma floor_split:
  "(if cmod a 1000 < 0 then (cmod a 1000 + 1000, cdiv a 1000 - 1) else (cmod a 1000, cdiv a 1000)) =
     (a mod 1000, a div 1000)"
proof (cases "a < 0")
  case True
  define q r where "q = - a div 1000" "r = - a mod 1000"
  have a: "a = - (q * 1000 + r)" "0 \<le> r" "r < 1000" by (simp_all add: q_r_def)
  have "a div 1000 = (if r = 0 then - q else - q - 1)" using a by (cases "r = 0"; simp; linarith)
  moreover from this have "a mod 1000 = (if r = 0 then 0 else 1000 - r)"
    using a minus_div_mult_eq_mod [of a 1000] by (auto split: if_splits)
  moreover have "cdiv a 1000 = - q" "cmod a 1000 = - r"
    using True a by (simp_all add: cdiv_def cmod_def q_r_def [symmetric])
  ultimately show ?thesis using a by auto
next
  case False
  then show ?thesis by (simp add: cdiv_def cmod_def minus_div_mult_eq_mod)
qed

lemma fputs_time_utc_ms_put: "fputs_time_utc_ms ms f io = put (time_utc_ms_text ms) f io"
  unfolding fputs_time_utc_ms_def Let_def floor_split
  by (auto simp: time_utc_ms_text_def strftime_def Let_def split: option.splits)

definition ksuid_view :: "machine \<Rightarrow> out_format \<Rightarrow> ksuid \<Rightarrow> u8 list" where
  "ksuid_view C format k =
     (case format of
        FMT_STRING \<Rightarrow> ksuid_text k @ [NEWLINE]
      | FMT_INSPECT \<Rightarrow>
          text_lines ['''', ''REPRESENTATION:'', ''''] @ bytes_of ''  String: '' @ ksuid_text k @ [NEWLINE]
          @ bytes_of ''     Raw: '' @ hex_upper (ksuid_b k)
          @ text_lines ['''', '''', ''COMPONENTS:'', ''''] @ bytes_of ''       Time: ''
          @ time_local_text (zone_info C) (chronoid_ksuid_time_unix k)
          @ text_lines [''''] @ bytes_of ''  Timestamp: '' @ fmt_u (unat (chronoid_ksuid_timestamp k)) @ [NEWLINE]
          @ bytes_of ''    Payload: '' @ hex_upper (chronoid_ksuid_payload k) @ text_lines ['''', '''']
      | FMT_TIME \<Rightarrow> time_local_text (zone_info C) (chronoid_ksuid_time_unix k) @ [NEWLINE]
      | FMT_TIMESTAMP \<Rightarrow> fmt_u (unat (chronoid_ksuid_timestamp k)) @ [NEWLINE]
      | FMT_PAYLOAD \<Rightarrow> chronoid_ksuid_payload k
      | FMT_RAW \<Rightarrow> ksuid_b k)"

definition uuidv7_view :: "out_format \<Rightarrow> uuidv7 \<Rightarrow> u8 list" where
  "uuidv7_view format u =
     (case format of
        FMT_STRING \<Rightarrow> uuid_text u @ [NEWLINE]
      | FMT_INSPECT \<Rightarrow>
          text_lines ['''', ''REPRESENTATION:'', ''''] @ bytes_of ''  String: '' @ uuid_text u @ [NEWLINE]
          @ bytes_of ''     Raw: '' @ hex_upper (uuid_b u)
          @ text_lines ['''', '''', ''COMPONENTS:'', ''''] @ bytes_of ''       Time: ''
          @ time_utc_ms_text (chronoid_uuidv7_unix_ms u)
          @ text_lines [''''] @ bytes_of ''  Timestamp: '' @ fmt_d (chronoid_uuidv7_unix_ms u) @ [NEWLINE]
          @ bytes_of ''    Version: '' @ fmt_u (unat (uuid_b u ! 6) div 16) @ [NEWLINE]
          @ bytes_of ''    Variant: 0b'' @ fmt_u (unat (uuid_b u ! 8) div 128)
          @ fmt_u (unat (uuid_b u ! 8) div 64 mod 2) @ bytes_of '' (RFC 4122 / 9562)'' @ [NEWLINE]
          @ bytes_of ''     rand_a: 0x''
          @ zero_pad 3 (fmt_X (unat (uuid_b u ! 6) mod 16 * 256 + unat (uuid_b u ! 7))) @ [NEWLINE]
          @ bytes_of ''     rand_b: '' @ hex_upper (drop 8 (uuid_b u)) @ text_lines ['''', '''']
      | FMT_TIME \<Rightarrow> time_utc_ms_text (chronoid_uuidv7_unix_ms u) @ [NEWLINE]
      | FMT_TIMESTAMP \<Rightarrow> fmt_d (chronoid_uuidv7_unix_ms u) @ [NEWLINE]
      | FMT_PAYLOAD \<Rightarrow> []
      | FMT_RAW \<Rightarrow> uuid_b u)"

lemma cstring_text: "0 \<notin> set t \<Longrightarrow> cstring (t @ 0 # r) = Done t"
proof -
  assume "0 \<notin> set t"
  then have "takeWhile (\<lambda>c. c \<noteq> 0) (t @ 0 # r) = t" by (subst takeWhile_append2) auto
  then show ?thesis by (simp add: cstring_def)
qed

lemma digit_chars_nonzero:
  shows "d < 62 \<Longrightarrow> b62_char d \<noteq> 0" and "d < 16 \<Longrightarrow> hex_char d \<noteq> 0"
proof -
  have "list_all (\<lambda>d. b62_char d \<noteq> 0) [0..<62]" "list_all (\<lambda>d. hex_char d \<noteq> 0) [0..<16]" by code_simp+
  then show "d < 62 \<Longrightarrow> b62_char d \<noteq> 0" and "d < 16 \<Longrightarrow> hex_char d \<noteq> 0" by (auto simp: list_all_iff)
qed

lemma ksuid_text_nonzero: "0 \<notin> set (ksuid_text k)"
  using be_digits_less [of 62 27 "bytes_val (ksuid_b k)"] digit_chars_nonzero(1)
  by (fastforce simp: ksuid_text_def b62_string_def)

lemma hex_digits_nonzero: "0 \<notin> set (hex_digits bs)"
  using digit_chars_nonzero(2) nibbles_less by (fastforce simp: hex_digits_def hex_pair_def)

lemma uuid_text_nonzero: "0 \<notin> set (uuid_text u)"
  by (simp add: uuid_text_def hex_text_def hex_digits_nonzero)

lemma terminated:
  assumes "length t = n"
  shows "poke (buf_put (uninit C (n + 1)) 0 t) n 0 = Done (t @ [0])"
  using assms by (simp add: poke_def buf_put_def uninit_def drop_map [symmetric] list_update_append)

lemma ksuid_cstr_text:
  assumes "wf_ksuid k"
  shows "ksuid_cstr C k = Done (ksuid_text k @ [0])"
proof -
  have "length (ksuid_text k) = 27" by (simp add: ksuid_text_def b62_string_def)
  then show ?thesis
    using terminated [of "ksuid_text k" 27 C] assms
    by (simp add: ksuid_cstr_def format_refines uninit_def len_simps run_simps)
qed

lemma uuidv7_cstr_text:
  assumes "wf_uuidv7 u"
  shows "uuidv7_cstr C u = Done (uuid_text u @ [0])"
proof -
  have "length (uuid_text u) = 36" using assms by (simp add: uuid_text_def wf_uuidv7_def hex_text_def)
  then show ?thesis
    using terminated [of "uuid_text u" 36 C] assms
    by (simp add: uuidv7_cstr_def uuid_format_refines uninit_def len_simps run_simps)
qed

lemma puts_text: "0 \<notin> set t \<Longrightarrow> puts (t @ [0]) io = Done (put (t @ [NEWLINE]) Stdout io)"
  and fputs_text: "0 \<notin> set t \<Longrightarrow> fputs (t @ [0]) f io = Done (put t f io)"
  using cstring_text [of t "[]"] by (simp_all add: puts_def fputs_def run_simps)

lemmas print_simps = put_put run_simps ksuid_cstr_text uuidv7_cstr_text puts_text fputs_text cstring_text
  ksuid_text_nonzero uuid_text_nonzero fputs_hex_upper_put fputs_time_local_put fputs_time_utc_ms_put fputc_def

definition prefix_text :: "bool \<Rightarrow> u8 list \<Rightarrow> u8 list" where
  "prefix_text verbose t = (if verbose then t @ bytes_of '': '' else [])"

lemma print_one_ksuid_put:
  assumes "wf_ksuid k"
  shows "print_one_ksuid C format k verbose io =
     Done (put (prefix_text verbose (ksuid_text k) @ ksuid_view C format k) Stdout io)"
proof -
  have len: "length (ksuid_b k) = 20" using assms by (simp add: wf_ksuid_def)
  have "print_one_ksuid C format k False io = Done (put (ksuid_view C format k) Stdout io)" for io
  proof (cases format)
    case FMT_INSPECT
    then show ?thesis
      using assms len cstring_text [of "ksuid_text k" "[]"]
      by (simp add: print_one_ksuid_def print_inspect_def Let_def print_simps ksuid_view_def
          chronoid_ksuid_payload_def)
  qed (use assms len in \<open>simp_all add: print_one_ksuid_def print_string_def print_time_def print_timestamp_def
      print_payload_def print_raw_def ksuid_view_def print_simps chronoid_ksuid_payload_def\<close>)
  then show ?thesis
    using assms by (cases verbose) (simp_all add: print_one_ksuid_def prefix_text_def print_simps)
qed

lemma inspect_fields:
  fixes i :: uuidv7
  shows "unat (chronoid_uuidv7_version i) = unat (uuid_b i ! 6) div 16"
    and "unat (drop_bit 1 (ucast (chronoid_uuidv7_variant i) :: u32) AND 1) = unat (uuid_b i ! 8) div 128"
    and "unat ((ucast (chronoid_uuidv7_variant i) :: u32) AND 1) = unat (uuid_b i ! 8) div 64 mod 2"
    and "unat (push_bit 8 (ucast (uuid_b i ! 6 AND 0x0f)) OR ucast (uuid_b i ! 7) :: u16) =
      unat (uuid_b i ! 6) mod 16 * 256 + unat (uuid_b i ! 7)"
proof -
  let ?b = "uuid_b i"
  show "unat (chronoid_uuidv7_version i) = unat (?b ! 6) div 16"
    by (simp add: chronoid_uuidv7_version_def nibbles nibbles_mod)
  have "drop_bit 6 (?b ! 8) AND 0x03 = (drop_bit 6 (?b ! 8) AND mask 2 :: u8)" by (simp add: mask_eq_exp_minus_1)
  then have v: "unat (chronoid_uuidv7_variant i) = unat (?b ! 8) div 64"
    using unat_u8_less [of "?b ! 8"]
    by (simp add: chronoid_uuidv7_variant_def and_mask_val drop_bit_eq_div unat_div less_mult_imp_div_less)
  then show "unat ((ucast (chronoid_uuidv7_variant i) :: u32) AND 1) = unat (?b ! 8) div 64 mod 2"
    by (simp add: and_one_eq unat_mod)
  show "unat (drop_bit 1 (ucast (chronoid_uuidv7_variant i) :: u32) AND 1) = unat (?b ! 8) div 128"
    using v unat_u8_less [of "?b ! 8"]
    by (simp add: and_one_eq unat_mod drop_bit_eq_div unat_div flip: div_mult2_eq)
  show "unat (push_bit 8 (ucast (?b ! 6 AND 0x0f)) OR ucast (?b ! 7) :: u16) =
      unat (?b ! 6) mod 16 * 256 + unat (?b ! 7)"
    using unat_u8_less [of "?b ! 7"] by (simp add: unat_or_byte nibbles)
qed

lemma print_one_uuidv7_put:
  assumes "wf_uuidv7 u"
  shows "print_one_uuidv7 C format u verbose io =
     Done (put (prefix_text verbose (uuid_text u) @ uuidv7_view format u) Stdout io)"
proof -
  have len: "length (uuid_b u) = 16" using assms by (simp add: wf_uuidv7_def)
  have "print_one_uuidv7 C format u False io = Done (put (uuidv7_view format u) Stdout io)" for io
  proof (cases format)
    case FMT_INSPECT
    then show ?thesis
      using assms len cstring_text [of "uuid_text u" "[]"]
      by (simp only: print_one_uuidv7_def print_inspect_uuidv7_def Let_def print_simps uuidv7_view_def inspect_fields
          out_format.case simp_thms if_False append_assoc) (simp add: fputs_hex_upper_put)
  qed (use assms len in \<open>simp_all add: print_one_uuidv7_def print_string_uuidv7_def print_time_uuidv7_def
      print_timestamp_uuidv7_def print_raw_uuidv7_def uuidv7_view_def print_simps\<close>)
  then show ?thesis
    using assms by (cases verbose) (simp_all add: print_one_uuidv7_def prefix_text_def print_simps)
qed

end
