(* ===== verification/Cli.thy ===== *)
theory Cli
  imports Cli_Print
begin

text \<open>
  The input half of \<open>examples/chronoid-gen.c\<close>: the option parser, generation and parse mode, and
  \<open>main\<close>. The arguments are C strings: lists of bytes without a NUL, and reading one beyond the
  terminator is undefined. An exit status ends the run; the world of the random source is threaded
  through generation.
\<close>

section \<open>Option values\<close>

definition parse_format :: "u8 list \<Rightarrow> out_format option" where
  "parse_format s =
     (if s = bytes_of ''string'' then Some FMT_STRING
      else if s = bytes_of ''inspect'' then Some FMT_INSPECT
      else if s = bytes_of ''time'' then Some FMT_TIME
      else if s = bytes_of ''timestamp'' then Some FMT_TIMESTAMP
      else if s = bytes_of ''payload'' then Some FMT_PAYLOAD
      else if s = bytes_of ''raw'' then Some FMT_RAW
      else None)"

definition parse_idformat :: "u8 list \<Rightarrow> id_format option" where
  "parse_idformat s =
     (if s = bytes_of ''ksuid'' then Some IDFMT_KSUID
      else if s = bytes_of ''uuidv7'' then Some IDFMT_UUIDV7
      else None)"

text \<open>
  \<open>strtol\<close> in base 10: the value, what follows the number (the whole string when there is none), and
  whether \<open>errno\<close> reports that the value did not fit and was clamped.
\<close>

definition is_space :: "u8 \<Rightarrow> bool" where "is_space c \<longleftrightarrow> c = 32 \<or> 9 \<le> c \<and> c \<le> 13"
definition is_digit :: "u8 \<Rightarrow> bool" where "is_digit c \<longleftrightarrow> 48 \<le> c \<and> c \<le> 57"

definition strtol :: "int \<Rightarrow> u8 list \<Rightarrow> int \<times> u8 list \<times> bool" where
  "strtol lmax s =
     (let t = dropWhile is_space s;
          (neg, u) = (case t of [] \<Rightarrow> (False, t)
                      | c # cs \<Rightarrow> if c = 45 then (True, cs) else if c = 43 then (False, cs) else (False, t));
          ds = takeWhile is_digit u;
          n = int (be_val 10 (map (\<lambda>c. unat c - 48) ds));
          v = (if neg then - n else n)
      in if ds = [] then (0, s, False)
         else if v > lmax then (lmax, dropWhile is_digit u, True)
         else if v < - lmax - 1 then (- lmax - 1, dropWhile is_digit u, True)
         else (v, dropWhile is_digit u, False))"

section \<open>The option parser\<close>

record options =
  opt_count :: int
  opt_format :: out_format
  opt_idformat :: id_format
  opt_explicit :: bool
  opt_verbose :: bool

definition usage :: "stream \<Rightarrow> u8 list \<Rightarrow> streams \<Rightarrow> streams" where
  "usage f argv0 io =
     put (bytes_of ''usage: '' @ argv0 @ text_lines
       ['' [-n N] [-f FORMAT] [--format=ID] [-v] [ID ...]'',
        ''  -n N        number of IDs to generate when no args given (default 1)'',
        ''  -f FORMAT   output projection: one of string, inspect, time,'',
        ''              timestamp, payload, raw (default: string)'',
        ''              -f payload is KSUID-only; UUIDv7 has no equivalent'',
        ''              field, so combining -f payload with a UUIDv7 is an'',
        ''              error. Use -f raw for the 16-byte image or -f inspect'',
        ''              for rand_a / rand_b.'',
        ''  --format=ID ID format for generation: one of ksuid, uuidv7'',
        ''              (default: ksuid)'']
       @ bytes_of ''  -v          prefix each line with the ID and '' @ [39] @ bytes_of '': '' @ [39, NEWLINE]
       @ text_lines
       [''  -h          show this help'',
        ''When ID arguments are supplied they are parsed and formatted; the -n'',
        ''flag is ignored. Positional args are auto-detected by length: 27 chars'',
        ''= KSUID, 36 chars = UUIDv7. A mismatch between --format and a'',
        (''positional argument'' @ [char_of (39 :: nat)] @ ''s detected format is an error.'')]) f io"

text \<open>One round of the loop over the options: leave the loop, leave the program, or go on.\<close>

datatype loop_step = Break | Return int | Next nat options

definition main_option ::
    "machine \<Rightarrow> u8 list list \<Rightarrow> nat \<Rightarrow> options \<Rightarrow> streams \<Rightarrow> (loop_step \<times> streams) run" where
  "main_option C argv idx opt io =
     (let a = argv ! idx;
          unknown = usage Stderr (argv ! 0) (put (bytes_of ''unknown option: '' @ a @ [NEWLINE]) Stderr io)
      in run_bind (peek (a @ [0]) 0) (\<lambda>a0.
         run_bind (if a0 \<noteq> 0x2d then Done 0 else peek (a @ [0]) 1) (\<lambda>a1.
           if a0 \<noteq> 0x2d \<or> a1 = 0 then Done (Break, io)
           else if a1 = 0x2d then
             (if take 9 a = bytes_of ''--format='' then
                (let val = drop 9 a
                 in case parse_idformat val of
                      None \<Rightarrow> Done (Return 1, put (bytes_of ''unknown id format: '' @ val @ [NEWLINE]) Stderr io)
                    | Some f \<Rightarrow> Done (Next (idx + 1) (opt\<lparr>opt_idformat := f, opt_explicit := True\<rparr>), io))
              else Done (Return 1, unknown))
           else run_bind (peek (a @ [0]) 2) (\<lambda>a2.
             if a2 \<noteq> 0 then Done (Return 1, unknown)
             else let flag = a1
               in if flag = of_char CHR ''v'' then Done (Next (idx + 1) (opt\<lparr>opt_verbose := True\<rparr>), io)
                  else if flag = of_char CHR ''h'' then Done (Return 0, usage Stdout (argv ! 0) io)
                  else if flag = of_char CHR ''n'' \<or> flag = of_char CHR ''f'' then
                    (if idx + 1 \<ge> length argv then
                       Done (Return 1, usage Stderr (argv ! 0)
                         (put (bytes_of ''missing argument for -'' @ [flag, NEWLINE]) Stderr io))
                     else let val = argv ! (idx + 1)
                       in if flag = of_char CHR ''n'' then
                            (case strtol (long_max C) val of (v, end', errno) \<Rightarrow>
                               if errno \<or> end' \<noteq> [] \<or> v \<le> 0
                               then Done (Return 1, put (bytes_of ''invalid -n value: '' @ val @ [NEWLINE]) Stderr io)
                               else Done (Next (idx + 2) (opt\<lparr>opt_count := v\<rparr>), io))
                          else
                            (case parse_format val of
                               None \<Rightarrow> Done (Return 1, put (bytes_of ''unknown format: '' @ val @ [NEWLINE]) Stderr io)
                             | Some f \<Rightarrow> Done (Next (idx + 2) (opt\<lparr>opt_format := f\<rparr>), io)))
                  else Done (Return 1, unknown)))))"

lemma main_option_advances: "main_option C argv idx opt io = Done (Next idx' opt', io') \<Longrightarrow> idx < idx'"
  by (auto simp: main_option_def Let_def run_bind_eq_Done split: if_splits option.splits prod.splits)

function main_options ::
    "machine \<Rightarrow> u8 list list \<Rightarrow> nat \<Rightarrow> options \<Rightarrow> streams \<Rightarrow> ((int + nat \<times> options) \<times> streams) run" where
  "main_options C argv idx opt io =
     (if idx < length argv
      then run_bind (main_option C argv idx opt io) (\<lambda>(r, io).
        case r of
          Break \<Rightarrow> Done (Inr (idx, opt), io)
        | Return rc \<Rightarrow> Done (Inl rc, io)
        | Next idx' opt' \<Rightarrow> main_options C argv idx' opt' io)
      else Done (Inr (idx, opt), io))"
  by auto
termination
  by (relation "measure (\<lambda>(C, argv, idx, opt, io). length argv - idx)") (auto dest: main_option_advances)

declare main_options.simps [simp del]

section \<open>Generation mode\<close>

definition generate_one ::
    "machine \<Rightarrow> options \<Rightarrow> streams \<Rightarrow> 'c world \<Rightarrow> (int option \<times> streams \<times> 'c world) run" where
  "generate_one C opt io w =
     (if opt_idformat opt = IDFMT_UUIDV7
      then run_bind (chronoid_uuidv7_new (build C) (sys C) (uninit C 10) \<lparr>uuid_b = uninit C CHRONOID_UUIDV7_BYTES\<rparr> w)
        (\<lambda>(e, i, w).
          if e \<noteq> CHRONOID_UUIDV7_OK
          then Done (Some 2, put (bytes_of ''chronoid_uuidv7_new failed (err '' @ fmt_d (uuidv7_err_code e)
                 @ text_lines ['')'']) Stderr io, w)
          else run_bind (print_one_uuidv7 C (opt_format opt) i (opt_verbose opt) io) (\<lambda>io. Done (None, io, w)))
      else run_bind (chronoid_ksuid_new (build C) (sys C) (uninit C 16) \<lparr>ksuid_b = uninit C CHRONOID_KSUID_BYTES\<rparr> w)
        (\<lambda>(e, i, w).
          if e \<noteq> CHRONOID_KSUID_OK
          then Done (Some 2, put (bytes_of ''chronoid_ksuid_new failed (err '' @ fmt_d (ksuid_err_code e)
                 @ text_lines ['')'']) Stderr io, w)
          else run_bind (print_one_ksuid C (opt_format opt) i (opt_verbose opt) io) (\<lambda>io. Done (None, io, w))))"

text \<open>The rounds of the generation loop that are left.\<close>

primrec generate :: "nat \<Rightarrow> machine \<Rightarrow> options \<Rightarrow> streams \<Rightarrow> 'c world \<Rightarrow> (int \<times> streams \<times> 'c world) run" where
  "generate 0 C opt io w = Done (0, io, w)"
| "generate (Suc n) C opt io w =
     run_bind (generate_one C opt io w) (\<lambda>(r, io, w).
       case r of Some rc \<Rightarrow> Done (rc, io, w) | None \<Rightarrow> generate n C opt io w)"

section \<open>Parse mode\<close>

definition payload_message :: "u8 list" where
  "payload_message =
     text_lines [''-f payload is not supported for UUIDv7; use -f raw for the'',
       ''16-byte image or -f inspect for rand_a / rand_b.'']"

definition parse_error :: "u8 list \<Rightarrow> int \<Rightarrow> u8 list" where
  "parse_error s e = bytes_of ''could not parse '' @ s @ bytes_of '' (err '' @ fmt_d e @ text_lines ['')'']"

definition parse_one :: "machine \<Rightarrow> options \<Rightarrow> u8 list \<Rightarrow> streams \<Rightarrow> (int option \<times> streams) run" where
  "parse_one C opt s io =
     (let len = length s;
          detected = (if len = CHRONOID_KSUID_STRING_LEN then Some IDFMT_KSUID
                      else if len = CHRONOID_UUIDV7_STRING_LEN then Some IDFMT_UUIDV7 else None)
      in case detected of
           None \<Rightarrow>
             Done (Some 1, put (bytes_of ''could not parse '' @ s
               @ bytes_of '': expected 27 (KSUID) or 36 (UUIDv7) chars, got '' @ fmt_u len @ [NEWLINE]) Stderr io)
         | Some detected \<Rightarrow>
             if opt_explicit opt \<and> detected \<noteq> opt_idformat opt
             then Done (Some 1, put (bytes_of ''format mismatch: --format=''
               @ bytes_of (if opt_idformat opt = IDFMT_UUIDV7 then ''uuidv7'' else ''ksuid'')
               @ bytes_of '' but '' @ s @ bytes_of '' looks like a ''
               @ bytes_of (if detected = IDFMT_UUIDV7 then ''UUIDv7'' else ''KSUID'')
               @ bytes_of '' ('' @ fmt_u len @ text_lines ['' chars)'']) Stderr io)
             else if opt_format opt = FMT_PAYLOAD \<and> detected = IDFMT_UUIDV7
             then Done (Some 1, put payload_message Stderr io)
             else if detected = IDFMT_UUIDV7
             then (case chronoid_uuidv7_parse (uninit C 16) (uninit C 16) \<lparr>uuid_b = uninit C CHRONOID_UUIDV7_BYTES\<rparr>
                     s len of (e, i) \<Rightarrow>
                     if e \<noteq> CHRONOID_UUIDV7_OK
                     then Done (Some 1, put (parse_error s (uuidv7_err_code e)) Stderr io)
                     else run_bind (print_one_uuidv7 C (opt_format opt) i (opt_verbose opt) io)
                       (\<lambda>io. Done (None, io)))
             else (case chronoid_ksuid_parse (simd C) (uninit C 20) \<lparr>ksuid_b = uninit C CHRONOID_KSUID_BYTES\<rparr>
                     s len of (e, i) \<Rightarrow>
                     if e \<noteq> CHRONOID_KSUID_OK
                     then Done (Some 1, put (parse_error s (ksuid_err_code e)) Stderr io)
                     else run_bind (print_one_ksuid C (opt_format opt) i (opt_verbose opt) io)
                       (\<lambda>io. Done (None, io))))"

primrec parse_args :: "u8 list list \<Rightarrow> machine \<Rightarrow> options \<Rightarrow> streams \<Rightarrow> (int \<times> streams) run" where
  "parse_args [] C opt io = Done (0, io)"
| "parse_args (s # ss) C opt io =
     run_bind (parse_one C opt s io) (\<lambda>(r, io).
       case r of Some rc \<Rightarrow> Done (rc, io) | None \<Rightarrow> parse_args ss C opt io)"

section \<open>The program\<close>

definition initial_options :: options where
  "initial_options =
     \<lparr>opt_count = 1, opt_format = FMT_STRING, opt_idformat = IDFMT_KSUID, opt_explicit = False,
      opt_verbose = False\<rparr>"

definition chronoid_gen_main ::
    "machine \<Rightarrow> u8 list list \<Rightarrow> streams \<Rightarrow> 'c world \<Rightarrow> (int \<times> streams \<times> 'c world) run" where
  "chronoid_gen_main C argv io w =
     run_bind (main_options C argv 1 initial_options io) (\<lambda>(r, io).
       case r of
         Inl rc \<Rightarrow> Done (rc, io, w)
       | Inr (idx, opt) \<Rightarrow>
           if idx = length argv \<and> opt_format opt = FMT_PAYLOAD \<and> opt_idformat opt = IDFMT_UUIDV7
           then Done (1, put payload_message Stderr io, w)
           else if idx = length argv then generate (nat (opt_count opt)) C opt io w
           else run_bind (parse_args (drop idx argv) C opt io) (\<lambda>(rc, io). Done (rc, io, w)))"

end
