(* ===== verification/Cli_Behaviour.thy ===== *)
theory Cli_Behaviour
  imports Cli
begin

text \<open>
  What \<open>examples/chronoid-gen.c\<close> does: its command lines as data (\<open>opts_args\<close> renders a list of options,
  \<open>settings\<close> is what the program makes of them), the identifier an argument stands for, and the
  properties of whole runs in both modes.
\<close>

section \<open>Numbers as arguments\<close>

lemma radix_digits:
  assumes "2 \<le> B"
  shows "be_val B (radix B n) = n" "\<forall>d \<in> set (radix B n). d < B" "radix B n \<noteq> []"
  using assms
proof (induction B n rule: radix.induct)
  case (1 B n)
  {
    case 1
    then show ?case using "1.IH"(1) by (subst radix.simps) simp
  next
    case 2
    then show ?case using "1.IH"(2) by (subst radix.simps) (auto simp: not_less)
  next
    case 3
    then show ?case by (subst radix.simps) simp
  }
qed

lemma DIGITS_decimal:
  assumes "d < 10"
  shows "unat (DIGITS ! d) = 48 + d" "is_digit (DIGITS ! d)"
proof -
  have "list_all (\<lambda>d. unat (DIGITS ! d) = 48 + d \<and> is_digit (DIGITS ! d)) [0..<10]" by code_simp
  then show "unat (DIGITS ! d) = 48 + d" "is_digit (DIGITS ! d)" using assms by (auto simp: list_all_iff)
qed

lemma is_digit_no_sign: "is_digit c \<Longrightarrow> \<not> is_space c \<and> c \<noteq> 45 \<and> c \<noteq> 43"
  by (auto simp: is_digit_def is_space_def word_le_nat_alt)

lemma strtol_digits:
  assumes "s \<noteq> []" "\<forall>c \<in> set s. is_digit c" "be_val 10 (map (\<lambda>c. unat c - 48) s) = n" "int n \<le> lmax"
  shows "strtol lmax s = (int n, [], False)"
proof -
  obtain c cs where s: "s = c # cs" using assms(1) by (cases s) auto
  have "takeWhile is_digit s = s" "dropWhile is_digit s = []" using assms(2) by (auto simp: takeWhile_eq_all_conv)
  moreover have "dropWhile is_space s = s" "c \<noteq> 45" "c \<noteq> 43"
    using assms(2) is_digit_no_sign [of c] s by auto
  ultimately show ?thesis
    using assms(1,3,4) unfolding strtol_def by (simp add: Let_def s)
qed

lemma strtol_decimal:
  assumes "int n \<le> lmax"
  shows "strtol lmax (fmt_u n) = (int n, [], False)"
proof (rule strtol_digits)
  note r = radix_digits [of 10 n, simplified]
  show "fmt_u n \<noteq> []" "\<forall>c \<in> set (fmt_u n). is_digit c" using r DIGITS_decimal(2) by (auto simp: fmt_u_def)
  have "map (\<lambda>c. unat c - 48) (fmt_u n) = radix 10 n"
    using r(2) DIGITS_decimal(1) by (auto simp: fmt_u_def intro!: map_idI)
  then show "be_val 10 (map (\<lambda>c. unat c - 48) (fmt_u n)) = n" using r(1) by simp
qed (rule assms)

section \<open>Command lines\<close>

datatype cli_opt = Opt_v | Opt_n nat | Opt_f out_format | Opt_format id_format

fun format_name :: "out_format \<Rightarrow> u8 list" where
  "format_name FMT_STRING = bytes_of ''string''"
| "format_name FMT_INSPECT = bytes_of ''inspect''"
| "format_name FMT_TIME = bytes_of ''time''"
| "format_name FMT_TIMESTAMP = bytes_of ''timestamp''"
| "format_name FMT_PAYLOAD = bytes_of ''payload''"
| "format_name FMT_RAW = bytes_of ''raw''"

fun idformat_name :: "id_format \<Rightarrow> u8 list" where
  "idformat_name IDFMT_KSUID = bytes_of ''ksuid''"
| "idformat_name IDFMT_UUIDV7 = bytes_of ''uuidv7''"

fun opt_args :: "cli_opt \<Rightarrow> u8 list list" where
  "opt_args Opt_v = [bytes_of ''-v'']"
| "opt_args (Opt_n n) = [bytes_of ''-n'', fmt_u n]"
| "opt_args (Opt_f f) = [bytes_of ''-f'', format_name f]"
| "opt_args (Opt_format i) = [bytes_of ''--format='' @ idformat_name i]"

fun opt_ok :: "int \<Rightarrow> cli_opt \<Rightarrow> bool" where
  "opt_ok lmax (Opt_n n) = (0 < n \<and> int n \<le> lmax)"
| "opt_ok lmax _ = True"

fun apply_opt :: "cli_opt \<Rightarrow> options \<Rightarrow> options" where
  "apply_opt Opt_v opt = opt\<lparr>opt_verbose := True\<rparr>"
| "apply_opt (Opt_n n) opt = opt\<lparr>opt_count := int n\<rparr>"
| "apply_opt (Opt_f f) opt = opt\<lparr>opt_format := f\<rparr>"
| "apply_opt (Opt_format i) opt = opt\<lparr>opt_idformat := i, opt_explicit := True\<rparr>"

definition opts_args :: "cli_opt list \<Rightarrow> u8 list list" where "opts_args xs = concat (map opt_args xs)"

definition settings :: "cli_opt list \<Rightarrow> options" where "settings xs = fold apply_opt xs initial_options"

text \<open>An argument that ends the options: not a dash followed by something.\<close>

definition positional :: "u8 list \<Rightarrow> bool" where
  "positional a \<longleftrightarrow> a = [] \<or> hd a \<noteq> 0x2d \<or> a = [0x2d]"

definition c_string :: "u8 list \<Rightarrow> bool" where "c_string a \<longleftrightarrow> 0 \<notin> set a"

lemma parse_format_name: "parse_format (format_name f) = Some f"
  by (cases f) (simp_all add: parse_format_def)

lemma parse_idformat_name: "parse_idformat (idformat_name i) = Some i"
  by (cases i) (simp_all add: parse_idformat_def)

lemma option_round:
  assumes "drop idx argv = opt_args x @ rest" "opt_ok (long_max C) x"
  shows "main_option C argv idx opt io = Done (Next (idx + length (opt_args x)) (apply_opt x opt), io)"
proof -
  have "drop idx argv \<noteq> []" using assms(1) by (cases x) simp_all
  then have idx: "idx < length argv" by simp
  have a: "argv ! idx = hd (opt_args x)"
    using assms(1) idx by (cases x) (simp_all add: hd_drop_conv_nth [symmetric])
  have val: "idx + 1 < length argv \<and> argv ! (idx + 1) = y" if "opt_args x = [z, y]" for y z
  proof -
    have d: "drop (idx + 1) argv = y # rest"
      using assms(1) that idx by (simp add: Cons_nth_drop_Suc [symmetric])
    then have "idx + 1 < length argv" by (metis drop_eq_Nil linorder_not_less list.distinct(1))
    then show ?thesis using d by (metis hd_drop_conv_nth list.sel(1))
  qed
  show ?thesis
  proof (cases x)
    case Opt_v
    then show ?thesis using a by (simp add: main_option_def Let_def peek_def run_simps)
  next
    case (Opt_n n)
    then show ?thesis
      using a val [of _ "fmt_u n"] assms(2)
      by (simp add: main_option_def Let_def peek_def run_simps strtol_decimal)
  next
    case (Opt_f f)
    then show ?thesis
      using a val [of _ "format_name f"]
      by (simp add: main_option_def Let_def peek_def run_simps parse_format_name)
  next
    case (Opt_format i)
    then show ?thesis
      using a by (simp add: main_option_def Let_def peek_def run_simps parse_idformat_name)
  qed
qed

lemma option_ends:
  assumes "positional (argv ! idx)"
  shows "main_option C argv idx opt io = Done (Break, io)"
proof -
  consider "argv ! idx = []" | c cs where "argv ! idx = c # cs" "c \<noteq> 0x2d" | "argv ! idx = [0x2d]"
    using assms by (cases "argv ! idx") (auto simp: positional_def)
  then show ?thesis by cases (simp_all add: main_option_def Let_def peek_def run_simps)
qed

lemma options_round_trip:
  assumes "drop idx argv = opts_args xs @ rest" "list_all (opt_ok (long_max C)) xs"
    and "rest = [] \<or> positional (hd rest)" "idx \<le> length argv"
  shows "main_options C argv idx opt io =
     Done (Inr (idx + length (opts_args xs), fold apply_opt xs opt), io)"
  using assms
proof (induction xs arbitrary: idx opt)
  case Nil
  show ?case
  proof (cases "idx < length argv")
    case True
    then have "positional (argv ! idx)"
      using Nil.prems by (auto simp: opts_args_def hd_drop_conv_nth)
    then show ?thesis
      using True by (subst main_options.simps) (simp add: option_ends opts_args_def run_simps)
  next
    case False
    then show ?thesis by (subst main_options.simps) (simp add: opts_args_def)
  qed
next
  case (Cons x xs)
  have d: "drop idx argv = opt_args x @ opts_args xs @ rest" using Cons.prems(1) by (simp add: opts_args_def)
  then have "drop idx argv \<noteq> []" by (cases x) simp_all
  then have idx: "idx < length argv" by simp
  have d': "drop (idx + length (opt_args x)) argv = opts_args xs @ rest"
    using d by (metis add.commute append_eq_conv_conj drop_drop)
  have le: "idx + length (opt_args x) \<le> length argv"
    using arg_cong [OF d, of length] idx by simp
  show ?case
    using Cons.prems(2,3) idx option_round [OF d, of C opt io] Cons.IH [OF d' _ _ le]
    by (subst main_options.simps) (simp add: run_simps opts_args_def)
qed

lemma main_options_parsed:
  assumes "list_all (opt_ok (long_max C)) xs" "rest = [] \<or> positional (hd rest)"
  shows "main_options C (p # opts_args xs @ rest) 1 initial_options io =
     Done (Inr (1 + length (opts_args xs), settings xs), io)"
  using options_round_trip [of 1 "p # opts_args xs @ rest" xs rest C initial_options io] assms
  by (simp add: settings_def)

section \<open>Identifiers of either format\<close>

datatype ident = Id_ksuid ksuid | Id_uuidv7 uuidv7

fun ident_text :: "ident \<Rightarrow> u8 list" where
  "ident_text (Id_ksuid k) = ksuid_text k"
| "ident_text (Id_uuidv7 u) = uuid_text u"

fun ident_format :: "ident \<Rightarrow> id_format" where
  "ident_format (Id_ksuid k) = IDFMT_KSUID"
| "ident_format (Id_uuidv7 u) = IDFMT_UUIDV7"

fun wf_ident :: "ident \<Rightarrow> bool" where
  "wf_ident (Id_ksuid k) = wf_ksuid k"
| "wf_ident (Id_uuidv7 u) = wf_uuidv7 u"

text \<open>What is printed for an identifier.\<close>

fun ident_view :: "machine \<Rightarrow> options \<Rightarrow> ident \<Rightarrow> u8 list" where
  "ident_view C opt (Id_ksuid k) = prefix_text (opt_verbose opt) (ksuid_text k) @ ksuid_view C (opt_format opt) k"
| "ident_view C opt (Id_uuidv7 u) = prefix_text (opt_verbose opt) (uuid_text u) @ uuidv7_view (opt_format opt) u"

text \<open>The identifier an argument stands for, under the options given.\<close>

definition accepted :: "options \<Rightarrow> u8 list \<Rightarrow> ident option" where
  "accepted opt s =
     (if length s = 27 then
        if opt_explicit opt \<and> opt_idformat opt \<noteq> IDFMT_KSUID then None
        else map_option Id_ksuid (ksuid_of_text s)
      else if length s = 36 then
        if opt_explicit opt \<and> opt_idformat opt \<noteq> IDFMT_UUIDV7 \<or> opt_format opt = FMT_PAYLOAD then None
        else map_option Id_uuidv7 (uuid_of_text s)
      else None)"

lemma length_uninit [simp]: "length (uninit C n) = n"
  by (simp add: uninit_def)

lemma ksuid_of_text_wf: "ksuid_of_text s = Some k \<Longrightarrow> wf_ksuid k"
  by (rule ksuid_codec.dec_wf)

lemma uuid_of_text_wf: "uuid_of_text s = Some u \<Longrightarrow> wf_uuidv7 u"
  by (rule uuid_codec.dec_wf)

lemma parse_one_accepted:
  assumes "accepted opt s = Some i"
  shows "parse_one C opt s io = Done (None, put (ident_view C opt i) Stdout io)"
  using assms
  by (auto simp: accepted_def parse_one_def Let_def parse_refines uuid_parse_refines wf_uuidv7_def run_simps
      print_one_ksuid_put [OF ksuid_of_text_wf] print_one_uuidv7_put [OF uuid_of_text_wf] split: if_splits)

lemma parse_one_rejected:
  assumes "accepted opt s = None"
  shows "\<exists>e. e \<noteq> [] \<and> parse_one C opt s io = Done (Some 1, put e Stderr io)"
  using assms
  by (auto simp: accepted_def parse_one_def Let_def parse_refines uuid_parse_refines wf_uuidv7_def
      payload_message_def text_lines_def parse_error_def split: if_splits)

lemma parse_args_run:
  "\<exists>e. parse_args ss C opt io =
      Done (if \<forall>s \<in> set ss. accepted opt s \<noteq> None then 0 else 1,
        put e Stderr (put (concat (map (\<lambda>s. ident_view C opt (the (accepted opt s)))
          (takeWhile (\<lambda>s. accepted opt s \<noteq> None) ss))) Stdout io))
    \<and> (e = [] \<longleftrightarrow> (\<forall>s \<in> set ss. accepted opt s \<noteq> None))"
proof (induction ss arbitrary: io)
  case Nil
  then show ?case by simp
next
  case (Cons s ss)
  show ?case
  proof (cases "accepted opt s")
    case None
    then show ?thesis using parse_one_rejected [of opt s C io] by (auto simp: run_simps simp del: put.simps)
  next
    case (Some i)
    then show ?thesis
      using Cons.IH [of "put (ident_view C opt i) Stdout io"]
      by (simp add: parse_one_accepted run_simps del: put.simps)
  qed
qed

section \<open>The whole program\<close>

abbreviation (input) "no_output \<equiv> \<lparr>out_bytes = [], err_bytes = []\<rparr>"

lemma main_parse_mode:
  assumes "list_all (opt_ok (long_max C)) xs" "args \<noteq> []" "positional (hd args)"
  shows "chronoid_gen_main C (p # opts_args xs @ args) io w =
     run_bind (parse_args args C (settings xs) io) (\<lambda>(rc, io). Done (rc, io, w))"
  using main_options_parsed [OF assms(1), of args p io] assms(2,3)
  by (simp add: chronoid_gen_main_def run_simps)

lemma main_generation_mode:
  assumes "list_all (opt_ok (long_max C)) xs"
  shows "chronoid_gen_main C (p # opts_args xs) io w =
     (if opt_format (settings xs) = FMT_PAYLOAD \<and> opt_idformat (settings xs) = IDFMT_UUIDV7
      then Done (1, put payload_message Stderr io, w)
      else generate (nat (opt_count (settings xs))) C (settings xs) io w)"
  using main_options_parsed [OF assms, of "[]" p io] by (simp add: chronoid_gen_main_def run_simps)

lemma settings_explicit: "opt_idformat (settings xs) = IDFMT_UUIDV7 \<Longrightarrow> opt_explicit (settings xs)"
proof -
  have "opt_idformat (fold apply_opt xs opt) = IDFMT_UUIDV7 \<Longrightarrow> opt_explicit (fold apply_opt xs opt)"
    if "opt_idformat opt = IDFMT_UUIDV7 \<Longrightarrow> opt_explicit opt" for opt
    using that
  proof (induction xs arbitrary: opt)
    case (Cons x xs)
    show ?case using Cons.IH [of "apply_opt x opt"] Cons.prems by (cases x) auto
  qed simp
  from this [of initial_options]
  show "opt_idformat (settings xs) = IDFMT_UUIDV7 \<Longrightarrow> opt_explicit (settings xs)"
    by (simp add: settings_def) (simp add: initial_options_def)
qed

lemma settings_count: "list_all (opt_ok l) xs \<Longrightarrow> 0 < opt_count (settings xs)"
proof -
  have "list_all (opt_ok l) xs \<Longrightarrow> 0 < opt_count opt \<Longrightarrow> 0 < opt_count (fold apply_opt xs opt)" for opt
  proof (induction xs arbitrary: opt)
    case (Cons x xs)
    show ?case using Cons.IH [of "apply_opt x opt"] Cons.prems by (cases x) auto
  qed simp
  then show "list_all (opt_ok l) xs \<Longrightarrow> 0 < opt_count (settings xs)"
    by (simp add: settings_def initial_options_def)
qed

section \<open>The generators never get stuck\<close>

lemma ksuid_new_outcome:
  assumes "sane_clock E" "gen_ok w" "calm E T" "wf_ksuid out" "length payload = 16"
  shows "\<exists>e k w'. chronoid_ksuid_new cfg E payload out w = Done (e, k, w') \<and> gen_ok w'
    \<and> (e = CHRONOID_KSUID_OK \<longrightarrow> wf_ksuid k)"
proof (cases "env_clock E (now_tick w)")
  case None
  then show ?thesis using assms(2) by (simp add: chronoid_ksuid_new_def)
next
  case (Some t)
  obtain s ns where t: "t = (s, ns)" by (cases t)
  have s: "0 \<le> s" "s < 2 ^ 53" using assms(1) Some t by (auto simp: sane_clock_def)
  then have "in_i64 s" "\<not> s < i64_min + 1400000000" by (simp_all add: i64_defs)
  moreover have g: "gen_ok (advance w)" using assms(2) by simp
  moreover obtain rc b w' where "chronoid_internal_fill_random cfg E payload CHRONOID_KSUID_PAYLOAD_LEN (advance w)
      = Done (rc, b, w')"
    using fill_random_returns [OF assms(1) g assms(3)] by blast
  ultimately show ?thesis
    using ksuid_new_cases [OF assms(1) g assms(4,5) _ refl refl, of s cfg] Some t
    by (auto simp: chronoid_ksuid_new_def split: if_splits)
qed

lemma uuidv7_new_outcome:
  assumes "sane_clock E" "gen_ok w" "calm E T" "wf_uuidv7 out" "length rnd = 10"
  shows "\<exists>e u w'. chronoid_uuidv7_new cfg E rnd out w = Done (e, u, w') \<and> gen_ok w'
    \<and> (e = CHRONOID_UUIDV7_OK \<longrightarrow> wf_uuidv7 u)"
proof -
  have g: "gen_ok (advance w)" using assms(2) by simp
  obtain rc b w' where "chronoid_internal_fill_random cfg E rnd 10 (advance w) = Done (rc, b, w')"
    using fill_random_returns [OF assms(1) g assms(3)] by blast
  then show ?thesis
    using uuidv7_new_cases [OF assms(1) g assms(4,5) refl refl, of "wall_ms E w" cfg] g
    by (auto simp: chronoid_uuidv7_new_def now_ms_wall [OF assms(1)] run_simps split: if_splits)
qed

text \<open>One round: an identifier of the chosen format is printed, or the run ends with status 2.\<close>

lemma generate_one_outcome:
  assumes "sane_clock (sys C)" "gen_ok w" "calm (sys C) T"
  shows "\<exists>w'. gen_ok w' \<and>
    ((\<exists>i. wf_ident i \<and> ident_format i = opt_idformat opt
        \<and> generate_one C opt io w = Done (None, put (ident_view C opt i) Stdout io, w'))
   \<or> (\<exists>e. e \<noteq> [] \<and> generate_one C opt io w = Done (Some 2, put e Stderr io, w')))"
proof (cases "opt_idformat opt")
  case IDFMT_KSUID
  let ?out = "\<lparr>ksuid_b = uninit C CHRONOID_KSUID_BYTES\<rparr>"
  obtain e k w' where r: "chronoid_ksuid_new (build C) (sys C) (uninit C 16) ?out w = Done (e, k, w')" "gen_ok w'"
      "e = CHRONOID_KSUID_OK \<longrightarrow> wf_ksuid k"
    using ksuid_new_outcome [OF assms, of ?out "uninit C 16" "build C"] by (auto simp: wf_ksuid_def)
  show ?thesis
  proof (cases "e = CHRONOID_KSUID_OK")
    case True
    then have "generate_one C opt io w = Done (None, put (ident_view C opt (Id_ksuid k)) Stdout io, w')"
      using r IDFMT_KSUID by (simp add: generate_one_def run_simps print_one_ksuid_put)
    moreover have "wf_ident (Id_ksuid k)" "ident_format (Id_ksuid k) = opt_idformat opt"
      using r(3) True IDFMT_KSUID by simp_all
    ultimately show ?thesis using r(2) by blast
  next
    case False
    then show ?thesis using r IDFMT_KSUID by (auto simp: generate_one_def run_simps text_lines_def)
  qed
next
  case IDFMT_UUIDV7
  let ?out = "\<lparr>uuid_b = uninit C CHRONOID_UUIDV7_BYTES\<rparr>"
  obtain e u w' where r: "chronoid_uuidv7_new (build C) (sys C) (uninit C 10) ?out w = Done (e, u, w')" "gen_ok w'"
      "e = CHRONOID_UUIDV7_OK \<longrightarrow> wf_uuidv7 u"
    using uuidv7_new_outcome [OF assms, of ?out "uninit C 10" "build C"] by (auto simp: wf_uuidv7_def)
  show ?thesis
  proof (cases "e = CHRONOID_UUIDV7_OK")
    case True
    then have "generate_one C opt io w = Done (None, put (ident_view C opt (Id_uuidv7 u)) Stdout io, w')"
      using r IDFMT_UUIDV7 by (simp add: generate_one_def run_simps print_one_uuidv7_put)
    moreover have "wf_ident (Id_uuidv7 u)" "ident_format (Id_uuidv7 u) = opt_idformat opt"
      using r(3) True IDFMT_UUIDV7 by simp_all
    ultimately show ?thesis using r(2) by blast
  next
    case False
    then show ?thesis using r IDFMT_UUIDV7 by (auto simp: generate_one_def run_simps text_lines_def)
  qed
qed

lemma generate_outcome:
  assumes "sane_clock (sys C)" "gen_ok w" "calm (sys C) T"
  shows "\<exists>rc e ids w'. generate n C opt io w =
      Done (rc, put e Stderr (put (concat (map (ident_view C opt) ids)) Stdout io), w') \<and> gen_ok w'
    \<and> list_all (\<lambda>i. wf_ident i \<and> ident_format i = opt_idformat opt) ids
    \<and> (rc = 0 \<and> e = [] \<and> length ids = n \<or> rc = 2 \<and> e \<noteq> [] \<and> length ids < n)"
  using assms(2)
proof (induction n arbitrary: io w)
  case 0
  then show ?case by (auto intro!: exI [of _ "[]"])
next
  case (Suc n)
  from generate_one_outcome [OF assms(1) Suc.prems assms(3), of opt io]
  consider i w' where "gen_ok w'" "wf_ident i" "ident_format i = opt_idformat opt"
      "generate_one C opt io w = Done (None, put (ident_view C opt i) Stdout io, w')"
    | e w' where "gen_ok w'" "e \<noteq> []" "generate_one C opt io w = Done (Some 2, put e Stderr io, w')"
    by blast
  then show ?case
  proof cases
    case 1
    obtain rc e ids w'' where ih: "generate n C opt (put (ident_view C opt i) Stdout io) w' =
        Done (rc, put e Stderr (put (concat (map (ident_view C opt) ids)) Stdout
          (put (ident_view C opt i) Stdout io)), w'')" "gen_ok w''"
      "list_all (\<lambda>i. wf_ident i \<and> ident_format i = opt_idformat opt) ids"
      "rc = 0 \<and> e = [] \<and> length ids = n \<or> rc = 2 \<and> e \<noteq> [] \<and> length ids < n"
      using Suc.IH [OF 1(1), of "put (ident_view C opt i) Stdout io"] by blast
    have "generate (Suc n) C opt io w =
        Done (rc, put e Stderr (put (concat (map (ident_view C opt) (i # ids))) Stdout io), w'')"
      using 1(4) ih(1) by (simp add: run_simps del: put.simps)
    moreover have "rc = 0 \<and> e = [] \<and> length (i # ids) = Suc n \<or> rc = 2 \<and> e \<noteq> [] \<and> length (i # ids) < Suc n"
      using ih(4) by auto
    moreover have "list_all (\<lambda>i. wf_ident i \<and> ident_format i = opt_idformat opt) (i # ids)"
      using 1(2,3) ih(3) by simp
    ultimately show ?thesis using ih(2) by blast
  next
    case 2
    then have "generate (Suc n) C opt io w =
        Done (2, put e Stderr (put (concat (map (ident_view C opt) [])) Stdout io), w')"
      by (simp add: run_simps del: put.simps)
    then show ?thesis
      using 2(1,2) by (intro exI [of _ 2] exI [of _ e] exI [of _ "[]"] exI [of _ w']) (simp del: put.simps)
  qed
qed

section \<open>Every command line\<close>

definition option_outcome :: "loop_step \<Rightarrow> streams \<Rightarrow> streams \<Rightarrow> bool" where
  "option_outcome r io io' \<longleftrightarrow>
     (case r of
        Return rc \<Rightarrow> rc = 0 \<and> err_bytes io' = err_bytes io \<or> rc = 1 \<and> err_bytes io' \<noteq> []
      | _ \<Rightarrow> io' = io)"

lemma main_option_defined: "\<exists>r io'. main_option C argv idx opt io = Done (r, io') \<and> option_outcome r io io'"
proof -
  let ?a = "argv ! idx"
  consider "?a = []" | cs where "?a = 0x2d # cs" | c cs where "?a = c # cs" "c \<noteq> 0x2d"
    by (cases ?a) auto
  then show ?thesis
  proof cases
    case (2 cs)
    show ?thesis
    proof (cases cs)
      case Nil
      then show ?thesis using 2 by (simp add: main_option_def peek_def run_simps option_outcome_def Let_def)
    next
      case (Cons d ds)
      have "((0x2d # d # ds) @ [0]) ! 2 = (if ds = [] then 0 else hd ds)" by (cases ds) auto
      then show ?thesis
        using 2 Cons
        by (auto simp: main_option_def peek_def run_simps option_outcome_def Let_def usage_def
            split: option.splits prod.splits)
    qed
  qed (simp_all add: main_option_def peek_def run_simps option_outcome_def Let_def)
qed

lemma main_options_defined:
  "\<exists>r io'. main_options C argv idx opt io = Done (r, io') \<and>
     (case r of Inl rc \<Rightarrow> rc = 0 \<and> err_bytes io' = err_bytes io \<or> rc = 1 \<and> err_bytes io' \<noteq> [] | Inr _ \<Rightarrow> io' = io)"
proof (induction C argv idx opt io rule: main_options.induct)
  case (1 C argv idx opt io)
  show ?case
  proof (cases "idx < length argv")
    case True
    obtain r io' where r: "main_option C argv idx opt io = Done (r, io')" "option_outcome r io io'"
      using main_option_defined by blast
    show ?thesis
    proof (cases r)
      case (Next idx' opt')
      then have io: "io' = io" using r(2) by (simp add: option_outcome_def)
      show ?thesis
        using True Next r(1) "1.IH" [OF True r(1) refl Next] unfolding io
        by (subst main_options.simps) (simp add: run_simps)
    qed (use True r in \<open>subst main_options.simps, simp add: run_simps option_outcome_def\<close>)+
  next
    case False
    then show ?thesis by (subst main_options.simps) simp
  qed
qed

section \<open>Properties\<close>

definition sample_machine :: machine where
  "sample_machine =
     \<lparr>build = sample_cfg, sys = sample_env, simd = Sse2, ssse3 = True, zone_info = (\<lambda>t. (0, bytes_of ''UTC'')),
      long_max = 2 ^ 63 - 1, junk = (\<lambda>i. 0xcc)\<rparr>"

lemma sample_machine_sys: "sys sample_machine = sample_env" "long_max sample_machine = 2 ^ 63 - 1"
  by (simp_all add: sample_machine_def)

text \<open>
  Claim C20. Every run of the program ends: on a sane clock and a system that stops interrupting, it returns
  from every command line whatever, with an exit status of 0, 1 or 2, without doing anything undefined,
  and it has written to the error stream exactly when the status is not 0.
\<close>

theorem cli_exit_status:
  assumes "sane_clock (sys C)" "gen_ok w" "calm (sys C) T"
  shows "\<exists>rc io' w'. chronoid_gen_main C argv no_output w = Done (rc, io', w') \<and> gen_ok w'
    \<and> rc \<in> {0, 1, 2} \<and> (rc = 0 \<longleftrightarrow> err_bytes io' = [])"
proof -
  obtain r io where r: "main_options C argv 1 initial_options no_output = Done (r, io)"
      "case r of Inl rc \<Rightarrow> rc = 0 \<and> err_bytes io = [] \<or> rc = 1 \<and> err_bytes io \<noteq> [] | Inr _ \<Rightarrow> io = no_output"
    using main_options_defined [of C argv 1 initial_options no_output] unfolding streams.select_convs by blast
  show ?thesis
  proof (cases r)
    case (Inl rc)
    then show ?thesis using r assms(2) by (auto simp: chronoid_gen_main_def run_simps)
  next
    case (Inr x)
    then obtain idx opt where x: "r = Inr (idx, opt)" "io = no_output" using r(2) by (cases x) simp
    show ?thesis
      using r(1) x assms(2) generate_outcome [OF assms, of "nat (opt_count opt)" opt no_output]
        parse_args_run [of "drop idx argv" C opt no_output]
      by (auto simp: chronoid_gen_main_def run_simps payload_message_def text_lines_def)
  qed
qed

lemma cli_exit_status_witness:
  "\<exists>rc io' w'. chronoid_gen_main sample_machine [bytes_of ''chronoid-gen'', bytes_of ''-x''] no_output const_world
      = Done (rc, io', w') \<and> rc \<in> {0, 1, 2} \<and> (rc = 0 \<longleftrightarrow> err_bytes io' = [])"
  using cli_exit_status [of sample_machine const_world 1 "[bytes_of ''chronoid-gen'', bytes_of ''-x'']"]
    sample_sane(1,2) const_world_ok
  unfolding sample_machine_sys by blast

text \<open>
  Claim C9. Parse mode, on every list of arguments: the arguments before the first one that is not a valid
  identifier of an allowed format are printed, in order and in the chosen projection; when there is
  no such argument the status is 0 and the error stream is empty, otherwise the status is 1, there is
  a message, and nothing after that argument is printed. The random source is not touched.
\<close>

theorem cli_parse_mode:
  assumes "list_all (opt_ok (long_max C)) xs" "args \<noteq> []" "positional (hd args)"
    and "good = takeWhile (\<lambda>s. accepted (settings xs) s \<noteq> None) args"
  shows "\<exists>rc e. chronoid_gen_main C (p # opts_args xs @ args) no_output w =
      Done (rc, \<lparr>out_bytes = concat (map (\<lambda>s. ident_view C (settings xs) (the (accepted (settings xs) s))) good),
                 err_bytes = e\<rparr>, w)
    \<and> (if good = args then rc = 0 \<and> e = [] else rc = 1 \<and> e \<noteq> [])"
proof -
  have good: "(\<forall>s \<in> set args. accepted (settings xs) s \<noteq> None) \<longleftrightarrow> good = args"
    unfolding assms(4) by (auto simp: takeWhile_eq_all_conv)
  obtain e where "parse_args args C (settings xs) no_output = Done (if good = args then 0 else 1,
      put e Stderr (put (concat (map (\<lambda>s. ident_view C (settings xs) (the (accepted (settings xs) s))) good))
        Stdout no_output))" "e = [] \<longleftrightarrow> good = args"
    using parse_args_run [of args C "settings xs" no_output] unfolding assms(4) [symmetric] good by blast
  then show ?thesis by (auto simp: main_parse_mode [OF assms(1-3)] run_simps)
qed

lemma cli_parse_mode_witness:
  "\<exists>e. e \<noteq> [] \<and> chronoid_gen_main sample_machine [bytes_of ''chronoid-gen'', sample_text, [], sample_text]
      no_output const_world = Done (1, \<lparr>out_bytes = sample_text @ [NEWLINE], err_bytes = e\<rparr>, const_world)"
proof -
  have acc: "accepted (settings []) sample_text = Some (Id_ksuid sample_ksuid)" "accepted (settings []) [] = None"
    by (simp_all add: accepted_def length_sample_text sample_parses settings_def initial_options_def)
  have "ksuid_text sample_ksuid = sample_text" by (rule ksuid_codec.enc_dec [OF sample_parses])
  then have view: "ident_view C (settings []) (Id_ksuid sample_ksuid) = sample_text @ [NEWLINE]" for C
    by (simp add: settings_def initial_options_def prefix_text_def ksuid_view_def)
  have "positional sample_text" by (simp add: positional_def sample_text_def)
  then show ?thesis
    using cli_parse_mode [of sample_machine "[]" "[sample_text, [], sample_text]" "[sample_text]"
        "bytes_of ''chronoid-gen''" const_world]
    by (auto simp: acc view opts_args_def simp del: ident_view.simps)
qed

text \<open>
  A payload projection of a UUIDv7 never happens: with \<open>-f payload --format=uuidv7\<close> (in any
  order, among any other options) the program prints nothing on its output stream, whether it was
  asked to generate or to parse, and ends with status 1 and a message.
\<close>

theorem cli_payload_rejected:
  assumes "list_all (opt_ok (long_max C)) xs" "args = [] \<or> positional (hd args)"
    and "opt_format (settings xs) = FMT_PAYLOAD" "opt_idformat (settings xs) = IDFMT_UUIDV7"
  shows "\<exists>e. e \<noteq> [] \<and> chronoid_gen_main C (p # opts_args xs @ args) no_output w =
    Done (1, \<lparr>out_bytes = [], err_bytes = e\<rparr>, w)"
proof (cases args)
  case Nil
  then show ?thesis
    using assms by (simp add: main_generation_mode payload_message_def text_lines_def)
next
  case (Cons s ss)
  have "accepted (settings xs) s = None"
    using assms(3,4) settings_explicit [OF assms(4)] by (simp add: accepted_def)
  then show ?thesis
    using parse_one_rejected [of "settings xs" s C no_output] assms(1,2) Cons
      main_parse_mode [OF assms(1), of args p no_output w]
    by (auto simp: run_simps)
qed

lemma cli_payload_rejected_witness:
  "\<exists>e. e \<noteq> [] \<and> chronoid_gen_main sample_machine
      (bytes_of ''chronoid-gen'' # opts_args [Opt_format IDFMT_UUIDV7, Opt_v, Opt_f FMT_PAYLOAD] @ [sample_text])
      no_output const_world = Done (1, \<lparr>out_bytes = [], err_bytes = e\<rparr>, const_world)"
  by (rule cli_payload_rejected) (simp_all add: settings_def initial_options_def positional_def sample_text_def)

text \<open>
  Claim C22. Generation mode: with status 0 the program has printed exactly as many identifiers as asked for,
  all of the chosen format; a failing generator ends the run with status 2 and a message, after the
  identifiers generated before it, which are printed whole.
\<close>

theorem cli_generation:
  assumes "sane_clock (sys C)" "gen_ok w" "calm (sys C) T" "list_all (opt_ok (long_max C)) xs"
    and "\<not> (opt_format (settings xs) = FMT_PAYLOAD \<and> opt_idformat (settings xs) = IDFMT_UUIDV7)"
  shows "\<exists>rc e ids w'. chronoid_gen_main C (p # opts_args xs) no_output w =
      Done (rc, \<lparr>out_bytes = concat (map (ident_view C (settings xs)) ids), err_bytes = e\<rparr>, w') \<and> gen_ok w'
    \<and> list_all (\<lambda>i. wf_ident i \<and> ident_format i = opt_idformat (settings xs)) ids
    \<and> (rc = 0 \<and> e = [] \<and> int (length ids) = opt_count (settings xs)
       \<or> rc = 2 \<and> e \<noteq> [] \<and> int (length ids) < opt_count (settings xs))"
proof -
  let ?n = "nat (opt_count (settings xs))"
  have n: "int ?n = opt_count (settings xs)" using settings_count [OF assms(4)] by simp
  obtain rc e ids w' where g: "generate ?n C (settings xs) no_output w =
      Done (rc, put e Stderr (put (concat (map (ident_view C (settings xs)) ids)) Stdout no_output), w')"
    "gen_ok w'" "list_all (\<lambda>i. wf_ident i \<and> ident_format i = opt_idformat (settings xs)) ids"
    "rc = 0 \<and> e = [] \<and> length ids = ?n \<or> rc = 2 \<and> e \<noteq> [] \<and> length ids < ?n"
    using generate_outcome [OF assms(1-3), of ?n "settings xs" no_output] by blast
  have "chronoid_gen_main C (p # opts_args xs) no_output w =
      Done (rc, \<lparr>out_bytes = concat (map (ident_view C (settings xs)) ids), err_bytes = e\<rparr>, w')"
    using main_generation_mode [OF assms(4), of p no_output w] assms(5) g(1) by auto
  moreover have "rc = 0 \<and> e = [] \<and> int (length ids) = opt_count (settings xs)
      \<or> rc = 2 \<and> e \<noteq> [] \<and> int (length ids) < opt_count (settings xs)"
    using g(4) n by auto
  ultimately show ?thesis using g(2,3) by blast
qed

lemma cli_generation_witness:
  "\<exists>rc e ids w'. chronoid_gen_main sample_machine (bytes_of ''chronoid-gen'' # opts_args [Opt_n 3]) no_output const_world =
      Done (rc, \<lparr>out_bytes = concat (map (ident_view sample_machine (settings [Opt_n 3])) ids), err_bytes = e\<rparr>, w')
    \<and> (rc = 0 \<and> length ids = 3 \<or> rc = 2 \<and> e \<noteq> [])"
proof -
  have "sane_clock (sys sample_machine)" "calm (sys sample_machine) 1" "list_all (opt_ok (long_max sample_machine)) [Opt_n 3]"
    by (simp_all only: sample_machine_sys sample_sane) simp
  moreover have "\<not> (opt_format (settings [Opt_n 3]) = FMT_PAYLOAD \<and> opt_idformat (settings [Opt_n 3]) = IDFMT_UUIDV7)"
    and count: "opt_count (settings [Opt_n 3]) = 3"
    by (simp_all add: settings_def initial_options_def)
  ultimately have "\<exists>rc e ids w'. chronoid_gen_main sample_machine (bytes_of ''chronoid-gen'' # opts_args [Opt_n 3])
      no_output const_world =
      Done (rc, \<lparr>out_bytes = concat (map (ident_view sample_machine (settings [Opt_n 3])) ids), err_bytes = e\<rparr>, w')
    \<and> gen_ok w' \<and> list_all (\<lambda>i. wf_ident i \<and> ident_format i = opt_idformat (settings [Opt_n 3])) ids
    \<and> (rc = 0 \<and> e = [] \<and> int (length ids) = 3 \<or> rc = 2 \<and> e \<noteq> [] \<and> int (length ids) < 3)"
    using cli_generation [of sample_machine const_world 1 "[Opt_n 3]" "bytes_of ''chronoid-gen''", OF _ const_world_ok]
    unfolding count by blast
  moreover have "int (length ids) = 3 \<Longrightarrow> length ids = 3" for ids :: "ident list" by simp
  ultimately show ?thesis by blast
qed

section \<open>From generation to parsing\<close>

lemma digit_chars_no_dash:
  shows "d < 62 \<Longrightarrow> b62_char d \<noteq> 0x2d" and "d < 16 \<Longrightarrow> hex_char d \<noteq> 0x2d"
proof -
  have "list_all (\<lambda>d. b62_char d \<noteq> 0x2d) [0..<62]" "list_all (\<lambda>d. hex_char d \<noteq> 0x2d) [0..<16]" by code_simp+
  then show "d < 62 \<Longrightarrow> b62_char d \<noteq> 0x2d" and "d < 16 \<Longrightarrow> hex_char d \<noteq> 0x2d"
    by (auto simp: list_all_iff)
qed

lemma ident_text_length: "wf_ident i \<Longrightarrow> length (ident_text i) = (if ident_format i = IDFMT_KSUID then 27 else 36)"
  by (cases i) (simp_all add: ksuid_text_def b62_string_def uuid_text_def wf_uuidv7_def hex_text_def)

lemma ident_text_positional:
  assumes "wf_ident i"
  shows "positional (ident_text i)"
proof (cases i)
  case (Id_ksuid k)
  have "length (be_digits 62 27 (bytes_val (ksuid_b k))) = 27" by simp
  then obtain d ds where d: "be_digits 62 27 (bytes_val (ksuid_b k)) = d # ds"
    by (cases "be_digits 62 27 (bytes_val (ksuid_b k))") auto
  then have "d < 62" using be_digits_less [of 62 27 "bytes_val (ksuid_b k)"] by simp
  then show ?thesis
    using Id_ksuid digit_chars_no_dash(1) [of d] by (simp add: positional_def ksuid_text_def b62_string_def d)
next
  case (Id_uuidv7 u)
  then have "length (uuid_b u) = 16" using assms by (simp add: wf_uuidv7_def)
  then show ?thesis
    using Id_uuidv7 digit_chars_no_dash(2) [OF nibbles_less(1)]
    by (elim list_16) (simp add: positional_def uuid_text_def hex_text_def hex_digits_def hex_pair_def)
qed

lemma ident_text_accepted: "wf_ident i \<Longrightarrow> accepted (settings []) (ident_text i) = Some i"
  using ident_text_length [of i]
  by (cases i) (simp_all add: accepted_def settings_def initial_options_def ksuid_codec.dec_enc uuid_codec.dec_enc)

lemma string_view:
  "opt_format opt = FMT_STRING \<Longrightarrow> \<not> opt_verbose opt \<Longrightarrow> ident_view C opt i = ident_text i @ [NEWLINE]"
  by (cases i) (simp_all add: prefix_text_def ksuid_view_def uuidv7_view_def)

lemma parse_texts:
  assumes "list_all wf_ident ids" "ids \<noteq> []"
  shows "chronoid_gen_main C (p # map ident_text ids) no_output w =
     Done (0, \<lparr>out_bytes = concat (map (\<lambda>i. ident_text i @ [NEWLINE]) ids), err_bytes = []\<rparr>, w)"
proof -
  let ?ss = "map ident_text ids"
  have acc: "\<forall>i \<in> set ids. accepted (settings []) (ident_text i) = Some i"
    using assms(1) by (simp add: list_all_iff ident_text_accepted)
  then have good: "\<forall>s \<in> set ?ss. accepted (settings []) s \<noteq> None" by auto
  have "positional (hd ?ss)" using assms by (cases ids) (simp_all add: ident_text_positional)
  then have run: "chronoid_gen_main C (p # ?ss) no_output w =
      run_bind (parse_args ?ss C (settings []) no_output) (\<lambda>(rc, io). Done (rc, io, w))"
    using main_parse_mode [of C "[]" ?ss p no_output w] assms(2) by (simp add: opts_args_def)
  obtain e where e: "parse_args ?ss C (settings []) no_output =
      Done (if \<forall>s \<in> set ?ss. accepted (settings []) s \<noteq> None then 0 else 1,
        put e Stderr (put (concat (map (\<lambda>s. ident_view C (settings []) (the (accepted (settings []) s)))
          (takeWhile (\<lambda>s. accepted (settings []) s \<noteq> None) ?ss))) Stdout no_output))"
      "e = [] \<longleftrightarrow> (\<forall>s \<in> set ?ss. accepted (settings []) s \<noteq> None)"
    by (rule exE [OF parse_args_run [of ?ss C "settings []" no_output]]) (elim conjE, rule that)
  have tw: "takeWhile (\<lambda>s. accepted (settings []) s \<noteq> None) ?ss = ?ss"
    using good by (simp add: takeWhile_eq_all_conv)
  have mp: "map (\<lambda>s. ident_view C (settings []) (the (accepted (settings []) s))) ?ss =
      map (\<lambda>i. ident_text i @ [NEWLINE]) ids"
    using acc string_view [of "settings []" C] by (simp add: settings_def initial_options_def)
  have "e = []" using e(2) good by blast
  then show ?thesis
    unfolding run e(1) if_P [OF good] tw mp by (simp add: run_simps)
qed

text \<open>
  Claim C21. What one run of the program generates, another run accepts: when generation with the plain
  projection ends with status 0, its output is the requested number of lines, and the program started
  with those lines as arguments (by another build, on another machine) prints exactly the same output
  and ends with status 0.
\<close>

theorem cli_round_trip:
  assumes "sane_clock (sys C)" "gen_ok w" "calm (sys C) T" "list_all (opt_ok (long_max C)) xs"
    and "opt_format (settings xs) = FMT_STRING" "\<not> opt_verbose (settings xs)"
    and "chronoid_gen_main C (p # opts_args xs) no_output w = Done (0, io, w')"
  shows "\<exists>texts. int (length texts) = opt_count (settings xs) \<and> err_bytes io = []
    \<and> out_bytes io = concat (map (\<lambda>t. t @ [NEWLINE]) texts)
    \<and> chronoid_gen_main C' (p' # texts) no_output v = Done (0, io, v)"
proof -
  let ?n = "nat (opt_count (settings xs))"
  have n: "int ?n = opt_count (settings xs)" "0 < ?n" using settings_count [OF assms(4)] by simp_all
  obtain rc e ids w'' where g: "generate ?n C (settings xs) no_output w =
      Done (rc, put e Stderr (put (concat (map (ident_view C (settings xs)) ids)) Stdout no_output), w'')"
    "list_all (\<lambda>i. wf_ident i \<and> ident_format i = opt_idformat (settings xs)) ids"
    "rc = 0 \<and> e = [] \<and> length ids = ?n \<or> rc = 2 \<and> e \<noteq> [] \<and> length ids < ?n"
    using generate_outcome [OF assms(1-3), of ?n "settings xs" no_output] by blast
  have "generate ?n C (settings xs) no_output w = Done (0, io, w')"
    using main_generation_mode [OF assms(4), of p no_output w] assms(5,7) by simp
  moreover have view: "ident_view C (settings xs) = (\<lambda>i. ident_text i @ [NEWLINE])"
    by (rule ext, rule string_view [OF assms(5,6)])
  ultimately have r: "length ids = ?n"
      "io = \<lparr>out_bytes = concat (map (\<lambda>i. ident_text i @ [NEWLINE]) ids), err_bytes = []\<rparr>"
    using g(1,3) unfolding view by auto
  have "list_all wf_ident ids" using g(2) by (auto simp: list_all_iff)
  moreover have "ids \<noteq> []" using r(1) n(2) by auto
  ultimately have "chronoid_gen_main C' (p' # map ident_text ids) no_output v = Done (0, io, v)"
    using parse_texts [of ids C' p' v] r(2) by simp
  then show ?thesis using r n(1) by (intro exI [of _ "map ident_text ids"]) (simp add: comp_def)
qed

lemma cli_round_trip_witness:
  "\<exists>io w' texts. chronoid_gen_main sample_machine [bytes_of ''chronoid-gen''] no_output const_world = Done (0, io, w')
    \<and> length texts = 1 \<and> chronoid_gen_main sample_machine (bytes_of ''chronoid-gen'' # texts) no_output const_world
      = Done (0, io, const_world)"
proof -
  let ?p = "uninit sample_machine 16" and ?out = "\<lparr>ksuid_b = uninit sample_machine 20\<rparr>"
  have fill: "chronoid_internal_fill_random cfg E buf n (advance const_world) =
      Done (0, replicate (length buf) 0xab, advance const_world)" for cfg E buf n
    by (simp add: chronoid_internal_fill_random_def const_world_def advance_def sample_world_def)
  have "\<exists>k w'. chronoid_ksuid_new sample_cfg sample_env ?p ?out const_world = Done (CHRONOID_KSUID_OK, k, w')"
    by (simp add: chronoid_ksuid_new_def chronoid_ksuid_new_with_time_def fill sample_env_def
        i64_chk_def i64_defs run_simps)
  moreover have "wf_ksuid ?out" by (simp add: wf_ksuid_def)
  ultimately obtain k w' where k: "wf_ksuid k"
      "chronoid_ksuid_new sample_cfg sample_env ?p ?out const_world = Done (CHRONOID_KSUID_OK, k, w')"
    using ksuid_new_outcome [OF sample_sane(1) const_world_ok sample_sane(2), of ?out ?p sample_cfg] by auto
  have build: "build sample_machine = sample_cfg" by (simp add: sample_machine_def)
  have set: "settings [] = initial_options" by (simp add: settings_def)
  let ?io = "put (ksuid_text k @ [NEWLINE]) Stdout no_output"
  have init: "nat (opt_count initial_options) = Suc 0" "opt_format initial_options \<noteq> FMT_PAYLOAD"
    by (simp_all add: initial_options_def)
  have gen: "generate (Suc 0) sample_machine initial_options no_output const_world = Done (0, ?io, w')"
    using k by (simp add: generate_one_def build sample_machine_sys run_simps print_one_ksuid_put prefix_text_def
        ksuid_view_def) (simp add: initial_options_def run_simps prefix_text_def)
  have run: "chronoid_gen_main sample_machine [bytes_of ''chronoid-gen''] no_output const_world = Done (0, ?io, w')"
    using main_generation_mode [of sample_machine "[]" "bytes_of ''chronoid-gen''" no_output const_world]
      gen by (simp add: opts_args_def set init del: generate.simps)
  then show ?thesis
    using cli_round_trip [of sample_machine const_world 1 "[]" "bytes_of ''chronoid-gen''" ?io w' sample_machine
        "bytes_of ''chronoid-gen''" const_world] sample_sane(1,2) const_world_ok
    unfolding sample_machine_sys
    by (auto simp: opts_args_def set) (auto simp: initial_options_def)
qed

end
