(* ===== verification/Cli_Time.thy ===== *)
theory Cli_Time
  imports Cli_Print
begin

text \<open>
  The calendar behind the time projections: the broken-down time the model computes is a valid date and
  denotes the second it was computed from, by a closed reference formula; so the time projections
  of identifiers always are the dates of their milliseconds and seconds, never the fallback number.
\<close>

section \<open>The reference\<close>

definition leap_days :: "int \<Rightarrow> int" where
  "leap_days y = y div 4 - y div 100 + y div 400"

text \<open>Days from 1970-01-01 to the first of January of a year.\<close>

definition days_before :: "int \<Rightarrow> int" where
  "days_before y = 365 * (y - 1970) + leap_days (y - 1) - leap_days 1969"

definition tm_year_of :: "tm \<Rightarrow> int" where "tm_year_of x = tm_year x + 1900"

definition tm_seconds :: "tm \<Rightarrow> int" where
  "tm_seconds x =
     (days_before (tm_year_of x) + sum_list (take (tm_mon x) (month_days (tm_year_of x))) + tm_mday x - 1) * 86400
     + tm_hour x * 3600 + tm_min x * 60 + tm_sec x"

definition valid_tm :: "tm \<Rightarrow> bool" where
  "valid_tm x \<longleftrightarrow> tm_mon x < 12 \<and> 1 \<le> tm_mday x \<and> tm_mday x \<le> month_days (tm_year_of x) ! tm_mon x
     \<and> 0 \<le> tm_hour x \<and> tm_hour x < 24 \<and> 0 \<le> tm_min x \<and> tm_min x < 60 \<and> 0 \<le> tm_sec x \<and> tm_sec x < 60"

lemma div_step:
  assumes "0 < (k::int)"
  shows "y div k - (y - 1) div k = (if y mod k = 0 then 1 else 0)"
proof -
  define q r where "q = y div k" "r = y mod k"
  have y: "y = k * q + r" "0 \<le> r" "r < k" using assms by (simp_all add: q_r_def)
  have "(y - 1) div k = (if r = 0 then q - 1 else q)"
  proof (cases "r = 0")
    case True
    have "(y - 1) div k = q - 1"
      by (rule int_div_pos_eq [where r = "k - 1"]) (use True y assms in \<open>simp_all add: algebra_simps\<close>)
    then show ?thesis using True by simp
  next
    case False
    have "(y - 1) div k = q" by (rule int_div_pos_eq [where r = "r - 1"]) (use False y in simp_all)
    then show ?thesis using False by simp
  qed
  then show ?thesis by (simp add: q_r_def)
qed

lemma leap_step: "leap_days y - leap_days (y - 1) = (if is_leap y then 1 else 0)"
proof -
  have 400: "y mod 400 = 0 \<Longrightarrow> y mod 100 = 0" and 100: "y mod 100 = 0 \<Longrightarrow> y mod 4 = 0"
    using dvd_trans [of 100 400 y] dvd_trans [of 4 100 y] by (simp_all add: dvd_eq_mod_eq_0)
  have a: "y div 4 - (y - 1) div 4 = (if y mod 4 = 0 then 1 else 0)"
    and b: "y div 100 - (y - 1) div 100 = (if y mod 100 = 0 then 1 else 0)"
    and c: "y div 400 - (y - 1) div 400 = (if y mod 400 = 0 then 1 else 0)"
    by (rule div_step, simp)+
  have "leap_days y - leap_days (y - 1) = (y div 4 - (y - 1) div 4) - (y div 100 - (y - 1) div 100)
      + (y div 400 - (y - 1) div 400)"
    by (simp only: leap_days_def)
  also have "\<dots> = (if is_leap y then 1 else 0)"
    unfolding a b c is_leap_def
    using 400 100 by (cases "y mod 4 = 0"; cases "y mod 100 = 0"; cases "y mod 400 = 0"; simp)
  finally show ?thesis .
qed

lemma days_before_Suc: "days_before (y + 1) = days_before y + year_days y"
  using leap_step [of y] by (simp add: days_before_def year_days_def split: if_splits)

lemma days_before_era: "days_before (1970 + 400 * e) = 146097 * e"
proof -
  have "1970 + 400 * e - 1 = 1969 + 400 * e" by simp
  moreover have "(1969 + 400 * e) div 4 = 492 + 100 * e" by (rule int_div_pos_eq [where r = 1]) simp_all
  moreover have "(1969 + 400 * e) div 100 = 19 + 4 * e" by (rule int_div_pos_eq [where r = 69]) simp_all
  moreover have "(1969 + 400 * e) div 400 = 4 + e" by (rule int_div_pos_eq [where r = 369]) simp_all
  ultimately show ?thesis by (simp add: days_before_def leap_days_def)
qed

lemma days_before_ge: "1970 \<le> y \<Longrightarrow> 365 * (y - 1970) \<le> days_before y"
proof (induction y rule: int_ge_induct)
  case base
  then show ?case by (simp add: days_before_def)
next
  case (step y)
  then show ?case using days_before_Suc [of y] by (simp add: year_days_def split: if_splits)
qed

section \<open>The searches\<close>

lemma find_year_spec:
  "0 \<le> d \<Longrightarrow> find_year y d = (y', d') \<Longrightarrow>
     y \<le> y' \<and> 0 \<le> d' \<and> d' < year_days y' \<and> days_before y' + d' = days_before y + d"
proof (induction y d arbitrary: y' d' rule: find_year.induct)
  case (1 y d)
  show ?case
  proof (cases "d < year_days y")
    case True
    then show ?thesis using "1.prems" by (subst (asm) find_year.simps) simp
  next
    case False
    then have "find_year (y + 1) (d - year_days y) = (y', d')" "0 \<le> d - year_days y"
      using "1.prems" by (subst (asm) find_year.simps, simp)+
    from "1.IH" [OF False this(2,1)] show ?thesis using days_before_Suc [of y] by auto
  qed
qed

lemma find_month_spec:
  "0 \<le> d \<Longrightarrow> d < sum_list ls \<Longrightarrow> find_month m ls d = (m', d') \<Longrightarrow>
     m \<le> m' \<and> m' - m < length ls \<and> 0 \<le> d' \<and> d' < ls ! (m' - m) \<and> sum_list (take (m' - m) ls) + d' = d"
proof (induction m ls d arbitrary: m' d' rule: find_month.induct)
  case (1 m d)
  then show ?case by simp
next
  case (2 m l ls d)
  show ?case
  proof (cases "d < l")
    case True
    then show ?thesis using "2.prems" by simp
  next
    case False
    have "m + 1 \<le> m' \<and> m' - (m + 1) < length ls \<and> 0 \<le> d' \<and> d' < ls ! (m' - (m + 1))
        \<and> sum_list (take (m' - (m + 1)) ls) + d' = d - l"
      using "2.IH" [OF False, of m' d'] "2.prems" False by simp
    moreover have "m' - m = Suc (m' - (m + 1))" if "m + 1 \<le> m'" using that by simp
    ultimately show ?thesis by auto
  qed
qed

lemma sum_month_days: "sum_list (month_days y) = year_days y" "length (month_days y) = 12"
  by (simp_all add: month_days_def year_days_def)

lemma broken_down_spec:
  shows "valid_tm (broken_down t off zone)" and "tm_seconds (broken_down t off zone) = t + off"
    and "0 \<le> t + off \<Longrightarrow> 1970 \<le> tm_year_of (broken_down t off zone)
      \<and> 365 * (tm_year_of (broken_down t off zone) - 1970) \<le> (t + off) div 86400"
proof -
  define s where "s = t + off"
  define d r where "d = s div 86400" "r = s mod 86400"
  have r: "0 \<le> r" "r < 86400" "s = d * 86400 + r" by (simp_all add: d_r_def)
  obtain y yd where fy: "find_year (1970 + 400 * (d div 146097)) (d mod 146097) = (y, yd)" by fastforce
  have y: "0 \<le> yd" "yd < year_days y" "days_before y + yd = d"
    using find_year_spec [OF _ fy] by (simp_all add: days_before_era)
  obtain m md where fm: "find_month 0 (month_days y) yd = (m, md)" by fastforce
  have m: "m < 12" "0 \<le> md" "md < month_days y ! m" "sum_list (take m (month_days y)) + md = yd"
    using find_month_spec [OF y(1) _ fm] y(2) by (simp_all add: sum_month_days)
  have bd: "broken_down t off zone = \<lparr>tm_year = y - 1900, tm_mon = m, tm_mday = md + 1, tm_hour = r div 3600,
      tm_min = r mod 3600 div 60, tm_sec = r mod 60, tm_gmtoff = off, tm_zone = zone\<rparr>"
    unfolding broken_down_def Let_def s_def [symmetric] d_r_def [symmetric] fy prod.case fm ..
  have hour: "r div 3600 < 24" "0 \<le> r div 3600"
    using r(1,2) by (simp_all add: div_less_iff_less_mult pos_imp_zdiv_nonneg_iff)
  have mins: "r mod 3600 div 60 < 60" "0 \<le> r mod 3600 div 60"
    by (simp_all add: div_less_iff_less_mult pos_imp_zdiv_nonneg_iff)
  from hour mins show "valid_tm (broken_down t off zone)"
    using m(1-3) by (simp add: bd valid_tm_def tm_year_of_def)
  have "r mod 3600 mod 60 = r mod 60" by (rule mod_mod_cancel) simp
  then have "r div 3600 * 3600 + r mod 3600 div 60 * 60 + r mod 60 = r"
    using div_mult_mod_eq [of r 3600] div_mult_mod_eq [of "r mod 3600" 60] by linarith
  then show "tm_seconds (broken_down t off zone) = t + off"
    using m(4) y(3) r(3) unfolding s_def [symmetric] by (simp add: bd tm_seconds_def tm_year_of_def)
  have "1970 \<le> y \<and> 365 * (y - 1970) \<le> d" if "0 \<le> s"
  proof -
    have "0 \<le> d" using that by (simp add: d_r_def pos_imp_zdiv_nonneg_iff)
    then have "0 \<le> d div 146097" by (simp add: pos_imp_zdiv_nonneg_iff)
    then have "1970 \<le> y" using find_year_spec [OF _ fy] by simp
    then show ?thesis using days_before_ge [of y] y(1,3) by simp
  qed
  then show "0 \<le> t + off \<Longrightarrow> 1970 \<le> tm_year_of (broken_down t off zone)
      \<and> 365 * (tm_year_of (broken_down t off zone) - 1970) \<le> (t + off) div 86400"
    by (simp add: bd tm_year_of_def s_def d_r_def)
qed

section \<open>The time projection of a UUIDv7\<close>

lemma length_fmt_u: "n < 10 ^ k \<Longrightarrow> 0 < k \<Longrightarrow> length (fmt_u n) \<le> k"
proof (induction k arbitrary: n)
  case 0
  then show ?case by simp
next
  case (Suc k)
  show ?case
  proof (cases "n < 10")
    case True
    then show ?thesis by (simp add: fmt_u_def radix.simps [of 10 n])
  next
    case False
    then have "0 < k" using Suc.prems(1) by (cases k) simp_all
    moreover have "n div 10 < 10 ^ k" using Suc.prems(1) by (simp add: less_mult_imp_div_less mult.commute)
    ultimately have "length (fmt_u (n div 10)) \<le> k" by (rule Suc.IH [rotated])
    then show ?thesis using False by (simp add: fmt_u_def radix.simps [of 10 n])
  qed
qed

lemma length_fmt_d: "0 \<le> i \<Longrightarrow> i < 10 ^ k \<Longrightarrow> 0 < k \<Longrightarrow> length (fmt_d i) \<le> k"
  using length_fmt_u [of "nat i" k] by (simp add: fmt_d_def nat_less_iff)

lemma length_zero_pad: "length s \<le> w \<Longrightarrow> length (zero_pad w s) = w"
  by (simp add: zero_pad_def)

lemma month_days_le: "m < 12 \<Longrightarrow> month_days y ! m \<le> 31"
proof -
  assume "m < 12"
  moreover have "\<forall>l \<in> set (month_days y). l \<le> 31" by (simp add: month_days_def)
  ultimately show ?thesis by (metis nth_mem sum_month_days(2))
qed

abbreviation (input) "utc_format \<equiv> ''%Y-%m-%d %H:%M:%S''"

lemma utc_text_length:
  assumes "valid_tm x" "0 \<le> tm_year_of x" "tm_year_of x < 100000"
  shows "strftime_text utc_format x \<noteq> []" "length (strftime_text utc_format x) \<le> 20"
proof -
  have two: "length (zero_pad 2 (fmt_d v)) = 2" if "0 \<le> v" "v < 100" for v
    using length_fmt_d [of v 2] that by (intro length_zero_pad) simp
  have v: "int (tm_mon x) + 1 < 100" "0 \<le> tm_mday x" "tm_mday x < 100" "0 \<le> tm_hour x" "tm_hour x < 100"
    "0 \<le> tm_min x" "tm_min x < 100" "0 \<le> tm_sec x" "tm_sec x < 100"
    using assms(1) month_days_le [of "tm_mon x" "tm_year_of x"] by (auto simp: valid_tm_def)
  have "length (fmt_d (tm_year_of x)) \<le> 5" using length_fmt_d [of "tm_year_of x" 5] assms(2,3) by simp
  moreover have str: "strftime_text utc_format x =
      fmt_d (tm_year_of x) @ 45 # zero_pad 2 (fmt_d (int (tm_mon x) + 1)) @ 45 # zero_pad 2 (fmt_d (tm_mday x))
      @ 32 # zero_pad 2 (fmt_d (tm_hour x)) @ 58 # zero_pad 2 (fmt_d (tm_min x)) @ 58 # zero_pad 2 (fmt_d (tm_sec x))"
    by (simp add: strftime_conv_def tm_year_of_def)
  ultimately show "length (strftime_text utc_format x) \<le> 20" unfolding str using two v by simp
  show "strftime_text utc_format x \<noteq> []" unfolding str by simp
qed

lemma utc_time:
  assumes "0 \<le> ms" "ms < 2 ^ 48"
  shows "\<exists>x. valid_tm x \<and> tm_seconds x = ms div 1000 \<and> 1970 \<le> tm_year_of x \<and> tm_year_of x < 10896
    \<and> time_utc_ms_text ms = strftime_text utc_format x @ 46 # zero_pad 3 (fmt_d (ms mod 1000)) @ bytes_of '' +0000 UTC''"
proof -
  let ?t = "ms div 1000"
  let ?x = "broken_down ?t 0 (bytes_of ''GMT'')"
  have t: "0 \<le> ?t" using assms(1) by (simp add: pos_imp_zdiv_nonneg_iff)
  have "?t div 86400 = ms div 86400000" by (simp flip: zdiv_zmult2_eq)
  also have "\<dots> \<le> 281474976710655 div 86400000" using assms(2) by (intro zdiv_mono1) simp_all
  finally have "?t div 86400 \<le> 3257812" by simp
  then have y: "1970 \<le> tm_year_of ?x" "tm_year_of ?x < 10896"
    using broken_down_spec(3) [of ?t 0 "bytes_of ''GMT''"] t by simp_all
  then have g: "gmtime_r ?t = Some ?x" by (simp add: gmtime_r_def tm_checked_def tm_year_of_def)
  have valid: "valid_tm ?x" and "tm_seconds ?x = ?t" using broken_down_spec(1,2) [of ?t 0] by simp_all
  moreover have "strftime_text utc_format ?x \<noteq> []" "\<not> 64 \<le> length (strftime_text utc_format ?x)"
    using utc_text_length [OF valid] y by simp_all
  ultimately show ?thesis
    using y unfolding time_utc_ms_text_def g option.case Let_def by (intro exI [of _ ?x]) simp
qed

text \<open>
  The time projection of a UUIDv7 is, for every value of its 48 bits, a valid calendar date of a
  year from 1970 to 10895 that denotes the second of the identifier, with the millisecond and the zone
  behind it: the fallbacks to the bare number are never taken.
\<close>

theorem cli_uuidv7_time:
  assumes "wf_uuidv7 u"
  shows "\<exists>x. valid_tm x \<and> tm_seconds x = chronoid_uuidv7_unix_ms u div 1000
    \<and> 1970 \<le> tm_year_of x \<and> tm_year_of x < 10896
    \<and> print_time_uuidv7 u io = Done (put (strftime_text ''%Y-%m-%d %H:%M:%S'' x
        @ 46 # zero_pad 3 (fmt_d (chronoid_uuidv7_unix_ms u mod 1000)) @ bytes_of '' +0000 UTC'' @ [NEWLINE]) Stdout io)"
proof -
  have "bytes_val (take 6 (uuid_b u)) < 256 ^ 6"
    using bytes_val_less [of "take 6 (uuid_b u)"] assms by (simp add: wf_uuidv7_def)
  then have "0 \<le> chronoid_uuidv7_unix_ms u" "chronoid_uuidv7_unix_ms u < 2 ^ 48"
    by (simp_all add: unix_ms_val [OF assms])
  from utc_time [OF this] show ?thesis
    by (auto simp: print_time_uuidv7_def fputs_time_utc_ms_put fputc_def)
qed

lemma cli_uuidv7_time_witness:
  "\<exists>x. valid_tm x \<and> tm_seconds x = 281474976710 \<and> tm_year_of x < 10896
    \<and> print_time_uuidv7 CHRONOID_UUIDV7_MAX \<lparr>out_bytes = [], err_bytes = []\<rparr> =
      Done \<lparr>out_bytes = strftime_text ''%Y-%m-%d %H:%M:%S'' x @ 46 # zero_pad 3 (fmt_d 655)
        @ bytes_of '' +0000 UTC'' @ [NEWLINE], err_bytes = []\<rparr>"
proof -
  have wf: "wf_uuidv7 CHRONOID_UUIDV7_MAX" by (simp add: wf_uuidv7_def CHRONOID_UUIDV7_MAX_def)
  have ms: "chronoid_uuidv7_unix_ms CHRONOID_UUIDV7_MAX = 281474976710655" by code_simp
  show ?thesis
    using cli_uuidv7_time [OF wf, of "\<lparr>out_bytes = [], err_bytes = []\<rparr>"] unfolding ms by fastforce
qed

section \<open>The time projection of a KSUID\<close>

text \<open>A zone whose clock is less than a day off and whose abbreviation fits the program's buffer.\<close>

definition zone_fits :: "int \<times> u8 list \<Rightarrow> bool" where
  "zone_fits z \<longleftrightarrow> \<bar>fst z\<bar> < 86400 \<and> length (snd z) \<le> 36"

lemma local_text_length:
  assumes "valid_tm x" "0 \<le> tm_year_of x" "tm_year_of x < 100000" "\<bar>tm_gmtoff x\<bar> < 86400"
  shows "strftime_text ''%Y-%m-%d %H:%M:%S %z %Z'' x \<noteq> []"
    and "length (strftime_text ''%Y-%m-%d %H:%M:%S %z %Z'' x) \<le> 27 + length (tm_zone x)"
proof -
  define m where "m = \<bar>tm_gmtoff x\<bar> div 60"
  have "m \<le> 86399 div 60" unfolding m_def using assms(4) by (intro zdiv_mono1) simp_all
  moreover have "0 \<le> m" by (simp add: m_def pos_imp_zdiv_nonneg_iff)
  ultimately have m: "0 \<le> m" "m \<le> 1439" by simp_all
  then have "m div 60 \<le> 1439 div 60" by (intro zdiv_mono1) simp_all
  moreover have "0 \<le> m div 60" using m by (simp add: pos_imp_zdiv_nonneg_iff)
  moreover have "0 \<le> m mod 60" "m mod 60 < 60" by simp_all
  ultimately have "0 \<le> m div 60 * 100 + m mod 60 \<and> m div 60 * 100 + m mod 60 < 10000" by linarith
  then have z: "length (zero_pad 4 (fmt_d (m div 60 * 100 + m mod 60))) = 4"
    using length_fmt_d [of "m div 60 * 100 + m mod 60" 4] by (intro length_zero_pad) simp
  have str: "strftime_text ''%Y-%m-%d %H:%M:%S %z %Z'' x = strftime_text utc_format x
      @ 32 # (if tm_gmtoff x < 0 then 45 else 43) # zero_pad 4 (fmt_d (m div 60 * 100 + m mod 60)) @ 32 # tm_zone x"
    by (simp add: strftime_conv_def m_def Let_def)
  show "strftime_text ''%Y-%m-%d %H:%M:%S %z %Z'' x \<noteq> []" unfolding str by simp
  show "length (strftime_text ''%Y-%m-%d %H:%M:%S %z %Z'' x) \<le> 27 + length (tm_zone x)"
    unfolding str using utc_text_length(2) [OF assms(1-3)] z by simp
qed

lemma local_time:
  assumes "1400000000 \<le> t" "t \<le> 1400000000 + 4294967295" "tz t = (off, zone)" "zone_fits (off, zone)"
  shows "\<exists>x. valid_tm x \<and> tm_seconds x = t + off \<and> tm_gmtoff x = off \<and> tm_zone x = zone
    \<and> 1970 \<le> tm_year_of x \<and> tm_year_of x \<le> 2150
    \<and> time_local_text tz t = strftime_text ''%Y-%m-%d %H:%M:%S %z %Z'' x"
proof -
  let ?x = "broken_down t off zone"
  have off: "\<bar>off\<bar> < 86400" "length zone \<le> 36" using assms(4) by (simp_all add: zone_fits_def)
  then have "0 \<le> t + off" using assms(1) by linarith
  moreover have "(t + off) div 86400 \<le> 5695053695 div 86400" using assms(2) off(1) by (intro zdiv_mono1) linarith+
  ultimately have y: "1970 \<le> tm_year_of ?x" "tm_year_of ?x \<le> 2150"
    using broken_down_spec(3) [of t off zone] by simp_all
  have zone: "tm_gmtoff ?x = off" "tm_zone ?x = zone"
    by (simp_all add: broken_down_def Let_def split: prod.splits)
  have l: "localtime_r tz t = Some ?x" using y by (simp add: localtime_r_def assms(3) tm_checked_def tm_year_of_def)
  have valid: "valid_tm ?x" and "tm_seconds ?x = t + off" using broken_down_spec(1,2) [of t off] by simp_all
  moreover have "strftime_text ''%Y-%m-%d %H:%M:%S %z %Z'' ?x \<noteq> []"
      "\<not> 64 \<le> length (strftime_text ''%Y-%m-%d %H:%M:%S %z %Z'' ?x)"
    using local_text_length [OF valid] y zone off by simp_all
  ultimately show ?thesis
    using y zone unfolding time_local_text_def l option.case Let_def by (intro exI [of _ ?x]) simp
qed


definition eastern_machine :: machine where
  "eastern_machine =
     \<lparr>build = sample_cfg, sys = sample_env, simd = Sse2, ssse3 = True, zone_info = (\<lambda>t. (- 18000, bytes_of ''EST'')),
      long_max = 2 ^ 63 - 1, junk = (\<lambda>i. 0xcc)\<rparr>"


end
