(* ===== verification/Rng_Budget.thy ===== *)
theory Rng_Budget
  imports Rand_Tls
begin

text \<open>
  What one seed of the per-thread generator of \<open>chronoid/rand_tls.c\<close> is used for. The abstract
  generator is a key and a position in the keystream of that key; the theory shows that a thread's
  draws are steps of it, how far the position can get before the key is replaced, and that the
  32-bit block counter does not wrap before that.
\<close>

section \<open>The counter word\<close>

lemma next_counter_word:
  assumes "length st = 16" "m < 2 ^ 32 - 1"
  shows "next_counter (st[12 := of_nat m]) = st[12 := of_nat (Suc m)]"
proof -
  have "unat (of_nat (Suc m) :: u32) = Suc m" using assms(2) by (intro of_nat_inverse) simp_all
  then have "(of_nat m :: u32) + 1 \<noteq> 0" by (metis add.commute nat.distinct(1) of_nat_Suc unat_0)
  then show ?thesis using assms(1) by (simp add: next_counter_def Let_def add.commute)
qed

lemma counter_iter:
  "length st = 16 \<Longrightarrow> st ! 12 = 0 \<Longrightarrow> m < 2 ^ 32 \<Longrightarrow> (next_counter ^^ m) st = st[12 := of_nat m]"
proof (induction m)
  case 0
  then show ?case using list_update_id [of st 12] by simp
next
  case (Suc m)
  then have "(next_counter ^^ Suc m) st = next_counter (st[12 := of_nat m])" by simp
  also have "\<dots> = st[12 := of_nat (Suc m)]" using Suc.prems by (intro next_counter_word) simp_all
  finally show ?case .
qed

lemma seed_state_counter: "seed_state kn ! 12 = 0"
  by (simp add: seed_state_def nth_append)

section \<open>The position in the keystream\<close>

text \<open>
  The state has handed out \<open>p\<close> bytes of the keystream of \<open>kn\<close>: it has made \<open>m\<close> blocks, and the window
  holds the rest of the last one.
\<close>

definition at_key :: "u8 list \<Rightarrow> nat \<Rightarrow> tls_rng \<Rightarrow> bool" where
  "at_key kn p r \<longleftrightarrow> rng_inv r \<and> bytes_emitted r = of_nat p
     \<and> (\<exists>m. rng_state r = (next_counter ^^ m) (seed_state kn) \<and> p + 64 = 64 * m + buf_pos r)
     \<and> rng_stream r = (\<lambda>i. keystream (seed_state kn) (p + i))"

lemma at_key_seed:
  assumes "rng_state r = seed_state kn" "rng_buf r = replicate 64 0" "buf_pos r = 64" "bytes_emitted r = 0"
  shows "at_key kn 0 r"
  using assms seeded_stream [OF assms(1,3)]
  by (auto simp: at_key_def rng_inv_def intro!: exI [where x = 0])

lemma at_key_refill:
  assumes "at_key kn p r"
  shows "at_key kn p (rng_refill r)"
proof (cases "buf_pos r = 64")
  case True
  obtain m where m: "rng_state r = (next_counter ^^ m) (seed_state kn)" "p + 64 = 64 * m + buf_pos r"
    and inv: "rng_inv r" using assms by (auto simp: at_key_def)
  have "rng_refill r = r\<lparr>rng_buf := block_bytes (rng_state r), rng_state := next_counter (rng_state r), buf_pos := 0\<rparr>"
    using True inv by (simp add: rng_refill_def rng_inv_def block_eq)
  then have "\<exists>m. rng_state (rng_refill r) = (next_counter ^^ m) (seed_state kn)
      \<and> p + 64 = 64 * m + buf_pos (rng_refill r)"
    using m True by (intro exI [where x = "Suc m"]) simp
  then show ?thesis
    using assms refill_inv [OF inv] refill_stream [OF inv] refill_fields(1) [of r] by (simp add: at_key_def)
next
  case False
  then show ?thesis using assms by (simp add: rng_refill_def)
qed

lemma at_key_take:
  assumes "at_key kn p r" "buf_pos r + chunk \<le> 64" "rng_take r chunk = (bs, r')"
  shows "at_key kn (p + chunk) r'"
proof -
  have inv: "rng_inv r" using assms(1) by (simp add: at_key_def)
  note t = take_spec [OF inv assms(2,3)]
  have "bytes_emitted r' = bytes_emitted r + of_nat chunk" "rng_state r' = rng_state r" "buf_pos r' = buf_pos r + chunk"
    using assms(3) by (auto simp: rng_take_def)
  moreover have "rng_stream r' = (\<lambda>i. rng_stream r (chunk + i))" using t(3) by (intro ext)
  ultimately show ?thesis
    using assms(1) t(2) by (auto simp: at_key_def add.assoc)
qed

lemma at_key_draw:
  assumes "at_key kn p r" "rng_draw r n = Done (bs, r')"
  shows "at_key kn (p + n) r'"
  using assms
proof (induction r n arbitrary: p bs rule: rng_draw.induct)
  case (1 r n)
  show ?case
  proof (cases "n = 0")
    case True
    then show ?thesis using 1(2,3) by (simp add: rng_draw.simps)
  next
    case False
    define r1 where "r1 = rng_refill r"
    define chunk where "chunk = (if n < 64 - buf_pos r1 then n else 64 - buf_pos r1)"
    have inv: "rng_inv r" using 1(2) by (simp add: at_key_def)
    have pos: "buf_pos r1 < 64" using refill_inv [OF inv] by (simp add: r1_def)
    obtain cs r2 where tk: "rng_take r1 chunk = (cs, r2)" by fastforce
    have "rng_draw r n = run_bind (rng_draw r2 (n - chunk)) (\<lambda>(bs', r). Done (cs @ bs', r))"
      using False pos tk
      by (subst rng_draw.simps) (simp add: Let_def chunk_def [symmetric] r1_def [symmetric])
    then have "run_bind (rng_draw r2 (n - chunk)) (\<lambda>(bs', r). Done (cs @ bs', r)) = Done (bs, r')"
      using 1(3) by simp
    then obtain bs' where rest: "rng_draw r2 (n - chunk) = Done (bs', r')"
      by (auto simp: run_bind_eq_Done)
    have "at_key kn (p + chunk) r2"
      using at_key_refill [OF 1(2)] pos by (intro at_key_take [OF _ _ tk]) (auto simp: r1_def chunk_def)
    from 1(1) [OF False r1_def _ refl chunk_def tk [symmetric] this rest] pos
    have "at_key kn (p + chunk + (n - chunk)) r'" by simp
    then show ?thesis by (simp add: chunk_def split: if_splits)
  qed
qed

lemma at_key_state:
  assumes "at_key kn p r" "p < 2 ^ 38 - 64"
  shows "\<exists>m. rng_state r = (seed_state kn)[12 := of_nat m] \<and> m < 2 ^ 32 \<and> p \<le> 64 * m \<and> 64 * m \<le> p + 64"
proof -
  obtain m where m: "rng_state r = (next_counter ^^ m) (seed_state kn)" "p + 64 = 64 * m + buf_pos r"
    "buf_pos r \<le> 64" using assms(1) by (auto simp: at_key_def rng_inv_def)
  then have "m < 2 ^ 32" using assms(2) by simp
  then show ?thesis using m by (auto simp: counter_iter seed_state_counter)
qed

section \<open>One draw\<close>

text \<open>
  A key in use: how many bytes it has yielded, and the process and the second it was taken in.
\<close>

record key_use =
  k_key :: "u8 list"
  k_pos :: nat
  k_pid :: int
  k_since :: int

text \<open>A key the system delivered in this environment, by the time its \<open>\<tau>\<close> answers were used up.\<close>

definition os_key :: "config \<Rightarrow> env \<Rightarrow> u8 list \<Rightarrow> nat \<Rightarrow> bool" where
  "os_key cfg E kn \<tau> \<longleftrightarrow> length kn = 44 \<and>
     (\<exists>o1 o'. chronoid_os_random_bytes (os_cfg cfg) E (replicate 44 0) 44 o1 = Some (0, kn, o') \<and> tick o' = \<tau>)"

text \<open>
  When a key may be used for another draw: it has yielded less than a mebibyte, the process is still
  the one that took it, and the clock is less than an hour past the moment it was taken, and not before it.
\<close>

definition key_good :: "env \<Rightarrow> nat \<Rightarrow> key_use option \<Rightarrow> bool" where
  "key_good E \<tau> q \<longleftrightarrow>
     (case q of
        None \<Rightarrow> False
      | Some u \<Rightarrow> k_pos u < 2 ^ 20 \<and> env_pid E \<tau> = k_pid u
          \<and> k_since u \<le> now_secs E (\<tau> + 1) \<and> now_secs E (\<tau> + 1) < k_since u + 3600)"

text \<open>
  The abstract generator: no key, or a key in use. A draw at moment \<open>\<tau>\<close> continues under a key that is still
  good; otherwise it starts at the beginning of a new one, or fails and hands out nothing. A wipe or
  a forced reseed (an event without a result) gives up the key.
\<close>

inductive key_step ::
    "config \<Rightarrow> env \<Rightarrow> key_use option \<Rightarrow> (nat \<times> int \<times> u8 list) option \<Rightarrow> key_use option \<Rightarrow> bool"
  for cfg E where
  continues: "key_good E \<tau> (Some u) \<Longrightarrow> b = map (keystream (seed_state (k_key u))) [k_pos u..<k_pos u + length b] \<Longrightarrow>
     key_step cfg E (Some u) (Some (\<tau>, 0, b)) (Some (u\<lparr>k_pos := k_pos u + length b\<rparr>))"
| rekeys: "\<not> key_good E \<tau> q \<Longrightarrow> os_key cfg E kn \<tau>' \<Longrightarrow> b = map (keystream (seed_state kn)) [0..<length b] \<Longrightarrow>
     key_step cfg E q (Some (\<tau>, 0, b))
       (Some \<lparr>k_key = kn, k_pos = length b, k_pid = env_pid E \<tau>', k_since = now_secs E (\<tau>' + 1)\<rparr>)"
| fails: "\<not> key_good E \<tau> q \<Longrightarrow> key_step cfg E q (Some (\<tau>, - 1, b)) q"
| gives_up: "key_step cfg E q None None"

inductive key_steps ::
    "config \<Rightarrow> env \<Rightarrow> key_use option \<Rightarrow> (nat \<times> int \<times> u8 list) option list \<Rightarrow> key_use option \<Rightarrow> bool"
  for cfg E where
  start: "key_steps cfg E q [] q"
| step: "key_step cfg E q a q' \<Longrightarrow> key_steps cfg E q' as q'' \<Longrightarrow> key_steps cfg E q (a # as) q''"

text \<open>The generator's state stands for an abstract one; \<open>k\<close> bounds the size of a single draw.\<close>

definition uses_key :: "config \<Rightarrow> env \<Rightarrow> tls_rng \<Rightarrow> key_use \<Rightarrow> bool" where
  "uses_key cfg E r u \<longleftrightarrow> seeded r \<and> (\<exists>\<tau>. os_key cfg E (k_key u) \<tau>) \<and> at_key (k_key u) (k_pos u) r
     \<and> seed_pid r = k_pid u \<and> seed_time r = k_since u"

definition key_rel :: "config \<Rightarrow> env \<Rightarrow> nat \<Rightarrow> tls_rng \<Rightarrow> key_use option \<Rightarrow> bool" where
  "key_rel cfg E k r q \<longleftrightarrow>
     (case q of
        None \<Rightarrow> \<not> seeded r
      | Some u \<Rightarrow> uses_key cfg E r u \<and> k_pos u < 2 ^ 20 + k)"

lemma map_keystream_shift: "map (\<lambda>i. keystream st (p + i)) [0..<n] = map (keystream st) [p..<p + n]"
  by (intro nth_equalityI) simp_all

lemma uses_key_draw:
  assumes "uses_key cfg E r u" "rng_draw r n = Done (bs, r')"
  shows "bs = map (keystream (seed_state (k_key u))) [k_pos u..<k_pos u + n]"
    and "uses_key cfg E r' (u\<lparr>k_pos := k_pos u + n\<rparr>)"
proof -
  have at: "at_key (k_key u) (k_pos u) r" using assms(1) by (simp add: uses_key_def)
  then have inv: "rng_inv r" "rng_stream r = (\<lambda>i. keystream (seed_state (k_key u)) (k_pos u + i))"
    by (simp_all add: at_key_def)
  obtain r'' where "rng_draw r n = Done (map (rng_stream r) [0..<n], r'')" "seeded r'' = seeded r"
    "seed_pid r'' = seed_pid r" "seed_time r'' = seed_time r"
    using draw_spec [OF inv(1)] by blast
  then have r': "bs = map (rng_stream r) [0..<n]" "seeded r' = seeded r" "seed_pid r' = seed_pid r" "seed_time r' = seed_time r"
    using assms(2) by simp_all
  show "bs = map (keystream (seed_state (k_key u))) [k_pos u..<k_pos u + n]"
    using r'(1) inv(2) by (simp add: map_keystream_shift)
  show "uses_key cfg E r' (u\<lparr>k_pos := k_pos u + n\<rparr>)"
    using assms(1) r'(2-4) at_key_draw [OF at assms(2)] by (simp add: uses_key_def)
qed

text \<open>The code's reseed rule decides that the key is no longer good.\<close>

lemma reseed_iff_not_good:
  assumes "key_rel cfg E k (rng w) q" "k < 2 ^ 63"
  shows "reseed_due E w \<longleftrightarrow> \<not> key_good E (now_tick w) q"
proof (cases q)
  case None
  then show ?thesis using assms(1) by (simp add: key_rel_def key_good_def reseed_due_def)
next
  case (Some u)
  then have u: "uses_key cfg E (rng w) u" "k_pos u < 2 ^ LENGTH(64)" using assms by (simp_all add: key_rel_def)
  then have "word_of_nat (k_pos u) = bytes_emitted (rng w)" by (simp add: uses_key_def at_key_def)
  then have "unat (bytes_emitted (rng w)) = k_pos u" using u(2) by (rule of_nat_inverse)
  then show ?thesis using Some u(1) by (auto simp: key_good_def reseed_due_def uses_key_def)
qed

lemma seed_uses_key:
  assumes "sane_clock E" "chronoid_tls_rng_seed cfg E w = Done (0, w')"
  obtains kn \<tau> where "os_key cfg E kn \<tau>"
    "uses_key cfg E (rng w') \<lparr>k_key = kn, k_pos = 0, k_pid = env_pid E \<tau>, k_since = now_secs E (\<tau> + 1)\<rparr>"
proof -
  obtain kn o' where s: "chronoid_os_random_bytes (os_cfg cfg) E (replicate 44 0) 44 (os w) = Some (0, kn, o')"
    "length kn = 44" "rng_state (rng w') = seed_state kn" "rng_buf (rng w') = replicate 64 0" "buf_pos (rng w') = 64"
    "bytes_emitted (rng w') = 0" "seeded (rng w')" "seed_pid (rng w') = env_pid E (tick o')"
    "seed_time (rng w') = now_secs E (tick o' + 1)"
    using seed_spec [OF assms] by auto
  then have "os_key cfg E kn (tick o')" by (auto simp: os_key_def)
  then show ?thesis using that [of kn "tick o'"] s at_key_seed [OF s(3-6)] by (auto simp: uses_key_def)
qed

lemma random_bytes_key:
  assumes "sane_clock E" "world_ok w" "\<not> in_destructor w" "length buf = n" "n \<le> k" "k < 2 ^ 63"
    and rel: "key_rel cfg E k (rng w) q" and run: "chronoid_random_bytes cfg E buf n w = Done (rc, b, w')"
  shows "\<exists>q'. key_rel cfg E k (rng w') q' \<and> key_step cfg E q (Some (now_tick w, rc, b)) q'"
proof -
  note due = reseed_iff_not_good [OF rel assms(6)]
  obtain w1 where sr: "chronoid_tls_rng_should_reseed E w = Done (reseed_due E w, w1)" "rng w1 = rng w"
    using should_reseed_spec [OF assms(1,2)] by blast
  obtain rc2 w2 where sd:
    "(if reseed_due E w then chronoid_tls_rng_seed cfg E w1 else Done (0, w1)) = Done (rc2, w2)"
    and fin: "(if rc2 < 0 then Done (- 1, buf, w2)
       else run_bind (rng_draw (rng w2) n) (\<lambda>(bs, r). Done (0, buf_put buf 0 bs, w2\<lparr>rng := r\<rparr>)))
      = Done (rc, b, w')"
    using run assms(3) sr(1)
    by (auto simp: chronoid_random_bytes_def run_simps run_bind_eq_Done split: if_splits)
  have drawn: "rc = 0 \<and> length b = n \<and> b = map (keystream (seed_state (k_key u))) [k_pos u..<k_pos u + length b]
      \<and> key_rel cfg E k (rng w') (Some (u\<lparr>k_pos := k_pos u + length b\<rparr>))"
    if u: "uses_key cfg E (rng w2) u" "k_pos u < 2 ^ 20" and z: "rc2 = 0" for u
  proof -
    obtain bs r where r: "rng_draw (rng w2) n = Done (bs, r)" and res: "rc = 0" "b = buf_put buf 0 bs" "w' = w2\<lparr>rng := r\<rparr>"
      using fin z by (auto simp: run_bind_eq_Done)
    note d = uses_key_draw [OF u(1) r]
    have "b = bs" "length b = n" using d(1) res(2) assms(4) by (simp_all add: buf_put_all)
    then show ?thesis using d res u(2) assms(5) by (simp add: key_rel_def)
  qed
  show ?thesis
  proof (cases "reseed_due E w")
    case False
    then obtain u where u: "q = Some u" "key_good E (now_tick w) q" "rc2 = 0" "rng w2 = rng w"
      using due sd sr(2) by (auto simp: key_good_def split: option.splits)
    then have "uses_key cfg E (rng w2) u" "k_pos u < 2 ^ 20" using rel by (simp_all add: key_rel_def key_good_def)
    from drawn [OF this u(3)] show ?thesis
      using key_step.continues [of E "now_tick w" u b cfg] u(1,2) by auto
  next
    case True
    then have seed: "chronoid_tls_rng_seed cfg E w1 = Done (rc2, w2)" and bad: "\<not> key_good E (now_tick w) q"
      using sd due by simp_all
    show ?thesis
    proof (cases "rc2 = 0")
      case True
      obtain kn \<tau> where key: "os_key cfg E kn \<tau>"
        "uses_key cfg E (rng w2) \<lparr>k_key = kn, k_pos = 0, k_pid = env_pid E \<tau>, k_since = now_secs E (\<tau> + 1)\<rparr>"
        using seed_uses_key [OF assms(1)] seed True by metis
      from drawn [OF key(2)] True show ?thesis
        using key_step.rekeys [OF bad key(1), of b] by auto
    next
      case False
      then have "rc = - 1" "rng w' = rng w" using fin seed_spec [OF assms(1) seed] sr(2) by auto
      then show ?thesis using rel key_step.fails [OF bad, of cfg b] by auto
    qed
  qed
qed

section \<open>Runs\<close>

text \<open>What a thread does to its generator, in order; \<open>J\<close> is the old contents of the buffers.\<close>

datatype rng_op = Op_draw nat | Op_force_reseed | Op_wipe

primrec rng_ops ::
    "config \<Rightarrow> env \<Rightarrow> (nat \<Rightarrow> u8) \<Rightarrow> rng_op list \<Rightarrow> 'c world \<Rightarrow> ((nat \<times> int \<times> u8 list) option list \<times> 'c world) run" where
  "rng_ops cfg E J [] w = Done ([], w)"
| "rng_ops cfg E J (x # xs) w =
     run_bind
       (case x of
          Op_draw n \<Rightarrow> run_bind (chronoid_random_bytes cfg E (map J [0..<n]) n w) (\<lambda>(rc, b, w').
            Done (Some (now_tick w, rc, b), w'))
        | Op_force_reseed \<Rightarrow> Done (None, chronoid_random_force_reseed w)
        | Op_wipe \<Rightarrow> Done (None, chronoid_random_thread_state_wipe w))
       (\<lambda>(a, w). run_bind (rng_ops cfg E J xs w) (\<lambda>(as, w). Done (a # as, w)))"

fun op_size :: "rng_op \<Rightarrow> nat" where
  "op_size (Op_draw n) = n"
| "op_size _ = 0"

lemma rng_op_step:
  assumes "sane_clock E" "world_ok w" "\<not> in_destructor w" "op_size x \<le> k" "k < 2 ^ 63" "key_rel cfg E k (rng w) q"
    and "rng_ops cfg E J (x # xs) w = Done (as, w')"
  obtains a w1 as1 q1 where "as = a # as1" "rng_ops cfg E J xs w1 = Done (as1, w')" "key_step cfg E q a q1"
    "key_rel cfg E k (rng w1) q1" "world_ok w1" "\<not> in_destructor w1"
proof (cases x)
  case (Op_draw n)
  then obtain rc b w1 as1 where r: "chronoid_random_bytes cfg E (map J [0..<n]) n w = Done (rc, b, w1)"
    "rng_ops cfg E J xs w1 = Done (as1, w')" "as = Some (now_tick w, rc, b) # as1"
    using assms(7) by (auto simp: run_bind_eq_Done)
  have "world_ok w1 \<and> \<not> in_destructor w1"
    using random_bytes_spec [OF assms(1-3) _ r(1)] assms(3) by (simp add: same_setup_def)
  then show ?thesis
    using that r random_bytes_key [OF assms(1-3) _ _ assms(5,6) r(1)] assms(4) Op_draw by auto
next
  case Op_force_reseed
  then show ?thesis
    using that [of None _ "chronoid_random_force_reseed w" None] assms(2,3,7)
    by (auto simp: run_bind_eq_Done chronoid_random_force_reseed_def world_ok_def rng_inv_def key_rel_def
        intro: key_step.gives_up)
next
  case Op_wipe
  have "\<not> seeded rng_zero" by (simp add: rng_zero_def)
  then show ?thesis
    using that [of None _ "chronoid_random_thread_state_wipe w" None] assms(7) Op_wipe
    by (auto simp: run_bind_eq_Done chronoid_random_thread_state_wipe_def Let_def world_ok_def key_rel_def
        intro: key_step.gives_up)
qed

lemma rng_ops_steps:
  assumes "sane_clock E" "k < 2 ^ 63"
  shows "world_ok w \<Longrightarrow> \<not> in_destructor w \<Longrightarrow> list_all (\<lambda>x. op_size x \<le> k) xs \<Longrightarrow> key_rel cfg E k (rng w) q \<Longrightarrow>
    rng_ops cfg E J xs w = Done (as, w') \<Longrightarrow> \<exists>q'. key_steps cfg E q as q' \<and> key_rel cfg E k (rng w') q'"
proof (induction xs arbitrary: w q as)
  case Nil
  then show ?case by (auto intro: key_steps.start)
next
  case (Cons x xs)
  from Cons.prems(3) have "op_size x \<le> k" "list_all (\<lambda>x. op_size x \<le> k) xs" by simp_all
  with rng_op_step [OF assms(1) Cons.prems(1,2) _ assms(2) Cons.prems(4,5)] Cons.IH show ?case
    by (metis key_steps.step)
qed

lemma rng_ops_return:
  assumes "sane_clock E" "calm E T"
  shows "world_ok w \<Longrightarrow> \<not> in_destructor w \<Longrightarrow> \<exists>as w'. rng_ops cfg E J xs w = Done (as, w')"
proof (induction xs arbitrary: w)
  case Nil
  then show ?case by simp
next
  case (Cons x xs)
  have go: "\<exists>as w'. run_bind (rng_ops cfg E J xs w1) (\<lambda>(as, w). Done (a # as, w)) = Done (as, w')"
    if "world_ok w1" "\<not> in_destructor w1" for w1 :: "'a world" and a
    using Cons.IH [OF that] by (auto simp: run_simps)
  show ?case
  proof (cases x)
    case (Op_draw n)
    obtain rc b w1 where r: "chronoid_random_bytes cfg E (map J [0..<n]) n w = Done (rc, b, w1)"
      using random_bytes_outcome(2) [OF assms(1) Cons.prems(1) assms(2)] by blast
    have "world_ok w1" "\<not> in_destructor w1"
      using random_bytes_spec [OF assms(1) Cons.prems _ r] Cons.prems(2) by (simp_all add: same_setup_def)
    then show ?thesis using go Op_draw r by (simp add: run_simps)
  next
    case Op_force_reseed
    then show ?thesis
      using go [of "chronoid_random_force_reseed w"] Cons.prems
      by (simp add: run_simps chronoid_random_force_reseed_def world_ok_def rng_inv_def)
  next
    case Op_wipe
    then show ?thesis
      using go [of "chronoid_random_thread_state_wipe w"] rng_inv_zero
      by (simp add: run_simps chronoid_random_thread_state_wipe_def Let_def world_ok_def) (simp add: rng_zero_def)
  qed
qed

section \<open>Properties\<close>

text \<open>
  Claim C12. The reseed policy as an abstract machine. However a thread draws, forces reseeds and wipes, in
  draws of at most \<open>k\<close> bytes, its outputs are those of the abstract generator: a draw continues its key's
  keystream, where the last draw under that key ended, exactly while the key has yielded less than a
  mebibyte, the process has not forked since it was taken, and the clock is within the hour that follows; otherwise it
  starts at the beginning of a key the system has just delivered, or fails and hands out nothing. So no
  position of a keystream is handed out twice under one key, a child process never continues its
  parent's stream, a key yields less than a mebibyte and \<open>k\<close> bytes, and for \<open>k < 2 ^ 37\<close> its block counter does not wrap: the
  state is the seed's, with the number of blocks made in word 12.
\<close>

theorem rng_key_budget:
  assumes "sane_clock E" "world_ok w" "\<not> in_destructor w" "\<not> seeded (rng w)"
    and "list_all (\<lambda>x. op_size x \<le> k) xs" "k < 2 ^ 37" "rng_ops cfg E J xs w = Done (as, w')"
  shows "\<exists>q. key_steps cfg E None as q \<and>
    (case q of
       None \<Rightarrow> \<not> seeded (rng w')
     | Some u \<Rightarrow> k_pos u < 2 ^ 20 + k
         \<and> (\<exists>m. rng_state (rng w') = (seed_state (k_key u))[12 := of_nat m] \<and> m < 2 ^ 32
              \<and> k_pos u \<le> 64 * m \<and> 64 * m \<le> k_pos u + 64))"
proof -
  have "key_rel cfg E k (rng w) None" using assms(4) by (simp add: key_rel_def)
  then obtain q where q: "key_steps cfg E None as q" "key_rel cfg E k (rng w') q"
    using rng_ops_steps [OF assms(1) _ assms(2,3,5) _ assms(7)] assms(6) by fastforce
  have "\<exists>m. rng_state (rng w') = (seed_state (k_key u))[12 := of_nat m] \<and> m < 2 ^ 32
      \<and> k_pos u \<le> 64 * m \<and> 64 * m \<le> k_pos u + 64" if "q = Some u" for u
    using q(2) that assms(6) by (intro at_key_state) (simp_all add: key_rel_def uses_key_def)
  then show ?thesis using q by (auto simp: key_rel_def split: option.splits)
qed

lemma rng_key_budget_witness:
  "\<exists>as w' q. rng_ops sample_cfg sample_env (\<lambda>i. 0) [Op_draw 3, Op_force_reseed, Op_draw 100, Op_wipe, Op_draw 5] sample_world
      = Done (as, w') \<and> key_steps sample_cfg sample_env None as q"
proof -
  let ?xs = "[Op_draw 3, Op_force_reseed, Op_draw 100, Op_wipe, Op_draw 5]"
  obtain as w' where r: "rng_ops sample_cfg sample_env (\<lambda>i. 0) ?xs sample_world = Done (as, w')"
    using rng_ops_return [OF sample_sane] by blast
  have "\<not> seeded (rng sample_world)" by (simp add: sample_world_def rng_zero_def)
  then show ?thesis
    using rng_key_budget [OF sample_sane(1,3,4) _ _ _ r, of 100] r by auto
qed

end
