(* ===== verification/Override.thy ===== *)
theory Override
  imports Generation
begin

text \<open>
  The override of the random source under concurrency: \<open>chronoid_set_rand\<close> stores two atomic
  pointers and \<open>chronoid_internal_fill_random\<close> of \<open>chronoid/ksuid/ksuid.c\<close> loads them, one after the
  other, while other threads do the same. The stores are releases and the loads acquires, so every
  interleaving of the four accesses is a run of the step relation below; the calls of the hook itself
  are outside it.
\<close>

section \<open>The two slots\<close>

text \<open>
  What a thread is doing: about to store the context, about to store the function, about to load the
  function, about to load the context for a function it has loaded, or done with its loads and about
  to call what it found (\<open>None\<close>: the library's own generator).
\<close>

datatype ('f, 'c) access =
    Quiet
  | Store_ctx "'f option" 'c
  | Store_fn "'f option" 'c
  | Load_fn
  | Load_ctx 'f
  | Draws "('f \<times> 'c) option"

record ('f, 'c) slots =
  slot_fn :: "'f option"
  slot_ctx :: 'c
  doing :: "nat \<Rightarrow> ('f, 'c) access"
  asked :: "('f option \<times> 'c) list"

text \<open>
  \<open>asked\<close> records the calls of \<open>chronoid_set_rand\<close>, the last one first. With \<open>q\<close> the callers keep the
  contract of \<open>ksuid.h\<close>: the override is only changed when nothing else is in flight, and nothing
  starts while it is being changed.
\<close>

definition setting :: "('f, 'c) access \<Rightarrow> bool" where
  "setting a = (case a of Store_ctx fn c \<Rightarrow> True | Store_fn fn c \<Rightarrow> True | _ \<Rightarrow> False)"

inductive slot_step :: "bool \<Rightarrow> ('f, 'c) slots \<Rightarrow> ('f, 'c) slots \<Rightarrow> bool" for q where
  call_set: "doing s t = Quiet \<Longrightarrow> q \<longrightarrow> (\<forall>u. doing s u = Quiet) \<Longrightarrow>
     slot_step q s (s\<lparr>doing := (doing s)(t := Store_ctx fn c), asked := (fn, c) # asked s\<rparr>)"
| store_ctx: "doing s t = Store_ctx fn c \<Longrightarrow>
     slot_step q s (s\<lparr>slot_ctx := c, doing := (doing s)(t := Store_fn fn c)\<rparr>)"
| store_fn: "doing s t = Store_fn fn c \<Longrightarrow>
     slot_step q s (s\<lparr>slot_fn := fn, doing := (doing s)(t := Quiet)\<rparr>)"
| call_fill: "doing s t = Quiet \<Longrightarrow> q \<longrightarrow> (\<forall>u. \<not> setting (doing s u)) \<Longrightarrow>
     slot_step q s (s\<lparr>doing := (doing s)(t := Load_fn)\<rparr>)"
| load_none: "doing s t = Load_fn \<Longrightarrow> slot_fn s = None \<Longrightarrow>
     slot_step q s (s\<lparr>doing := (doing s)(t := Draws None)\<rparr>)"
| load_some: "doing s t = Load_fn \<Longrightarrow> slot_fn s = Some f \<Longrightarrow>
     slot_step q s (s\<lparr>doing := (doing s)(t := Load_ctx f)\<rparr>)"
| load_ctx: "doing s t = Load_ctx f \<Longrightarrow>
     slot_step q s (s\<lparr>doing := (doing s)(t := Draws (Some (f, slot_ctx s)))\<rparr>)"
| draw_ends: "doing s t = Draws d \<Longrightarrow> slot_step q s (s\<lparr>doing := (doing s)(t := Quiet)\<rparr>)"

inductive_cases slot_stepE: "slot_step q s s'"

text \<open>Static storage: no override, and a null context.\<close>

definition slots_init :: "'c \<Rightarrow> ('f, 'c) slots" where
  "slots_init null = \<lparr>slot_fn = None, slot_ctx = null, doing = (\<lambda>_. Quiet), asked = []\<rparr>"

section \<open>Any interleaving\<close>

text \<open>Both halves come from calls of \<open>chronoid_set_rand\<close>.\<close>

definition half_fn :: "('f, 'c) slots \<Rightarrow> 'f \<Rightarrow> bool" where
  "half_fn s f \<longleftrightarrow> Some f \<in> fst ` set (asked s)"

definition half_ctx :: "('f, 'c) slots \<Rightarrow> 'c \<Rightarrow> bool" where
  "half_ctx s c \<longleftrightarrow> c \<in> snd ` set (asked s)"

definition access_ok :: "('f, 'c) slots \<Rightarrow> ('f, 'c) access \<Rightarrow> bool" where
  "access_ok s a =
     (case a of
        Store_ctx fn c \<Rightarrow> (fn, c) \<in> set (asked s)
      | Store_fn fn c \<Rightarrow> (fn, c) \<in> set (asked s) \<and> half_ctx s (slot_ctx s)
      | Load_ctx f \<Rightarrow> half_fn s f \<and> half_ctx s (slot_ctx s)
      | Draws (Some (f, c)) \<Rightarrow> half_fn s f \<and> half_ctx s c
      | _ \<Rightarrow> True)"

definition slots_inv :: "('f, 'c) slots \<Rightarrow> bool" where
  "slots_inv s \<longleftrightarrow> (\<forall>f. slot_fn s = Some f \<longrightarrow> half_fn s f \<and> half_ctx s (slot_ctx s))
     \<and> (\<forall>t. access_ok s (doing s t))"

lemma halves_asked: "(Some f, c) \<in> set (asked s) \<Longrightarrow> half_fn s f" "(fn, c) \<in> set (asked s) \<Longrightarrow> half_ctx s c"
  by (force simp: half_fn_def half_ctx_def)+

lemma half_mono:
  "set (asked s) \<subseteq> set (asked s') \<Longrightarrow> half_fn s f \<Longrightarrow> half_fn s' f"
  "set (asked s) \<subseteq> set (asked s') \<Longrightarrow> half_ctx s c \<Longrightarrow> half_ctx s' c"
  unfolding half_fn_def half_ctx_def by blast+

text \<open>A step only adds calls, and only puts a context that was asked for into its slot.\<close>

lemma access_ok_mono:
  assumes "access_ok s a" "set (asked s) \<subseteq> set (asked s')"
    and "slot_ctx s' = slot_ctx s \<or> half_ctx s' (slot_ctx s')"
  shows "access_ok s' a"
  using assms half_mono [OF assms(2)]
  by (auto simp: access_ok_def split: access.splits option.splits)

lemma slots_inv_update:
  assumes "slots_inv s" "set (asked s) \<subseteq> set (asked s')" "doing s' = (doing s)(t := a)"
    and "slot_ctx s' = slot_ctx s \<or> half_ctx s' (slot_ctx s')" "access_ok s' a"
    and "slot_fn s' = slot_fn s \<or> (\<forall>f. slot_fn s' = Some f \<longrightarrow> half_fn s' f \<and> half_ctx s' (slot_ctx s'))"
  shows "slots_inv s'"
proof -
  have "access_ok s' (doing s' u)" for u
    using access_ok_mono [OF _ assms(2,4), of "doing s u"] assms(1,3,5) by (simp add: slots_inv_def)
  moreover have "half_fn s' f \<and> half_ctx s' (slot_ctx s')" if "slot_fn s = Some f" for f
    using assms(1,4) that half_mono [OF assms(2)] by (auto simp: slots_inv_def)
  ultimately show ?thesis using assms(6) unfolding slots_inv_def by auto
qed

lemma slots_inv_step: "slots_inv s \<Longrightarrow> slot_step q s s' \<Longrightarrow> slots_inv s'"
proof (erule slot_stepE)
  fix t fn c
  assume inv: "slots_inv s" and s': "s' = s\<lparr>doing := (doing s)(t := Store_ctx fn c), asked := (fn, c) # asked s\<rparr>"
  show "slots_inv s'"
    by (rule slots_inv_update [OF inv, where t = t and a = "Store_ctx fn c"]) (auto simp: s' access_ok_def)
next
  fix t fn c
  assume inv: "slots_inv s" and a: "doing s t = Store_ctx fn c"
    and s': "s' = s\<lparr>slot_ctx := c, doing := (doing s)(t := Store_fn fn c)\<rparr>"
  have "access_ok s (Store_ctx fn c)" using inv a by (metis slots_inv_def)
  then have asked: "(fn, c) \<in> set (asked s')" by (simp add: access_ok_def s')
  then have "half_ctx s' (slot_ctx s')" using halves_asked(2) [OF asked] by (simp add: s')
  then show "slots_inv s'"
    using asked by (intro slots_inv_update [OF inv, where t = t and a = "Store_fn fn c"]) (simp_all add: s' access_ok_def)
next
  fix t fn c
  assume inv: "slots_inv s" and a: "doing s t = Store_fn fn c"
    and s': "s' = s\<lparr>slot_fn := fn, doing := (doing s)(t := Quiet)\<rparr>"
  have "access_ok s (Store_fn fn c)" using inv a by (metis slots_inv_def)
  then have "(fn, c) \<in> set (asked s')" "half_ctx s' (slot_ctx s')" by (simp_all add: access_ok_def half_ctx_def s')
  then show "slots_inv s'"
    using halves_asked(1) [of _ c s'] by (intro slots_inv_update [OF inv, where t = t and a = Quiet]) (auto simp: s' access_ok_def)
next
  fix t
  assume inv: "slots_inv s" and s': "s' = s\<lparr>doing := (doing s)(t := Load_fn)\<rparr>"
  show "slots_inv s'"
    by (rule slots_inv_update [OF inv, where t = t and a = Load_fn]) (auto simp: s' access_ok_def)
next
  fix t
  assume inv: "slots_inv s" and s': "s' = s\<lparr>doing := (doing s)(t := Draws None)\<rparr>"
  show "slots_inv s'"
    by (rule slots_inv_update [OF inv, where t = t and a = "Draws None"]) (auto simp: s' access_ok_def)
next
  fix t f
  assume inv: "slots_inv s" and f: "slot_fn s = Some f" and s': "s' = s\<lparr>doing := (doing s)(t := Load_ctx f)\<rparr>"
  have "half_fn s' f" "half_ctx s' (slot_ctx s')"
    using inv f by (auto simp: slots_inv_def s' half_fn_def half_ctx_def)
  then show "slots_inv s'"
    by (intro slots_inv_update [OF inv, where t = t and a = "Load_ctx f"]) (auto simp: s' access_ok_def)
next
  fix t f
  assume inv: "slots_inv s" and a: "doing s t = Load_ctx f"
    and s': "s' = s\<lparr>doing := (doing s)(t := Draws (Some (f, slot_ctx s)))\<rparr>"
  have "access_ok s (Load_ctx f)" using inv a by (metis slots_inv_def)
  then have "access_ok s' (Draws (Some (f, slot_ctx s)))" by (simp add: access_ok_def half_fn_def half_ctx_def s')
  then show "slots_inv s'"
    by (intro slots_inv_update [OF inv, where t = t and a = "Draws (Some (f, slot_ctx s))"]) (auto simp: s')
next
  fix t d
  assume inv: "slots_inv s" and s': "s' = s\<lparr>doing := (doing s)(t := Quiet)\<rparr>"
  show "slots_inv s'"
    by (rule slots_inv_update [OF inv, where t = t and a = Quiet]) (auto simp: s' access_ok_def)
qed

lemma slots_inv_reachable: "(slot_step q)\<^sup>*\<^sup>* (slots_init null) s \<Longrightarrow> slots_inv s"
proof (induction rule: rtranclp_induct)
  case base
  then show ?case by (simp add: slots_inv_def slots_init_def access_ok_def)
next
  case (step s s')
  show ?case by (rule slots_inv_step [OF step(3,2)])
qed

section \<open>Callers that keep the contract\<close>

text \<open>What the last call of \<open>chronoid_set_rand\<close> installed, and what a draw finds in the slots.\<close>

definition last_asked :: "'c \<Rightarrow> ('f, 'c) slots \<Rightarrow> 'f option \<times> 'c" where
  "last_asked null s = (case asked s of [] \<Rightarrow> (None, null) | p # _ \<Rightarrow> p)"

definition found :: "'f option \<times> 'c \<Rightarrow> ('f \<times> 'c) option" where
  "found p = (case p of (None, c) \<Rightarrow> None | (Some f, c) \<Rightarrow> Some (f, c))"

definition reading_ok :: "('f, 'c) slots \<Rightarrow> ('f, 'c) access \<Rightarrow> bool" where
  "reading_ok s a =
     (case a of
        Load_ctx f \<Rightarrow> slot_fn s = Some f
      | Draws d \<Rightarrow> d = found (slot_fn s, slot_ctx s)
      | _ \<Rightarrow> \<not> setting a)"

text \<open>Either one thread is changing the override and all others are quiet, or nobody is.\<close>

definition changing :: "'c \<Rightarrow> ('f, 'c) slots \<Rightarrow> nat \<Rightarrow> bool" where
  "changing null s t \<longleftrightarrow> (\<forall>u. u \<noteq> t \<longrightarrow> doing s u = Quiet) \<and>
     (case doing s t of
        Store_ctx fn c \<Rightarrow> last_asked null s = (fn, c)
      | Store_fn fn c \<Rightarrow> last_asked null s = (fn, c) \<and> slot_ctx s = c
      | _ \<Rightarrow> False)"

definition settled :: "'c \<Rightarrow> ('f, 'c) slots \<Rightarrow> bool" where
  "settled null s \<longleftrightarrow> (slot_fn s, slot_ctx s) = last_asked null s \<and> (\<forall>t. reading_ok s (doing s t))"

lemma changing_setting: "changing null s t \<Longrightarrow> setting (doing s t)"
  by (simp add: changing_def setting_def split: access.splits)

lemma changing_access: "changing null s t0 \<Longrightarrow> doing s t \<noteq> Quiet \<Longrightarrow> t0 = t"
  by (auto simp: changing_def)

lemma reading_not_setting: "reading_ok s a \<Longrightarrow> \<not> setting a"
  by (simp add: reading_ok_def setting_def split: access.splits)

lemma reading_ok_cong:
  "slot_fn s' = slot_fn s \<Longrightarrow> slot_ctx s' = slot_ctx s \<Longrightarrow> reading_ok s' a = reading_ok s a"
  by (simp add: reading_ok_def split: access.split)

lemma settled_update:
  "settled null s \<Longrightarrow> reading_ok s a \<Longrightarrow> settled null (s\<lparr>doing := (doing s)(t := a)\<rparr>)"
  using reading_ok_cong [of "s\<lparr>doing := (doing s)(t := a)\<rparr>" s]
  by (simp add: settled_def last_asked_def)

lemma settled_of:
  assumes "(\<exists>t. changing null s t) \<or> settled null s" "\<not> setting (doing s t)" "doing s t \<noteq> Quiet"
  shows "settled null s"
  using assms changing_setting [of null s] changing_access [of null s] by blast

lemma changing_of:
  assumes "(\<exists>t. changing null s t) \<or> settled null s" "setting (doing s t)"
  shows "changing null s t"
proof -
  have "doing s t \<noteq> Quiet" using assms(2) by (auto simp: setting_def)
  moreover have "\<not> settled null s" using assms(2) reading_not_setting [of s "doing s t"] by (auto simp: settled_def)
  ultimately show ?thesis using assms(1) changing_access [of null s _ t] by blast
qed

lemma quiesced_step:
  assumes "(\<exists>t. changing null s t) \<or> settled null s" "slot_step True s s'"
  shows "(\<exists>t. changing null s' t) \<or> settled null s'"
  using assms(2)
proof (cases rule: slot_step.cases)
  case (call_set t fn c)
  then have "changing null s' t" by (simp add: changing_def last_asked_def)
  then show ?thesis by blast
next
  case (store_ctx t fn c)
  then have "changing null s t" by (intro changing_of [OF assms(1)]) (simp add: setting_def)
  then have "changing null s' t" using store_ctx by (simp add: changing_def last_asked_def)
  then show ?thesis by blast
next
  case (store_fn t fn c)
  then have "changing null s t" by (intro changing_of [OF assms(1)]) (simp add: setting_def)
  then have "settled null s'"
    using store_fn by (simp add: changing_def settled_def last_asked_def reading_ok_def setting_def)
  then show ?thesis by blast
next
  case (call_fill t)
  then have "settled null s" using assms(1) changing_setting [of null s] by blast
  then have "settled null s'" using call_fill by (simp add: settled_update reading_ok_def setting_def)
  then show ?thesis by blast
next
  case (load_none t)
  then have "settled null s" by (intro settled_of [OF assms(1), of t]) (simp_all add: setting_def)
  then have "settled null s'" using load_none by (simp add: settled_update reading_ok_def found_def)
  then show ?thesis by blast
next
  case (load_some t f)
  then have "settled null s" by (intro settled_of [OF assms(1), of t]) (simp_all add: setting_def)
  then have "settled null s'" using load_some by (simp add: settled_update reading_ok_def)
  then show ?thesis by blast
next
  case (load_ctx t f)
  then have s: "settled null s" by (intro settled_of [OF assms(1), of t]) (simp_all add: setting_def)
  then have "reading_ok s (doing s t)" by (simp add: settled_def)
  then have "slot_fn s = Some f" using load_ctx by (simp add: reading_ok_def)
  then have "settled null s'" using s load_ctx by (simp add: settled_update reading_ok_def found_def)
  then show ?thesis by blast
next
  case (draw_ends t d)
  then have "settled null s" by (intro settled_of [OF assms(1), of t]) (simp_all add: setting_def)
  then have "settled null s'" using draw_ends by (simp add: settled_update reading_ok_def setting_def)
  then show ?thesis by blast
qed

lemma quiesced_reachable:
  "(slot_step True)\<^sup>*\<^sup>* (slots_init null) s \<Longrightarrow> (\<exists>t. changing null s t) \<or> settled null s"
proof (induction rule: rtranclp_induct)
  case base
  then show ?case by (simp add: settled_def slots_init_def last_asked_def reading_ok_def setting_def)
next
  case (step s s')
  show ?case by (rule quiesced_step [OF step(3,2)])
qed

section \<open>Properties\<close>

text \<open>
  Claim C14. Whatever threads do, a draw that goes to an override calls a function that some call of
  \<open>chronoid_set_rand\<close> installed, with a context that some call installed: because the context is stored
  first, never with the null context of the initial state; and when only one override was ever
  installed, the pair is that override. The two halves need not be from the same call.
\<close>

theorem override_halves:
  assumes "(slot_step q)\<^sup>*\<^sup>* (slots_init null) s" "doing s t = Draws (Some (f, c))"
  shows "(\<exists>d. (Some f, d) \<in> set (asked s)) \<and> (\<exists>g. (g, c) \<in> set (asked s))
    \<and> (set (asked s) \<subseteq> {p} \<longrightarrow> p = (Some f, c))"
proof -
  have "access_ok s (Draws (Some (f, c)))"
    using slots_inv_reachable [OF assms(1)] unfolding slots_inv_def assms(2) [symmetric] by blast
  then have "half_fn s f" "half_ctx s c" by (simp_all add: access_ok_def)
  then obtain x y where x: "x \<in> set (asked s)" "fst x = Some f" and y: "y \<in> set (asked s)" "snd y = c"
    unfolding half_fn_def half_ctx_def by (metis imageE)
  have "(Some f, snd x) \<in> set (asked s)" "(fst y, c) \<in> set (asked s)"
    using x(1) y(1) unfolding x(2) [symmetric] y(2) [symmetric] by simp_all
  moreover have "p = (Some f, c)" if "set (asked s) \<subseteq> {p}"
    using x y that by (metis prod.collapse singletonD subsetD)
  ultimately show ?thesis by blast
qed

text \<open>
  Claim C32. When callers keep the contract of the header, that the override is changed only while
  nothing is in flight, every draw goes to exactly what the last call of \<open>chronoid_set_rand\<close> installed:
  its function with its context, or the library's own generator after a null function or no call.
\<close>

theorem override_quiesced:
  assumes "(slot_step True)\<^sup>*\<^sup>* (slots_init null) s" "doing s t = Draws d"
  shows "d = (case asked s of [] \<Rightarrow> None | (None, c) # _ \<Rightarrow> None | (Some f, c) # _ \<Rightarrow> Some (f, c))"
proof -
  have "settled null s"
    using assms(2) by (intro settled_of [OF quiesced_reachable [OF assms(1)], of t]) (simp_all add: setting_def)
  then have "(slot_fn s, slot_ctx s) = last_asked null s" "reading_ok s (doing s t)"
    unfolding settled_def by blast+
  then have "d = found (last_asked null s)" unfolding assms(2) by (simp add: reading_ok_def)
  then show ?thesis by (simp add: last_asked_def found_def split: list.splits prod.splits option.splits)
qed

text \<open>
  A crossed pair: thread 1 loads the function of the first override, then thread 0 begins to install
  the second one, and thread 1 finds its context.
\<close>

definition crossed :: "(nat, nat) slots" where
  "crossed = \<lparr>slot_fn = Some 1, slot_ctx = 20,
     doing = (\<lambda>_. Quiet)(0 := Store_fn (Some 2) 20, 1 := Draws (Some (1, 20))),
     asked = [(Some 2, 20), (Some 1, 10)]\<rparr>"

lemma crossed_reachable: "(slot_step False)\<^sup>*\<^sup>* (slots_init 0) crossed"
proof -
  let ?s = "\<lambda>f c a b k. \<lparr>slot_fn = f, slot_ctx = c, doing = (\<lambda>_. Quiet)(0 := a, 1 := b), asked = k\<rparr> :: (nat, nat) slots"
  let ?k1 = "[(Some 1, 10)] :: (nat option \<times> nat) list" and ?k2 = "[(Some 2, 20), (Some 1, 10)] :: (nat option \<times> nat) list"
  have init: "slots_init 0 = ?s None 0 Quiet Quiet []" by (simp add: slots_init_def fun_upd_idem)
  have "slot_step False (?s None 0 Quiet Quiet []) (?s None 0 (Store_ctx (Some 1) 10) Quiet ?k1)"
    using slot_step.call_set [of "?s None 0 Quiet Quiet []" 0 False "Some 1" 10] by (simp add: fun_upd_twist)
  moreover have "slot_step False (?s None 0 (Store_ctx (Some 1) 10) Quiet ?k1) (?s None 10 (Store_fn (Some 1) 10) Quiet ?k1)"
    using slot_step.store_ctx [of "?s None 0 (Store_ctx (Some 1) 10) Quiet ?k1" 0 "Some 1" 10 False] by (simp add: fun_upd_twist)
  moreover have "slot_step False (?s None 10 (Store_fn (Some 1) 10) Quiet ?k1) (?s (Some 1) 10 Quiet Quiet ?k1)"
    using slot_step.store_fn [of "?s None 10 (Store_fn (Some 1) 10) Quiet ?k1" 0 "Some 1" 10 False] by (simp add: fun_upd_twist)
  moreover have "slot_step False (?s (Some 1) 10 Quiet Quiet ?k1) (?s (Some 1) 10 Quiet Load_fn ?k1)"
    using slot_step.call_fill [of "?s (Some 1) 10 Quiet Quiet ?k1" 1 False] by simp
  moreover have "slot_step False (?s (Some 1) 10 Quiet Load_fn ?k1) (?s (Some 1) 10 Quiet (Load_ctx 1) ?k1)"
    using slot_step.load_some [of "?s (Some 1) 10 Quiet Load_fn ?k1" 1 1 False] by simp
  moreover have "slot_step False (?s (Some 1) 10 Quiet (Load_ctx 1) ?k1) (?s (Some 1) 10 (Store_ctx (Some 2) 20) (Load_ctx 1) ?k2)"
    using slot_step.call_set [of "?s (Some 1) 10 Quiet (Load_ctx 1) ?k1" 0 False "Some 2" 20] by (simp add: fun_upd_twist)
  moreover have "slot_step False (?s (Some 1) 10 (Store_ctx (Some 2) 20) (Load_ctx 1) ?k2) (?s (Some 1) 20 (Store_fn (Some 2) 20) (Load_ctx 1) ?k2)"
    using slot_step.store_ctx [of "?s (Some 1) 10 (Store_ctx (Some 2) 20) (Load_ctx 1) ?k2" 0 "Some 2" 20 False] by (simp add: fun_upd_twist)
  moreover have "slot_step False (?s (Some 1) 20 (Store_fn (Some 2) 20) (Load_ctx 1) ?k2) crossed"
    using slot_step.load_ctx [of "?s (Some 1) 20 (Store_fn (Some 2) 20) (Load_ctx 1) ?k2" 1 1 False] by (simp add: crossed_def)
  ultimately show ?thesis
    unfolding init by (meson rtranclp.rtrancl_refl rtranclp.rtrancl_into_rtrancl)
qed

lemma override_halves_witness:
  "doing crossed 1 = Draws (Some (1, 20)) \<and> (Some 1, 20) \<notin> set (asked crossed)
    \<and> (\<exists>d. (Some 1, d) \<in> set (asked crossed)) \<and> (\<exists>g. (g, 20) \<in> set (asked crossed))"
proof -
  have d: "doing crossed 1 = Draws (Some (1, 20))" by (simp add: crossed_def)
  then show ?thesis using override_halves [OF crossed_reachable d] by (simp add: crossed_def)
qed

lemma own_generator_reachable:
  "(slot_step True)\<^sup>*\<^sup>* (slots_init 0 :: (nat, nat) slots) (slots_init 0\<lparr>doing := (\<lambda>_. Quiet)(0 := Draws None)\<rparr>)"
proof -
  have "slot_step True (slots_init 0 :: (nat, nat) slots) (slots_init 0\<lparr>doing := (\<lambda>_. Quiet)(0 := Load_fn)\<rparr>)"
    using slot_step.call_fill [of "slots_init 0 :: (nat, nat) slots" 0 True] by (simp add: slots_init_def setting_def)
  moreover have "slot_step True ((slots_init 0 :: (nat, nat) slots)\<lparr>doing := (\<lambda>_. Quiet)(0 := Load_fn)\<rparr>)
      (slots_init 0\<lparr>doing := (\<lambda>_. Quiet)(0 := Draws None)\<rparr>)"
    using slot_step.load_none [of "(slots_init 0 :: (nat, nat) slots)\<lparr>doing := (\<lambda>_. Quiet)(0 := Load_fn)\<rparr>" 0 True] by (simp add: slots_init_def)
  ultimately show ?thesis by (meson rtranclp.rtrancl_refl rtranclp.rtrancl_into_rtrancl)
qed

lemma override_quiesced_witness:
  "doing ((slots_init 0 :: (nat, nat) slots)\<lparr>doing := (\<lambda>_. Quiet)(0 := Draws None)\<rparr>) 0 = Draws None
    \<and> (None :: (nat \<times> nat) option) = (case asked (slots_init 0 :: (nat, nat) slots) of [] \<Rightarrow> None | (None, c) # _ \<Rightarrow> None | (Some f, c) # _ \<Rightarrow> Some (f, c))"
  using override_quiesced [OF own_generator_reachable, of 0 None] by (simp add: slots_init_def)

end
