(* ===== verification/Client.thy ===== *)
theory Client
  imports Ksuid_Sequence Uuidv7_Sequence Encode_Batch Hex_Batch
begin

text \<open>
  The library as a whole: a client that makes any sequence of calls. The client's objects (two
  identifiers and one sequence of either kind, a buffer for the last bytes or text it was given, and
  the last number a function returned),
  the thread's world and the batch encoders' pointers are one state; the theory shows
  that it stays well formed and that no call does anything undefined.
\<close>

section \<open>Safe runs\<close>

text \<open>
  A run that is never undefined, whose results satisfy \<open>P\<close>, and that returns when the system stops
  interrupting.
\<close>

definition safe_run :: "env \<Rightarrow> ('a \<Rightarrow> bool) \<Rightarrow> 'a run \<Rightarrow> bool" where
  "safe_run E P R \<longleftrightarrow> R \<noteq> Undef \<and> (\<forall>x. R = Done x \<longrightarrow> P x) \<and> ((\<exists>T. calm E T) \<longrightarrow> R \<noteq> Waits)"

lemma safe_Done: "P x \<Longrightarrow> safe_run E P (Done x)"
  by (simp add: safe_run_def)

lemma safe_bind:
  assumes "safe_run E P R" "\<And>x. P x \<Longrightarrow> safe_run E Q (f x)"
  shows "safe_run E Q (run_bind R f)"
  using assms by (cases R) (auto simp: safe_run_def)

lemma safe_mono: "safe_run E P R \<Longrightarrow> (\<And>x. P x \<Longrightarrow> Q x) \<Longrightarrow> safe_run E Q R"
  by (auto simp: safe_run_def)

section \<open>The operations that touch the world\<close>

lemma safe_random_bytes:
  assumes "sane_clock E" "gen_ok w" "length buf = n"
  shows "safe_run E (\<lambda>(rc, b, w'). gen_ok w' \<and> length b = n) (chronoid_random_bytes cfg E buf n w)"
proof -
  have w: "world_ok w" "\<not> in_destructor w" using assms(2) by (simp_all add: gen_ok_def)
  have "gen_ok w' \<and> length b = n" if "chronoid_random_bytes cfg E buf n w = Done (rc, b, w')" for rc b w'
    using random_bytes_spec [OF assms(1) w assms(3) that] assms(2)
    by (auto simp: gen_ok_def same_setup_def)
  moreover have "chronoid_random_bytes cfg E buf n w \<noteq> Undef" by (rule random_bytes_outcome(1) [OF assms(1) w(1)])
  moreover have "chronoid_random_bytes cfg E buf n w \<noteq> Waits" if "calm E T" for T
    using random_bytes_outcome(2) [OF assms(1) w(1) that, of cfg buf n] by auto
  ultimately show ?thesis by (auto simp: safe_run_def)
qed

lemma safe_fill:
  assumes "sane_clock E" "gen_ok w" "length buf = n"
  shows "safe_run E (\<lambda>(rc, b, w'). gen_ok w' \<and> length b = n) (chronoid_internal_fill_random cfg E buf n w)"
  using fill_random_keeps [OF assms, of cfg] fill_random_defined [OF assms(1,2), of cfg buf n]
    fill_random_returns [OF assms(1,2), of _ cfg buf n]
  by (fastforce simp: safe_run_def)

lemma safe_ksuid_new_with_time:
  assumes "sane_clock E" "gen_ok w" "wf_ksuid out" "length payload = 16" "in_i64 (s - 1400000000)"
  shows "safe_run E (\<lambda>(e, k, w'). wf_ksuid k \<and> gen_ok w') (chronoid_ksuid_new_with_time cfg E payload out s w)"
  unfolding chronoid_ksuid_new_with_time_def i64_chk_Done [OF assms(5)] run_bind.simps
  using assms(1-4)
  by (auto intro!: safe_Done safe_bind [OF safe_fill] simp: store_parts_wf simp del: of_int_diff)

lemma safe_ksuid_new:
  assumes "sane_clock E" "gen_ok w" "wf_ksuid out" "length payload = 16"
  shows "safe_run E (\<lambda>(e, k, w'). wf_ksuid k \<and> gen_ok w') (chronoid_ksuid_new cfg E payload out w)"
proof (cases "env_clock E (now_tick w)")
  case None
  then show ?thesis using assms by (simp add: chronoid_ksuid_new_def safe_Done)
next
  case (Some t)
  obtain s ns where t: "t = (s, ns)" by (cases t)
  have "0 \<le> s" "s < 2 ^ 53" using assms(1) Some t by (auto simp: sane_clock_def)
  then have "in_i64 (s - 1400000000)" by (simp add: i64_defs)
  then have "safe_run E (\<lambda>(e, k, w'). wf_ksuid k \<and> gen_ok w')
      (chronoid_ksuid_new_with_time cfg E payload out s (advance w))"
    using assms(2) by (intro safe_ksuid_new_with_time [OF assms(1) _ assms(3,4)]) simp_all
  then show ?thesis using Some t by (simp add: chronoid_ksuid_new_def)
qed

lemma safe_uuidv7_new_with_time:
  assumes "sane_clock E" "gen_ok w" "wf_uuidv7 out" "length rnd = 10"
  shows "safe_run E (\<lambda>(e, u, w'). wf_uuidv7 u \<and> gen_ok w') (chronoid_uuidv7_new_with_time cfg E rnd out m w)"
proof -
  have "wf_uuidv7 (snd (chronoid_uuidv7_from_parts out m ra (drop 2 b)))" if "length b = 10" for ra b
    using that assms(3) by (simp add: from_parts_layout) (simp add: wf_uuidv7_def)
  then show ?thesis
    unfolding chronoid_uuidv7_new_with_time_def Let_def
    using assms
    by (auto intro!: safe_Done safe_bind [OF safe_fill] split: prod.splits) (metis snd_conv)
qed

lemma safe_uuidv7_new:
  assumes "sane_clock E" "gen_ok w" "wf_uuidv7 out" "length rnd = 10"
  shows "safe_run E (\<lambda>(e, u, w'). wf_uuidv7 u \<and> gen_ok w') (chronoid_uuidv7_new cfg E rnd out w)"
  using safe_uuidv7_new_with_time [OF assms(1) _ assms(3,4), of "advance w" cfg] assms(2,3)
  by (auto simp: chronoid_uuidv7_new_def now_ms_wall [OF assms(1)] run_simps intro!: safe_Done)

lemma safe_draw_random:
  assumes "sane_clock E" "gen_ok w" "length buf = n"
  shows "safe_run E (\<lambda>(e, b, w'). gen_ok w' \<and> length b = n) (chronoid_uuidv7_sequence_draw_random cfg E buf n w)"
  unfolding chronoid_uuidv7_sequence_draw_random_def
  by (rule safe_bind [OF safe_fill [OF assms]]) (auto intro!: safe_Done)

lemma safe_draw_counter:
  assumes "sane_clock E" "gen_ok w" "length two = 2"
  shows "safe_run E (\<lambda>(e, c, w'). gen_ok w' \<and> (e = CHRONOID_UUIDV7_OK \<longrightarrow> unat c < 4096))
    (chronoid_uuidv7_sequence_draw_counter cfg E two c0 w)"
proof -
  have "safe_run E (\<lambda>(e, c, w'). gen_ok w') (chronoid_uuidv7_sequence_draw_counter cfg E two c0 w)"
    unfolding chronoid_uuidv7_sequence_draw_counter_def
    by (rule safe_bind [OF safe_draw_random [OF assms]]) (auto intro!: safe_Done)
  then show ?thesis
    using draw_counter_cases [OF assms, of cfg c0] by (fastforce simp: safe_run_def)
qed

lemma safe_sequence_init:
  assumes "sane_clock E" "gen_ok w" "length two = 2" "length tail = 8"
  shows "safe_run E (\<lambda>(e, s', w'). gen_ok w' \<and> (if e = CHRONOID_UUIDV7_OK then useq_ok s' else s' = s))
    (chronoid_uuidv7_sequence_init cfg E two c0 tail s w)"
  unfolding chronoid_uuidv7_sequence_init_def
  by (rule safe_bind [OF safe_draw_counter [OF assms(1-3)]])
    (auto intro!: safe_Done safe_bind [OF safe_draw_random [OF assms(1) _ assms(4)]] simp: useq_ok_def)

lemma safe_redraw:
  assumes "sane_clock E" "gen_ok w" "length two = 2" "length nrb = 8" "length (rand_b s) = 8"
    and "0 \<le> ms" "ms \<le> 2 ^ 48 - 1" "useq_ok s"
  shows "safe_run E (\<lambda>(e, s', w'). gen_ok w' \<and> useq_ok s') (sequence_redraw cfg E two c0 nrb ms s w)"
  unfolding sequence_redraw_def
  by (rule safe_bind [OF safe_draw_random [OF assms(1,2,4)]])
    (use assms in \<open>auto intro!: safe_Done safe_bind [OF safe_draw_counter [OF assms(1) _ assms(3)]]
      simp: useq_ok_def buf_put_all\<close>)

lemma useq_id_wf: "useq_ok s \<Longrightarrow> wf_uuidv7 (useq_id s)"
  by (simp add: useq_id_def useq_ok_def wf_uuidv7_def)

lemma safe_sequence_next:
  assumes "sane_clock E" "gen_ok w" "useq_ok s" "length two = 2" "length nrb = 8" "wf_uuidv7 out"
  shows "safe_run E (\<lambda>(e, s', u, w'). gen_ok w' \<and> useq_ok s' \<and> wf_uuidv7 u)
    (chronoid_uuidv7_sequence_next cfg E two c0 nrb s out w)"
proof -
  let ?t = "wall_ms E w"
  have s: "0 \<le> last_ms s" "last_ms s \<le> 2 ^ 48 - 1" "unat (counter s) < 4096" "length (rand_b s) = 8"
    using assms(3) by (simp_all add: useq_ok_def)
  have adv: "gen_ok (advance w)" using assms(2) by simp
  have emit: "wf_uuidv7 (chronoid_uuidv7_sequence_emit out (last_ms s') (counter s') (rand_b s'))" if "useq_ok s'" for s'
    using that assms(6) useq_id_wf [OF that] by (simp add: emit_layout useq_ok_def useq_id_def)
  have inc: "useq_ok (s\<lparr>counter := counter s + 1\<rparr>)" if "unat (counter s) \<noteq> 4095"
    using counter_inc [of "counter s"] assms(3) that by (simp add: useq_ok_def)
  show ?thesis
    unfolding next_unfold [OF assms(1,3) refl]
    by (rule safe_bind [where P = "\<lambda>(e, s', w'). gen_ok w' \<and> useq_ok s'"])
      (use assms adv s inc emit in \<open>auto intro!: safe_Done safe_redraw\<close>)
qed

section \<open>Clients\<close>

record 'c client =
  cl_world :: "'c world"
  cl_ksuid :: ksuid
  cl_ksuid2 :: ksuid
  cl_uuidv7 :: uuidv7
  cl_uuidv72 :: uuidv7
  cl_ksuid_seq :: ksuid_sequence
  cl_uuidv7_seq :: "uuidv7_sequence option"
  cl_buf :: "u8 list"
  cl_answer :: int
  cl_ksuid_impl :: batch_impl
  cl_uuidv7_impl :: batch_impl

text \<open>The machine the library was built for: its vector kernels and what dispatch finds.\<close>

record platform =
  pl_simd :: simd_target
  pl_ssse3 :: bool
  pl_batch :: batch_env

text \<open>
  A call of the public interface, all of it (and of the internal entries of the thread's generator),
  on the client's objects. The sequence of UUIDv7s is only used after it has been initialised.
\<close>

datatype 'c call =
    Random_bytes nat
  | Force_reseed
  | Thread_wipe
  | Set_rand "'c rng_fun option" 'c
  | Set_time_source "(nat \<Rightarrow> i64) option"
  | Ksuid_new
  | Ksuid_new_with_time i64
  | Ksuid_from_parts i64 "u8 list"
  | Ksuid_from_bytes "u8 list"
  | Ksuid_parse "u8 list"
  | Ksuid_format
  | Ksuid_sequence_init
  | Ksuid_sequence_next
  | Ksuid_sequence_bounds
  | Ksuid_compare
  | Ksuid_is_nil
  | Ksuid_timestamp
  | Ksuid_time_unix
  | Ksuid_payload
  | Uuidv7_new
  | Uuidv7_new_with_time i64
  | Uuidv7_from_parts i64 u16 "u8 list"
  | Uuidv7_from_bytes "u8 list"
  | Uuidv7_parse "u8 list"
  | Uuidv7_sequence_init
  | Uuidv7_sequence_next
  | Uuidv7_sequence_bounds
  | Uuidv7_compare
  | Uuidv7_is_nil
  | Uuidv7_unix_ms
  | Uuidv7_version
  | Uuidv7_variant
  | Uuidv7_format
  | Ksuid_string_batch "ksuid list"
  | Uuidv7_string_batch "uuidv7 list"

text \<open>\<open>J\<close> is what uninitialised arrays hold.\<close>

definition junk_array :: "(nat \<Rightarrow> u8) \<Rightarrow> nat \<Rightarrow> u8 list" where "junk_array J n = map J [0..<n]"

fun client_call ::
    "config \<Rightarrow> env \<Rightarrow> platform \<Rightarrow> (nat \<Rightarrow> u8) \<Rightarrow> 'c call \<Rightarrow> 'c client \<Rightarrow> 'c client run" where
  "client_call cfg E t J (Random_bytes n) c =
     run_bind (chronoid_random_bytes cfg E (junk_array J n) n (cl_world c)) (\<lambda>(rc, b, w).
       Done (c\<lparr>cl_buf := b, cl_world := w\<rparr>))"
| "client_call cfg E t J Force_reseed c = Done (c\<lparr>cl_world := chronoid_random_force_reseed (cl_world c)\<rparr>)"
| "client_call cfg E t J Thread_wipe c = Done (c\<lparr>cl_world := chronoid_random_thread_state_wipe (cl_world c)\<rparr>)"
| "client_call cfg E t J (Set_rand fn ctx) c = Done (c\<lparr>cl_world := chronoid_set_rand fn ctx (cl_world c)\<rparr>)"
| "client_call cfg E t J (Set_time_source fn) c =
     Done (c\<lparr>cl_world := chronoid_set_time_source_for_testing fn (cl_world c)\<rparr>)"
| "client_call cfg E t J Ksuid_new c =
     run_bind (chronoid_ksuid_new cfg E (junk_array J 16) (cl_ksuid c) (cl_world c)) (\<lambda>(e, k, w).
       Done (c\<lparr>cl_ksuid := k, cl_world := w\<rparr>))"
| "client_call cfg E t J (Ksuid_new_with_time s) c =
     run_bind (chronoid_ksuid_new_with_time cfg E (junk_array J 16) (cl_ksuid c) s (cl_world c)) (\<lambda>(e, k, w).
       Done (c\<lparr>cl_ksuid := k, cl_world := w\<rparr>))"
| "client_call cfg E t J (Ksuid_from_parts s p) c =
     run_bind (chronoid_ksuid_from_parts (cl_ksuid c) s p (length p)) (\<lambda>(e, k). Done (c\<lparr>cl_ksuid := k\<rparr>))"
| "client_call cfg E t J (Ksuid_from_bytes b) c =
     (case chronoid_ksuid_from_bytes (cl_ksuid c) b (length b) of (e, k) \<Rightarrow> Done (c\<lparr>cl_ksuid := k\<rparr>))"
| "client_call cfg E t J (Ksuid_parse s) c =
     (case chronoid_ksuid_parse (pl_simd t) (junk_array J 20) (cl_ksuid c) s (length s) of (e, k) \<Rightarrow> Done (c\<lparr>cl_ksuid := k\<rparr>))"
| "client_call cfg E t J Ksuid_format c =
     run_bind (chronoid_ksuid_format (cl_ksuid c) (junk_array J 27)) (\<lambda>s. Done (c\<lparr>cl_buf := s\<rparr>))"
| "client_call cfg E t J Ksuid_sequence_init c =
     Done (c\<lparr>cl_ksuid_seq := chronoid_ksuid_sequence_init (cl_ksuid c)\<rparr>)"
| "client_call cfg E t J Ksuid_sequence_next c =
     (case chronoid_ksuid_sequence_next (cl_ksuid_seq c) (cl_ksuid c) of (e, s, k) \<Rightarrow>
        Done (c\<lparr>cl_ksuid_seq := s, cl_ksuid := k\<rparr>))"
| "client_call cfg E t J Ksuid_sequence_bounds c =
     (case chronoid_ksuid_sequence_bounds (cl_ksuid_seq c) of (lo, hi) \<Rightarrow>
        Done (c\<lparr>cl_ksuid := lo, cl_ksuid2 := hi\<rparr>))"
| "client_call cfg E t J Ksuid_compare c =
     Done (c\<lparr>cl_answer := chronoid_ksuid_compare (pl_simd t) (cl_ksuid c) (cl_ksuid2 c)\<rparr>)"
| "client_call cfg E t J Ksuid_is_nil c = Done (c\<lparr>cl_answer := of_bool (chronoid_ksuid_is_nil (cl_ksuid c))\<rparr>)"
| "client_call cfg E t J Ksuid_timestamp c = Done (c\<lparr>cl_answer := uint (chronoid_ksuid_timestamp (cl_ksuid c))\<rparr>)"
| "client_call cfg E t J Ksuid_time_unix c = Done (c\<lparr>cl_answer := chronoid_ksuid_time_unix (cl_ksuid c)\<rparr>)"
| "client_call cfg E t J Ksuid_payload c = Done (c\<lparr>cl_buf := chronoid_ksuid_payload (cl_ksuid c)\<rparr>)"
| "client_call cfg E t J Uuidv7_new c =
     run_bind (chronoid_uuidv7_new cfg E (junk_array J 10) (cl_uuidv7 c) (cl_world c)) (\<lambda>(e, u, w).
       Done (c\<lparr>cl_uuidv7 := u, cl_world := w\<rparr>))"
| "client_call cfg E t J (Uuidv7_new_with_time m) c =
     run_bind (chronoid_uuidv7_new_with_time cfg E (junk_array J 10) (cl_uuidv7 c) m (cl_world c)) (\<lambda>(e, u, w).
       Done (c\<lparr>cl_uuidv7 := u, cl_world := w\<rparr>))"
| "client_call cfg E t J (Uuidv7_from_parts m a b) c =
     (case chronoid_uuidv7_from_parts (cl_uuidv7 c) m a b of (e, u) \<Rightarrow> Done (c\<lparr>cl_uuidv7 := u\<rparr>))"
| "client_call cfg E t J (Uuidv7_from_bytes b) c =
     (case chronoid_uuidv7_from_bytes (cl_uuidv7 c) b (length b) of (e, u) \<Rightarrow> Done (c\<lparr>cl_uuidv7 := u\<rparr>))"
| "client_call cfg E t J (Uuidv7_parse s) c =
     (case chronoid_uuidv7_parse (junk_array J 16) (junk_array J 16) (cl_uuidv7 c) s (length s) of (e, u) \<Rightarrow>
        Done (c\<lparr>cl_uuidv7 := u\<rparr>))"
| "client_call cfg E t J Uuidv7_sequence_init c =
     run_bind (chronoid_uuidv7_sequence_init cfg E (junk_array J 2) 0 (junk_array J 8)
         (case cl_uuidv7_seq c of Some s \<Rightarrow> s | None \<Rightarrow> \<lparr>last_ms = 0, counter = 0, rand_b = junk_array J 8\<rparr>)
         (cl_world c)) (\<lambda>(e, s, w).
       Done (c\<lparr>cl_uuidv7_seq := (if e = CHRONOID_UUIDV7_OK then Some s else cl_uuidv7_seq c), cl_world := w\<rparr>))"
| "client_call cfg E t J Uuidv7_sequence_next c =
     (case cl_uuidv7_seq c of
        None \<Rightarrow> Done c
      | Some s \<Rightarrow>
          run_bind (chronoid_uuidv7_sequence_next cfg E (junk_array J 2) 0 (junk_array J 8) s (cl_uuidv7 c) (cl_world c))
            (\<lambda>(e, s, u, w). Done (c\<lparr>cl_uuidv7_seq := Some s, cl_uuidv7 := u, cl_world := w\<rparr>)))"
| "client_call cfg E t J Uuidv7_sequence_bounds c =
     (case cl_uuidv7_seq c of
        None \<Rightarrow> Done c
      | Some s \<Rightarrow>
          (case chronoid_uuidv7_sequence_bounds s (cl_uuidv7 c) (cl_uuidv72 c) of (lo, hi) \<Rightarrow>
             Done (c\<lparr>cl_uuidv7 := lo, cl_uuidv72 := hi\<rparr>)))"
| "client_call cfg E t J Uuidv7_compare c =
     Done (c\<lparr>cl_answer := chronoid_uuidv7_compare (cl_uuidv7 c) (cl_uuidv72 c)\<rparr>)"
| "client_call cfg E t J Uuidv7_is_nil c = Done (c\<lparr>cl_answer := of_bool (chronoid_uuidv7_is_nil (cl_uuidv7 c))\<rparr>)"
| "client_call cfg E t J Uuidv7_unix_ms c = Done (c\<lparr>cl_answer := chronoid_uuidv7_unix_ms (cl_uuidv7 c)\<rparr>)"
| "client_call cfg E t J Uuidv7_version c = Done (c\<lparr>cl_answer := uint (chronoid_uuidv7_version (cl_uuidv7 c))\<rparr>)"
| "client_call cfg E t J Uuidv7_variant c = Done (c\<lparr>cl_answer := uint (chronoid_uuidv7_variant (cl_uuidv7 c))\<rparr>)"
| "client_call cfg E t J Uuidv7_format c =
     Done (c\<lparr>cl_buf := chronoid_uuidv7_format (pl_ssse3 t) (cl_uuidv7 c) (junk_array J 36)\<rparr>)"
| "client_call cfg E t J (Ksuid_string_batch ids) c =
     run_bind (chronoid_ksuid_string_batch (pl_batch t) (cl_ksuid_impl c) ids (junk_array J (length ids * 27)) (length ids))
       (\<lambda>(s, g). Done (c\<lparr>cl_buf := s, cl_ksuid_impl := g\<rparr>))"
| "client_call cfg E t J (Uuidv7_string_batch ids) c =
     run_bind (chronoid_uuidv7_string_batch (pl_batch t) (junk_array J 128) (pl_ssse3 t) (cl_uuidv7_impl c) ids
         (junk_array J (length ids * 36)) (length ids))
       (\<lambda>(s, g). Done (c\<lparr>cl_buf := s, cl_uuidv7_impl := g\<rparr>))"

primrec client_calls ::
    "config \<Rightarrow> env \<Rightarrow> platform \<Rightarrow> (nat \<Rightarrow> u8) \<Rightarrow> 'c call list \<Rightarrow> 'c client \<Rightarrow> 'c client run" where
  "client_calls cfg E t J [] c = Done c"
| "client_calls cfg E t J (x # xs) c = run_bind (client_call cfg E t J x c) (client_calls cfg E t J xs)"

text \<open>
  What a caller has to respect: an override of the random source writes inside the buffer it is given, the
  fixed-size array of \<open>from_parts\<close> has its size, the identifiers of a batch are identifiers, and a time in seconds is not among the
  1400000000 smallest values of \<open>int64_t\<close>, for which the subtraction of the epoch overflows.
\<close>

fun call_allowed :: "'c call \<Rightarrow> bool" where
  "call_allowed (Set_rand (Some fn) ctx) = rng_fun_ok fn"
| "call_allowed (Ksuid_new_with_time s) = in_i64 (s - 1400000000)"
| "call_allowed (Ksuid_from_parts s p) = in_i64 (s - 1400000000)"
| "call_allowed (Uuidv7_from_parts m a b) = (length b = 8)"
| "call_allowed (Ksuid_string_batch ids) = list_all wf_ksuid ids"
| "call_allowed (Uuidv7_string_batch ids) = list_all wf_uuidv7 ids"
| "call_allowed _ = True"

definition impl_ok :: "platform \<Rightarrow> batch_impl \<Rightarrow> bool" where
  "impl_ok t g \<longleftrightarrow> g = Init_trampoline \<or> g = resolve_impl (pl_batch t)"

definition client_ok :: "platform \<Rightarrow> 'c client \<Rightarrow> bool" where
  "client_ok t c \<longleftrightarrow> impl_ok t (cl_ksuid_impl c) \<and> impl_ok t (cl_uuidv7_impl c) \<and> gen_ok (cl_world c) \<and> wf_ksuid (cl_ksuid c) \<and> wf_uuidv7 (cl_uuidv7 c)
     \<and> wf_ksuid (cl_ksuid2 c) \<and> wf_uuidv7 (cl_uuidv72 c)
     \<and> wf_ksuid (seed (cl_ksuid_seq c)) \<and> (\<forall>s. cl_uuidv7_seq c = Some s \<longrightarrow> useq_ok s)"

lemma length_junk [simp]: "length (junk_array J n) = n"
  by (simp add: junk_array_def)

lemma seq_next_wf:
  assumes "wf_ksuid (seed s)" "wf_ksuid out" "chronoid_ksuid_sequence_next s out = (e, s', k)"
  shows "wf_ksuid (seed s') \<and> wf_ksuid k"
  using assms
  by (auto simp: chronoid_ksuid_sequence_next_def apply_count_id seq_id_wf split: if_splits)

lemma seq_bounds_wf:
  assumes "wf_ksuid (seed s)" "chronoid_ksuid_sequence_bounds s = (lo, hi)"
  shows "wf_ksuid lo \<and> wf_ksuid hi"
  using assms by (auto simp: chronoid_ksuid_sequence_bounds_def Let_def apply_count_id seq_id_wf)

lemma useq_bounds_wf:
  assumes "useq_ok s" "wf_uuidv7 u1" "wf_uuidv7 u2" "chronoid_uuidv7_sequence_bounds s u1 u2 = (lo, hi)"
  shows "wf_uuidv7 lo \<and> wf_uuidv7 hi"
proof -
  have ms: "0 \<le> last_ms s" "last_ms s \<le> UUIDV7_MAX_UNIX_MS" using assms(1) by (simp_all add: useq_ok_def)
  have "wf_uuidv7 (chronoid_uuidv7_sequence_emit u (last_ms s) n rb)" if "wf_uuidv7 u" "length rb = 8" for u n rb
    using emit_layout [OF that ms, of n] that(2) by (simp add: wf_uuidv7_def)
  then show ?thesis using assms(2-4) by (auto simp: chronoid_uuidv7_sequence_bounds_def Let_def)
qed

lemma from_bytes_wf:
  "wf_ksuid k \<Longrightarrow> wf_ksuid (snd (chronoid_ksuid_from_bytes k b (length b)))"
  "wf_uuidv7 u \<Longrightarrow> wf_uuidv7 (snd (chronoid_uuidv7_from_bytes u b (length b)))"
  by (simp_all add: chronoid_ksuid_from_bytes_def wf_ksuid_def chronoid_uuidv7_from_bytes_def wf_uuidv7_def len_simps)

lemma uuidv7_parts_wf:
  "wf_uuidv7 u \<Longrightarrow> length b = 8 \<Longrightarrow> wf_uuidv7 (snd (chronoid_uuidv7_from_parts u m a b))"
  by (simp add: from_parts_layout) (simp add: wf_uuidv7_def)

lemma gen_ok_wipe: "gen_ok w \<Longrightarrow> gen_ok (chronoid_random_thread_state_wipe w)"
proof -
  have "\<not> seeded rng_zero" by (simp add: rng_zero_def)
  then show "gen_ok w \<Longrightarrow> gen_ok (chronoid_random_thread_state_wipe w)"
    by (simp add: chronoid_random_thread_state_wipe_def gen_ok_def world_ok_def rng_inv_zero)
qed

lemma safe_ksuid_batch:
  assumes "list_all wf_ksuid ids" "impl_ok t g" "length out = length ids * 27"
  shows "safe_run E (\<lambda>(s, g). impl_ok t g) (chronoid_ksuid_string_batch (pl_batch t) g ids out (length ids))"
  using ksuid_batch_runs [OF assms(1) refl, of out g "pl_batch t"] assms(2,3)
  by (auto simp: impl_ok_def safe_run_def)

lemma safe_uuidv7_batch:
  assumes "list_all wf_uuidv7 ids" "impl_ok t g" "length out = length ids * 36" "length hex = 128"
  shows "safe_run E (\<lambda>(s, g). impl_ok t g) (chronoid_uuidv7_string_batch (pl_batch t) hex ss g ids out (length ids))"
  using uuidv7_batch_runs [OF assms(1) refl, of out hex g "pl_batch t" ss] assms(2-4)
  by (auto simp: impl_ok_def safe_run_def)

lemma client_call_safe:
  assumes "sane_clock E" "client_ok t c" "call_allowed x"
  shows "safe_run E (client_ok t) (client_call cfg E t J x c)"
proof -
  have w: "gen_ok (cl_world c)" and k: "wf_ksuid (cl_ksuid c)" and u: "wf_uuidv7 (cl_uuidv7 c)"
    and k2: "wf_ksuid (cl_ksuid2 c)" and u2: "wf_uuidv7 (cl_uuidv72 c)"
    and q: "wf_ksuid (seed (cl_ksuid_seq c))" and i: "impl_ok t (cl_ksuid_impl c)" "impl_ok t (cl_uuidv7_impl c)"
    and v: "\<And>s. cl_uuidv7_seq c = Some s \<Longrightarrow> useq_ok s"
    using assms(2) by (simp_all add: client_ok_def)
  note upd = safe_Done client_ok_def w k u k2 u2 q v i
  show ?thesis
  proof (cases x)
    case (Random_bytes n)
    then show ?thesis
      by (auto intro!: safe_bind [OF safe_random_bytes [OF assms(1) w length_junk]] simp: upd)
  next
    case Force_reseed
    then show ?thesis using w by (auto simp: upd chronoid_random_force_reseed_def gen_ok_def world_ok_def rng_inv_def)
  next
    case Thread_wipe
    then show ?thesis
      by (simp add: upd gen_ok_wipe)
  next
    case (Set_rand fn ctx)
    then show ?thesis using w assms(3) by (cases fn) (auto simp: upd chronoid_set_rand_def gen_ok_def world_ok_def)
  next
    case (Set_time_source fn)
    then show ?thesis using w by (auto simp: upd chronoid_set_time_source_for_testing_def gen_ok_def world_ok_def)
  next
    case Ksuid_new
    then show ?thesis by (auto intro!: safe_bind [OF safe_ksuid_new [OF assms(1) w k length_junk]] simp: upd)
  next
    case (Ksuid_new_with_time s)
    then show ?thesis
      using assms(3) by (auto intro!: safe_bind [OF safe_ksuid_new_with_time [OF assms(1) w k length_junk]] simp: upd)
  next
    case (Ksuid_from_parts s p)
    then show ?thesis
      using assms(3) k
      by (auto simp: upd chronoid_ksuid_from_parts_def i64_chk_Done run_simps store_parts_wf simp del: of_int_diff)
  next
    case (Ksuid_from_bytes b)
    then show ?thesis using from_bytes_wf(1) [OF k, of b] by (simp add: upd split_beta)
  next
    case (Ksuid_parse s)
    then show ?thesis
      using k ksuid_codec.dec_wf by (auto simp: upd parse_refines split: option.splits)
  next
    case Ksuid_format
    then show ?thesis using k by (simp add: upd format_refines run_simps)
  next
    case Ksuid_sequence_init
    then show ?thesis by (simp add: upd chronoid_ksuid_sequence_init_def)
  next
    case Ksuid_sequence_next
    then show ?thesis using seq_next_wf [OF q k] by (auto simp: upd split: prod.splits)
  next
    case Ksuid_sequence_bounds
    then show ?thesis using seq_bounds_wf [OF q] by (auto simp: upd split: prod.splits)
  next
    case Uuidv7_new
    then show ?thesis by (auto intro!: safe_bind [OF safe_uuidv7_new [OF assms(1) w u length_junk]] simp: upd)
  next
    case (Uuidv7_new_with_time m)
    then show ?thesis by (auto intro!: safe_bind [OF safe_uuidv7_new_with_time [OF assms(1) w u length_junk]] simp: upd)
  next
    case (Uuidv7_from_parts m a b)
    then show ?thesis using uuidv7_parts_wf [OF u, of b] assms(3) by (simp add: upd split_beta)
  next
    case (Uuidv7_from_bytes b)
    then show ?thesis using from_bytes_wf(2) [OF u, of b] by (simp add: upd split_beta)
  next
    case (Uuidv7_parse s)
    then show ?thesis using u uuid_codec.dec_wf by (auto simp: upd uuid_parse_refines split: option.splits)
  next
    case Uuidv7_sequence_init
    then show ?thesis
      by (auto intro!: safe_bind [OF safe_sequence_init [OF assms(1) w length_junk length_junk]] simp: upd split: if_splits)
  next
    case Uuidv7_sequence_next
    then show ?thesis
      using v assms(2)
      by (auto intro!: safe_bind [OF safe_sequence_next [OF assms(1) w _ length_junk length_junk u]] simp: upd split: option.splits)
  next
    case Uuidv7_sequence_bounds
    then show ?thesis
      using useq_bounds_wf [OF v u u2] assms(2) by (auto simp: upd split: prod.splits option.splits)
  next
    case Uuidv7_format
    then show ?thesis by (simp add: upd)
  next
    case (Ksuid_string_batch ids)
    then have "list_all wf_ksuid ids" using assms(3) by simp
    from safe_ksuid_batch [OF this i(1), of "junk_array J (length ids * 27)"] Ksuid_string_batch show ?thesis
      by (auto intro!: safe_bind simp: upd)
  next
    case (Uuidv7_string_batch ids)
    then have "list_all wf_uuidv7 ids" using assms(3) by simp
    from safe_uuidv7_batch [OF this i(2), of "junk_array J (length ids * 36)" "junk_array J 128"] Uuidv7_string_batch
    show ?thesis by (auto intro!: safe_bind simp: upd)
  qed (simp_all add: upd)
qed

lemma client_calls_safe:
  assumes "sane_clock E"
  shows "client_ok t c \<Longrightarrow> list_all call_allowed xs \<Longrightarrow> safe_run E (client_ok t) (client_calls cfg E t J xs c)"
proof (induction xs arbitrary: c)
  case Nil
  then show ?case by (simp add: safe_Done)
next
  case (Cons x xs)
  then show ?case
    by (auto intro!: safe_bind [OF client_call_safe [OF assms]])
qed

text \<open>
  The library does nothing undefined: whatever calls a thread makes, in whatever order, on
  well-formed objects and within the preconditions \<open>call_allowed\<close> states, no access leaves an array and
  no signed operation overflows; every object, the generator's state included, is well formed
  afterwards; and all calls return when the system stops interrupting.
\<close>

theorem library_safe:
  assumes "sane_clock E" "client_ok t c" "list_all call_allowed xs" "R = client_calls cfg E t J xs c"
  shows "R \<noteq> Undef \<and> (\<forall>c'. R = Done c' \<longrightarrow> client_ok t c') \<and> ((\<exists>T. calm E T) \<longrightarrow> (\<exists>c'. R = Done c'))"
  using client_calls_safe [OF assms(1-3), of cfg J] unfolding safe_run_def assms(4) by (metis run.exhaust)

definition sample_client :: "unit client" where
  "sample_client =
     \<lparr>cl_world = const_world, cl_ksuid = CHRONOID_KSUID_NIL, cl_ksuid2 = CHRONOID_KSUID_MAX,
      cl_uuidv7 = CHRONOID_UUIDV7_NIL, cl_uuidv72 = CHRONOID_UUIDV7_NIL,
      cl_ksuid_seq = chronoid_ksuid_sequence_init CHRONOID_KSUID_NIL, cl_uuidv7_seq = None, cl_buf = [], cl_answer = 0,
      cl_ksuid_impl = Init_trampoline, cl_uuidv7_impl = Init_trampoline\<rparr>"

definition sample_platform :: platform where
  "sample_platform = \<lparr>pl_simd = Sse2, pl_ssse3 = True, pl_batch = sample_batch_env\<rparr>"

lemma library_safe_witness:
  "\<exists>c'. client_calls sample_cfg sample_env sample_platform (\<lambda>i. 0x5a)
      [Ksuid_new, Ksuid_format, Uuidv7_sequence_init, Uuidv7_sequence_next, Force_reseed, Set_rand None (),
       Random_bytes 100, Uuidv7_new, Thread_wipe, Ksuid_sequence_next, Ksuid_sequence_bounds, Ksuid_compare, Uuidv7_sequence_bounds,
       Ksuid_string_batch [CHRONOID_KSUID_NIL]] sample_client = Done c' \<and> client_ok sample_platform c'"
proof -
  have "client_ok sample_platform sample_client"
    using const_world_ok wf_uuid_nil
    by (simp add: client_ok_def impl_ok_def sample_client_def chronoid_ksuid_sequence_init_def)
  then show ?thesis
    using library_safe [OF sample_sane(1), of sample_platform sample_client, OF _ _ refl, of
        "[Ksuid_new, Ksuid_format, Uuidv7_sequence_init, Uuidv7_sequence_next, Force_reseed, Set_rand None (),
          Random_bytes 100, Uuidv7_new, Thread_wipe, Ksuid_sequence_next, Ksuid_sequence_bounds, Ksuid_compare, Uuidv7_sequence_bounds,
          Ksuid_string_batch [CHRONOID_KSUID_NIL]]" sample_cfg "\<lambda>i. 0x5a"] sample_sane(2)
    by (auto simp del: client_calls.simps)
qed

end
