(* ===== verification/Threads.thy ===== *)
theory Threads
  imports Client
begin

text \<open>
  Several threads in one process. What a thread has to itself is the \<open>_Thread_local\<close> state of
  \<open>chronoid/rand_tls.c\<close> and its own objects; what the threads share is the system, the slots of the
  overrides and the batch encoders' pointers. The threads' calls interleave in any order, a call at a
  time; the interleavings inside the calls that touch a shared slot are those of \<open>Batch\<close> and
  \<open>Override\<close>.
\<close>

section \<open>Shared and thread-local state\<close>

record 'c shared =
  sh_os :: os_state
  sh_wipes :: nat
  sh_hooks :: nat
  sh_fls_index :: "bool option"
  sh_time_source :: "(nat \<Rightarrow> i64) option"
  sh_rng_fn :: "'c rng_fun option"
  sh_rng_ctx :: 'c
  sh_ksuid_impl :: batch_impl
  sh_uuidv7_impl :: batch_impl

record thread_local =
  lo_rng :: tls_rng
  lo_in_destructor :: bool
  lo_ksuid :: ksuid
  lo_ksuid2 :: ksuid
  lo_uuidv7 :: uuidv7
  lo_uuidv72 :: uuidv7
  lo_ksuid_seq :: ksuid_sequence
  lo_uuidv7_seq :: "uuidv7_sequence option"
  lo_buf :: "u8 list"
  lo_answer :: int

text \<open>A thread's view of the process, and its two parts.\<close>

definition view :: "'c shared \<Rightarrow> thread_local \<Rightarrow> 'c client" where
  "view s l =
     \<lparr>cl_world = \<lparr>os = sh_os s, rng = lo_rng l, in_destructor = lo_in_destructor l, wipes_observed = sh_wipes s,
        hooks = sh_hooks s, fls_index = sh_fls_index s, time_source = sh_time_source s, g_rng_fn = sh_rng_fn s,
        g_rng_ctx = sh_rng_ctx s\<rparr>,
      cl_ksuid = lo_ksuid l, cl_ksuid2 = lo_ksuid2 l, cl_uuidv7 = lo_uuidv7 l, cl_uuidv72 = lo_uuidv72 l, cl_ksuid_seq = lo_ksuid_seq l, cl_uuidv7_seq = lo_uuidv7_seq l,
      cl_buf = lo_buf l, cl_answer = lo_answer l, cl_ksuid_impl = sh_ksuid_impl s, cl_uuidv7_impl = sh_uuidv7_impl s\<rparr>"

definition shared_of :: "'c client \<Rightarrow> 'c shared" where
  "shared_of c =
     (let w = cl_world c
      in \<lparr>sh_os = os w, sh_wipes = wipes_observed w, sh_hooks = hooks w, sh_fls_index = fls_index w,
          sh_time_source = time_source w, sh_rng_fn = g_rng_fn w, sh_rng_ctx = g_rng_ctx w,
          sh_ksuid_impl = cl_ksuid_impl c, sh_uuidv7_impl = cl_uuidv7_impl c\<rparr>)"

definition local_of :: "'c client \<Rightarrow> thread_local" where
  "local_of c =
     \<lparr>lo_rng = rng (cl_world c), lo_in_destructor = in_destructor (cl_world c), lo_ksuid = cl_ksuid c,
      lo_ksuid2 = cl_ksuid2 c, lo_uuidv7 = cl_uuidv7 c, lo_uuidv72 = cl_uuidv72 c, lo_ksuid_seq = cl_ksuid_seq c, lo_uuidv7_seq = cl_uuidv7_seq c, lo_buf = cl_buf c,
      lo_answer = cl_answer c\<rparr>"

lemma view_parts: "view (shared_of c) (local_of c) = c"
  by (simp add: view_def shared_of_def local_of_def Let_def)

lemma parts_view: "shared_of (view s l) = s" "local_of (view s l) = l"
  by (simp_all add: view_def shared_of_def local_of_def Let_def)

record 'c process =
  shared_part :: "'c shared"
  threads :: "nat \<Rightarrow> thread_local"

text \<open>
  A schedule names, for each call, the thread that makes it. The trace holds what each call left in
  its thread's buffer.
\<close>

definition thread_call ::
    "config \<Rightarrow> env \<Rightarrow> platform \<Rightarrow> (nat \<Rightarrow> u8) \<Rightarrow> nat \<Rightarrow> 'c call \<Rightarrow> 'c process \<Rightarrow> 'c process run" where
  "thread_call cfg E t J i x p =
     run_bind (client_call cfg E t J x (view (shared_part p) (threads p i))) (\<lambda>c.
       Done \<lparr>shared_part = shared_of c, threads = (threads p)(i := local_of c)\<rparr>)"

primrec run_schedule ::
    "config \<Rightarrow> env \<Rightarrow> platform \<Rightarrow> (nat \<Rightarrow> u8) \<Rightarrow> (nat \<times> 'c call) list \<Rightarrow> 'c process
      \<Rightarrow> ((nat \<times> u8 list) list \<times> 'c process) run" where
  "run_schedule cfg E t J [] p = Done ([], p)"
| "run_schedule cfg E t J (x # xs) p =
     run_bind (thread_call cfg E t J (fst x) (snd x) p) (\<lambda>p.
     run_bind (run_schedule cfg E t J xs p) (\<lambda>(tr, p').
       Done ((fst x, lo_buf (threads p (fst x))) # tr, p')))"

section \<open>Safety of every interleaving\<close>

definition process_ok :: "platform \<Rightarrow> 'c process \<Rightarrow> bool" where
  "process_ok t p \<longleftrightarrow> (\<forall>i. client_ok t (view (shared_part p) (threads p i)))"

text \<open>What one thread leaves in the shared part is fit for the others.\<close>

lemma client_ok_mix:
  assumes "client_ok t c" "client_ok t (view s l)"
  shows "client_ok t (view (shared_of c) l)"
  using assms
  by (simp add: client_ok_def gen_ok_def world_ok_def view_def shared_of_def Let_def)

lemma thread_call_safe:
  assumes "sane_clock E" "process_ok t p" "call_allowed x"
  shows "safe_run E (process_ok t) (thread_call cfg E t J i x p)"
proof -
  have ok: "client_ok t (view (shared_part p) (threads p j))" for j using assms(2) by (simp add: process_ok_def)
  have "process_ok t \<lparr>shared_part = shared_of c, threads = (threads p)(i := local_of c)\<rparr>" if "client_ok t c" for c
    using that client_ok_mix [OF that ok] by (simp add: process_ok_def view_parts)
  then show ?thesis
    unfolding thread_call_def
    by (auto intro!: safe_bind [OF client_call_safe [OF assms(1) ok assms(3)]] safe_Done)
qed

lemma run_schedule_safe:
  assumes "sane_clock E"
  shows "process_ok t p \<Longrightarrow> list_all (\<lambda>x. call_allowed (snd x)) xs \<Longrightarrow>
    safe_run E (\<lambda>(tr, p'). process_ok t p') (run_schedule cfg E t J xs p)"
proof (induction xs arbitrary: p)
  case Nil
  then show ?case by (simp add: safe_Done)
next
  case (Cons x xs)
  then have "safe_run E (process_ok t) (thread_call cfg E t J (fst x) (snd x) p)"
    by (intro thread_call_safe [OF assms]) simp_all
  then show ?case
    using Cons.IH Cons.prems(2) by (auto intro!: safe_bind [of E "process_ok t"] safe_bind safe_Done)
qed

section \<open>A thread's own stream\<close>

text \<open>The present seed stays good for \<open>n\<close> more bytes, at whatever moment the thread looks.\<close>

definition stays_fresh :: "env \<Rightarrow> tls_rng \<Rightarrow> nat \<Rightarrow> bool" where
  "stays_fresh E r n \<longleftrightarrow> seeded r \<and> unat (bytes_emitted r) + n < 2 ^ 20
     \<and> (\<forall>k. env_pid E k = seed_pid r \<and> seed_time r \<le> now_secs E k \<and> now_secs E k < seed_time r + 3600)"

lemma random_bytes_fresh:
  assumes "sane_clock E" "world_ok w" "\<not> in_destructor w" "length buf = n" "stays_fresh E (rng w) (n + m)"
  shows "\<exists>w'. chronoid_random_bytes cfg E buf n w = Done (0, map (rng_stream (rng w)) [0..<n], w')
    \<and> rng_stream (rng w') = (\<lambda>i. rng_stream (rng w) (n + i)) \<and> stays_fresh E (rng w') m"
proof -
  have "seeded (rng w)" "unat (bytes_emitted (rng w)) < 2 ^ 20" "env_pid E (now_tick w) = seed_pid (rng w)"
    "seed_time (rng w) \<le> now_secs E (now_tick w + 1)" "now_secs E (now_tick w + 1) < seed_time (rng w) + 3600"
    using assms(5) by (simp_all add: stays_fresh_def)
  then have fresh: "\<not> reseed_due E w" by (simp add: reseed_due_def)
  obtain w1 where sr: "chronoid_tls_rng_should_reseed E w = Done (False, w1)" "rng w1 = rng w"
    using should_reseed_spec [OF assms(1,2)] fresh by auto
  have "rng_inv (rng w)" using assms(2) by (simp add: world_ok_def)
  from draw_spec [OF this, of n] obtain r where r:
    "rng_draw (rng w) n = Done (map (rng_stream (rng w)) [0..<n], r)"
    "\<forall>i. rng_stream r i = rng_stream (rng w) (n + i)" "bytes_emitted r = bytes_emitted (rng w) + of_nat n"
    "seed_time r = seed_time (rng w)" "seed_pid r = seed_pid (rng w)" "seeded r = seeded (rng w)" by blast
  have "unat (bytes_emitted r) = unat (bytes_emitted (rng w)) + n"
    using assms(5) unfolding r(3) by (intro of_nat_inverse) (simp_all add: stays_fresh_def)
  then have "stays_fresh E r m" using assms(5) r(4-6) by (simp add: stays_fresh_def)
  moreover have "rng_stream r = (\<lambda>i. rng_stream (rng w) (n + i))" using r(2) by (intro ext) simp
  moreover have "chronoid_random_bytes cfg E buf n w = Done (0, map (rng_stream (rng w)) [0..<n], w1\<lparr>rng := r\<rparr>)"
    using assms(3,4) sr r(1) by (simp add: chronoid_random_bytes_def run_simps buf_put_all)
  ultimately show ?thesis by auto
qed

text \<open>The calls of one thread in a schedule, and what they left in its buffer.\<close>

definition own :: "nat \<Rightarrow> (nat \<times> 'a) list \<Rightarrow> 'a list" where
  "own i xs = map snd (filter (\<lambda>x. fst x = i) xs)"

lemma own_simps [simp]: "own i [] = []" "own i (x # xs) = (if fst x = i then [snd x] else []) @ own i xs"
  by (simp_all add: own_def)

lemma thread_call_other:
  "thread_call cfg E t J i x p = Done p' \<Longrightarrow> j \<noteq> i \<Longrightarrow> threads p' j = threads p j"
  by (auto simp: thread_call_def run_bind_eq_Done)

lemma thread_call_ok:
  assumes "sane_clock E" "process_ok t p" "call_allowed x" "thread_call cfg E t J i x p = Done p'"
  shows "process_ok t p'"
  using thread_call_safe [OF assms(1-3), of cfg J i] assms(4) by (simp add: safe_run_def)

lemma thread_draws:
  assumes "sane_clock E" "process_ok t p" "stays_fresh E (lo_rng (threads p i)) (n + m)"
    and "thread_call cfg E t J i (Random_bytes n) p = Done p'"
  shows "lo_buf (threads p' i) = map (rng_stream (lo_rng (threads p i))) [0..<n]"
    and "rng_stream (lo_rng (threads p' i)) = (\<lambda>k. rng_stream (lo_rng (threads p i)) (n + k))"
    and "stays_fresh E (lo_rng (threads p' i)) m"
proof -
  let ?c = "view (shared_part p) (threads p i)"
  have ok: "world_ok (cl_world ?c)" "\<not> in_destructor (cl_world ?c)" "rng (cl_world ?c) = lo_rng (threads p i)"
    using assms(2) by (simp_all add: process_ok_def client_ok_def gen_ok_def) (simp add: view_def)
  obtain w' where "chronoid_random_bytes cfg E (junk_array J n) n (cl_world ?c) =
      Done (0, map (rng_stream (lo_rng (threads p i))) [0..<n], w')"
    "rng_stream (rng w') = (\<lambda>k. rng_stream (lo_rng (threads p i)) (n + k))" "stays_fresh E (rng w') m"
    using random_bytes_fresh [OF assms(1) ok(1,2) length_junk, of n m cfg J] assms(3) ok(3) by auto
  then show "lo_buf (threads p' i) = map (rng_stream (lo_rng (threads p i))) [0..<n]"
    and "rng_stream (lo_rng (threads p' i)) = (\<lambda>k. rng_stream (lo_rng (threads p i)) (n + k))"
    and "stays_fresh E (lo_rng (threads p' i)) m"
    using assms(4) by (auto simp: thread_call_def run_simps local_of_def)
qed

lemma map_prefix_suffix: "map f [0..<n] @ map (\<lambda>k. f (n + k)) [0..<m] = map f [0..<n + m]"
  by (intro nth_equalityI) (auto simp: nth_append not_less)

lemma own_stream:
  assumes "sane_clock E"
  shows "process_ok t p \<Longrightarrow> list_all (\<lambda>x. call_allowed (snd x)) xs \<Longrightarrow> own i xs = map Random_bytes ns \<Longrightarrow>
    stays_fresh E (lo_rng (threads p i)) (sum_list ns) \<Longrightarrow> run_schedule cfg E t J xs p = Done (tr, p') \<Longrightarrow>
    concat (own i tr) = map (rng_stream (lo_rng (threads p i))) [0..<sum_list ns]
    \<and> rng_stream (lo_rng (threads p' i)) = (\<lambda>k. rng_stream (lo_rng (threads p i)) (sum_list ns + k))"
proof (induction xs arbitrary: p ns tr)
  case Nil
  then show ?case by simp
next
  case (Cons x xs)
  obtain p1 tr1 where p1: "thread_call cfg E t J (fst x) (snd x) p = Done p1"
    "run_schedule cfg E t J xs p1 = Done (tr1, p')" "tr = (fst x, lo_buf (threads p1 (fst x))) # tr1"
    using Cons.prems(5) by (auto simp: run_bind_eq_Done)
  have ok1: "process_ok t p1" using thread_call_ok [OF assms Cons.prems(1) _ p1(1)] Cons.prems(2) by simp
  have rest: "list_all (\<lambda>x. call_allowed (snd x)) xs" using Cons.prems(2) by simp
  show ?case
  proof (cases "fst x = i")
    case False
    then have "threads p1 i = threads p i" using thread_call_other [OF p1(1)] by simp
    then show ?thesis using Cons.IH [OF ok1 rest _ _ p1(2)] Cons.prems(3,4) False p1(3) by simp
  next
    case True
    then obtain n ms where ns: "ns = n # ms" "snd x = Random_bytes n" "own i xs = map Random_bytes ms"
      using Cons.prems(3) by (cases ns) auto
    then have fresh: "stays_fresh E (lo_rng (threads p i)) (n + sum_list ms)" using Cons.prems(4) by simp
    have call: "thread_call cfg E t J i (Random_bytes n) p = Done p1" using p1(1) True ns(2) by simp
    note d = thread_draws [OF assms Cons.prems(1) fresh call]
    have "concat (own i tr1) = map (rng_stream (lo_rng (threads p1 i))) [0..<sum_list ms]"
      and last: "rng_stream (lo_rng (threads p' i)) = (\<lambda>k. rng_stream (lo_rng (threads p1 i)) (sum_list ms + k))"
      using Cons.IH [OF ok1 rest ns(3) d(3) p1(2)] by simp_all
    then have "concat (own i tr) = map (rng_stream (lo_rng (threads p i))) [0..<n]
        @ map (\<lambda>k. rng_stream (lo_rng (threads p i)) (n + k)) [0..<sum_list ms]"
      using p1(3) True d(1,2) by simp
    also have "\<dots> = map (rng_stream (lo_rng (threads p i))) [0..<sum_list ns]"
      by (simp add: ns(1) map_prefix_suffix)
    finally show ?thesis using last d(2) by (simp add: ns(1) add.assoc)
  qed
qed

section \<open>Properties\<close>


text \<open>
  Claim C13. Threads draw independent streams without synchronisation: the bytes a thread draws while its seed
  stays good are the next bytes of its own keystream, however its draws interleave with the calls of
  other threads and whatever those calls are (draws, wipes, forced reseeds, a new override, batches): the
  result mentions nothing but the thread's own state and the sizes of its draws.
\<close>

theorem thread_streams_independent:
  assumes "sane_clock E" "process_ok t p" "list_all (\<lambda>x. call_allowed (snd x)) xs"
    and "own i xs = map Random_bytes ns" "r = lo_rng (threads p i)" "stays_fresh E r (sum_list ns)"
    and "run_schedule cfg E t J xs p = Done (tr, p')"
  shows "concat (own i tr) = map (rng_stream r) [0..<sum_list ns]
    \<and> rng_stream (lo_rng (threads p' i)) = (\<lambda>k. rng_stream r (sum_list ns + k))"
  using own_stream [OF assms(1-4) _ assms(7)] assms(5,6) by simp

text \<open>Two threads in the same state; the second one is told to reseed between the draws of the first.\<close>

definition sample_local :: thread_local where
  "sample_local =
     \<lparr>lo_rng = rng_zero\<lparr>seeded := True, seed_time := 1700000000, seed_pid := 42\<rparr>, lo_in_destructor = False,
      lo_ksuid = CHRONOID_KSUID_NIL, lo_ksuid2 = CHRONOID_KSUID_MAX,
      lo_uuidv7 = CHRONOID_UUIDV7_NIL, lo_uuidv72 = CHRONOID_UUIDV7_NIL,
      lo_ksuid_seq = chronoid_ksuid_sequence_init CHRONOID_KSUID_NIL, lo_uuidv7_seq = None, lo_buf = [],
      lo_answer = 0\<rparr>"

definition sample_process :: "unit process" where
  "sample_process = \<lparr>shared_part = shared_of sample_client, threads = (\<lambda>_. sample_local)\<rparr>"

definition sample_schedule :: "(nat \<times> unit call) list" where
  "sample_schedule = [(0, Random_bytes 2), (1, Force_reseed), (1, Random_bytes 5), (1, Set_rand None ()),
     (0, Random_bytes 3), (1, Ksuid_new),
     (1, Ksuid_sequence_bounds), (1, Ksuid_compare), (1, Thread_wipe)]"

lemma sample_process_ok: "process_ok sample_platform sample_process"
  using const_world_ok wf_uuid_nil
  by (simp add: process_ok_def client_ok_def impl_ok_def gen_ok_def world_ok_def sample_process_def view_def shared_of_def
      Let_def sample_client_def sample_local_def rng_inv_def chronoid_ksuid_sequence_init_def)
    (simp add: rng_zero_def)

lemma sample_schedule_allowed: "list_all (\<lambda>x. call_allowed (snd x)) sample_schedule"
  by (simp add: sample_schedule_def)

lemma sample_schedule_runs:
  "\<exists>tr p'. run_schedule sample_cfg sample_env sample_platform (\<lambda>i. 0) sample_schedule sample_process = Done (tr, p')"
proof -
  let ?R = "run_schedule sample_cfg sample_env sample_platform (\<lambda>i. 0) sample_schedule sample_process"
  have "safe_run sample_env (\<lambda>(tr, p'). process_ok sample_platform p') ?R"
    by (rule run_schedule_safe [OF sample_sane(1) sample_process_ok sample_schedule_allowed])
  then show ?thesis using sample_sane(2) by (cases ?R) (auto simp: safe_run_def)
qed


lemma thread_streams_independent_witness:
  "\<exists>tr p'. run_schedule sample_cfg sample_env sample_platform (\<lambda>i. 0) sample_schedule sample_process = Done (tr, p')
    \<and> concat (own 0 tr) = map (rng_stream (lo_rng sample_local)) [0..<5]"
proof -
  obtain tr p' where r: "run_schedule sample_cfg sample_env sample_platform (\<lambda>i. 0) sample_schedule sample_process
      = Done (tr, p')" using sample_schedule_runs by blast
  have "own 0 sample_schedule = map Random_bytes [2, 3]" by (simp add: sample_schedule_def)
  moreover have "stays_fresh sample_env (lo_rng sample_local) (sum_list [2, 3])"
    by (simp add: stays_fresh_def sample_local_def sample_env_def now_secs_def rng_zero_def)
  moreover have "lo_rng sample_local = lo_rng (threads sample_process 0)" by (simp add: sample_process_def)
  ultimately show ?thesis
    using thread_streams_independent [OF sample_sane(1) sample_process_ok sample_schedule_allowed _ _ _ r, of 0 "[2, 3]"] r
    by auto
qed

end
