(* ===== verification/Pipeline.thy ===== *)
theory Pipeline
  imports Ksuid_Sequence Uuidv7_Sequence Encode_Batch Hex_Batch
begin

text \<open>
  Sequences, batch encoders and parsers put together: the texts of the identifiers a sequence hands
  out, as a batch encoder writes them, ascend strictly and parse back. What the three components
  owe each other is one locale over the contracts of the codec, the generator and the kernel,
  which both kinds of identifier interpret.
\<close>

section \<open>The composition\<close>

locale text_sequence =
  codec: ordered_codec enc dec wf + gen: monotone_generator step inv below + kern: batch_kernel enc width wf kernel
  for enc :: "'k::linorder \<Rightarrow> u8 list" and dec :: "u8 list \<Rightarrow> 'k option" and wf :: "'k \<Rightarrow> bool"
    and step :: "'i \<Rightarrow> 's \<Rightarrow> 'k option \<times> 's" and inv :: "'s \<Rightarrow> bool" and below :: "'k \<Rightarrow> 's \<Rightarrow> bool"
    and width :: nat and kernel :: "'k list \<Rightarrow> u8 list \<Rightarrow> nat \<Rightarrow> u8 list run" +
  assumes emitted_wf: "inv s \<Longrightarrow> step i s = (Some x, s') \<Longrightarrow> wf x"
begin

lemma run_wf: "inv s \<Longrightarrow> list_all wf (fst (gen_run step is s))"
proof (induction "is" arbitrary: s)
  case Nil
  then show ?case by simp
next
  case (Cons i "is")
  obtain r s1 where st: "step i s = (r, s1)" by fastforce
  have "list_all wf (fst (gen_run step is s1))" by (rule Cons.IH [OF gen.inv_step [OF Cons.prems st]])
  then show ?case using emitted_wf [OF Cons.prems] st by (auto split: option.splits prod.splits)
qed

text \<open>The slots of an array the kernel has filled.\<close>

lemma run_slots:
  assumes "inv s" "ids = fst (gen_run step is s)" "arr = concat (map enc ids) @ rest"
  shows "sorted_wrt (<) (map (\<lambda>i. buf_get arr (i * width) width) [0..<length ids])"
    and "i < length ids \<Longrightarrow> dec (buf_get arr (i * width) width) = Some (ids ! i)"
proof -
  have wf: "list_all wf ids" using run_wf [OF assms(1)] assms(2) by simp
  have slot: "buf_get arr (i * width) width = enc (ids ! i)" if "i < length ids" for i
    unfolding assms(3) by (rule kern.slot [OF wf that])
  then have "map (\<lambda>i. buf_get arr (i * width) width) [0..<length ids] = map enc ids"
    by (intro nth_equalityI) simp_all
  moreover have "sorted_wrt (<) (map enc ids)"
    using gen.run_sorted [OF assms(1), of "is"] wf by (simp add: codec.sorted_texts assms(2) list_all_iff)
  ultimately show "sorted_wrt (<) (map (\<lambda>i. buf_get arr (i * width) width) [0..<length ids])" by simp
  show "dec (buf_get arr (i * width) width) = Some (ids ! i)" if "i < length ids"
    using slot [OF that] wf that by (simp add: codec.dec_enc list_all_length)
qed

end

section \<open>The two kinds of identifier\<close>

interpretation ksuid_texts: text_sequence
  ksuid_text ksuid_of_text wf_ksuid seq_step seq_inv seq_below 27 chronoid_ksuid_string_batch_scalar
  by unfold_locales (auto simp: seq_step_spec seq_inv_def seq_id_wf split: if_splits)

lemma useq_step_wf: "useq_ok s \<Longrightarrow> useq_step c s = (Some u, s') \<Longrightarrow> wf_uuidv7 u"
  using step_cases [of s c "Some u" s'] succ_ok [of s "wall_ms (call_env c) (call_world c)" s']
  by (auto simp: useq_id_def useq_ok_def wf_uuidv7_def)

interpretation uuid_texts: text_sequence
  uuid_text uuid_of_text wf_uuidv7 useq_step useq_ok useq_below 36 "chronoid_uuidv7_string_batch_scalar ssse3"
  by unfold_locales (rule useq_step_wf)

section \<open>Properties\<close>

text \<open>
  Claim C15. From a KSUID sequence to text and back: whatever a sequence has handed out in any number of
  calls, the batch encoder writes, with whichever kernel dispatch selects, as texts that ascend strictly as byte strings from slot to slot,
  and each slot parses, on every build, to the very identifier.
\<close>

theorem ksuid_sequence_texts:
  assumes "wf_ksuid sd" "ids = fst (gen_run seq_step calls (chronoid_ksuid_sequence_init sd))"
    and "length ids * 27 \<le> length out" "g = Init_trampoline \<or> g = resolve_impl B" "length tmp = 20"
  shows "\<exists>arr g'. chronoid_ksuid_string_batch B g ids out (length ids) = Done (arr, g')
    \<and> sorted_wrt (<) (map (\<lambda>i. buf_get arr (i * 27) 27) [0..<length ids])
    \<and> (\<forall>i < length ids. chronoid_ksuid_parse t tmp k (buf_get arr (i * 27) 27) 27 = (CHRONOID_KSUID_OK, ids ! i))"
proof -
  have inv: "seq_inv (chronoid_ksuid_sequence_init sd)" by (rule seq_inv_init [OF assms(1)])
  have wf: "list_all wf_ksuid ids" using ksuid_texts.run_wf [OF inv] assms(2) by simp
  define arr where "arr = concat (map ksuid_text ids) @ drop (length ids * 27) out"
  have run: "\<exists>g'. chronoid_ksuid_string_batch B g ids out (length ids) = Done (arr, g')"
    using ksuid_batch_runs [OF wf refl _ assms(4), of out] assms(3) by (simp add: arr_def)
  note s = ksuid_texts.run_slots [OF inv assms(2) arr_def]
  have "length arr = length out"
    using ksuid_scalar.texts_length [OF wf] assms(3) by (simp add: arr_def)
  then have "length (buf_get arr (i * 27) 27) = 27" if "i < length ids" for i
    using that assms(3) by (simp add: len_simps)
  then have "\<forall>i < length ids. chronoid_ksuid_parse t tmp k (buf_get arr (i * 27) 27) 27 = (CHRONOID_KSUID_OK, ids ! i)"
    using s(2) assms(5) by (simp add: parse_refines)
  then show ?thesis using run s(1) by blast
qed

lemma ksuid_sequence_texts_witness:
  "\<exists>arr g'. chronoid_ksuid_string_batch sample_batch_env Init_trampoline
      [seq_id CHRONOID_KSUID_NIL 0, seq_id CHRONOID_KSUID_NIL 1] (replicate 54 0) 2 = Done (arr, g')
    \<and> buf_get arr 0 27 < buf_get arr 27 27
    \<and> chronoid_ksuid_parse Sse2 (replicate 20 0) CHRONOID_KSUID_MAX (buf_get arr 27 27) 27
        = (CHRONOID_KSUID_OK, seq_id CHRONOID_KSUID_NIL 1)"
proof -
  let ?ids = "[seq_id CHRONOID_KSUID_NIL 0, seq_id CHRONOID_KSUID_NIL 1]"
  have inv: "seq_inv (chronoid_ksuid_sequence_init CHRONOID_KSUID_NIL)" by (rule seq_inv_init) simp
  have ids: "?ids = fst (gen_run seq_step [CHRONOID_KSUID_MAX, CHRONOID_KSUID_MAX]
      (chronoid_ksuid_sequence_init CHRONOID_KSUID_NIL))"
    using run_ids [OF inv, of "[CHRONOID_KSUID_MAX, CHRONOID_KSUID_MAX]"]
    by (simp add: chronoid_ksuid_sequence_init_def upt_rec)
  obtain arr g' where r: "chronoid_ksuid_string_batch sample_batch_env Init_trampoline ?ids (replicate 54 0) (length ?ids) = Done (arr, g')"
    and o: "sorted_wrt (<) (map (\<lambda>i. buf_get arr (i * 27) 27) [0..<length ?ids])"
    and p: "\<forall>i < length ?ids. chronoid_ksuid_parse Sse2 (replicate 20 0) CHRONOID_KSUID_MAX (buf_get arr (i * 27) 27) 27
      = (CHRONOID_KSUID_OK, ?ids ! i)"
    using ksuid_sequence_texts [OF _ ids, of "replicate 54 0" Init_trampoline sample_batch_env "replicate 20 0" Sse2
        CHRONOID_KSUID_MAX] by auto
  from p [THEN spec, of 1] have "chronoid_ksuid_parse Sse2 (replicate 20 0) CHRONOID_KSUID_MAX (buf_get arr 27 27) 27
      = (CHRONOID_KSUID_OK, seq_id CHRONOID_KSUID_NIL 1)" by simp
  then show ?thesis using r o by (auto simp: upt_rec numeral_2_eq_2)
qed

text \<open>
  Claim C16. From a UUIDv7 sequence to text and back: whatever clock, random source and failures the calls met, what the sequence
  has handed out is written by the batch encoder as texts that ascend strictly as byte
  strings from slot to slot, and each slot parses to the very identifier.
\<close>

theorem uuidv7_sequence_texts:
  assumes "useq_ok s" "ids = fst (gen_run useq_step calls s)" "length ids * 36 \<le> length out" "length hex = 128"
    and "g = Init_trampoline \<or> g = resolve_impl B" "length tmp = 16" "length tmp2 = 16" "wf_uuidv7 u"
  shows "\<exists>arr g'. chronoid_uuidv7_string_batch B hex ssse3 g ids out (length ids) = Done (arr, g')
    \<and> sorted_wrt (<) (map (\<lambda>i. buf_get arr (i * 36) 36) [0..<length ids])
    \<and> (\<forall>i < length ids. chronoid_uuidv7_parse tmp tmp2 u (buf_get arr (i * 36) 36) 36 = (CHRONOID_UUIDV7_OK, ids ! i))"
proof -
  have wf: "list_all wf_uuidv7 ids" using uuid_texts.run_wf [OF assms(1)] assms(2) by simp
  define arr where "arr = concat (map uuid_text ids) @ drop (length ids * 36) out"
  have run: "\<exists>g'. chronoid_uuidv7_string_batch B hex ssse3 g ids out (length ids) = Done (arr, g')"
    using uuidv7_batch_runs [OF wf refl _ assms(4,5), of out ssse3] assms(3) by (simp add: arr_def)
  note s = uuid_texts.run_slots [OF assms(1,2) arr_def]
  have "length arr = length out"
    using uuid_scalar.texts_length [OF wf] assms(3) by (simp add: arr_def)
  then have "length (buf_get arr (i * 36) 36) = 36" if "i < length ids" for i
    using that assms(3) by (simp add: len_simps)
  then have "\<forall>i < length ids. chronoid_uuidv7_parse tmp tmp2 u (buf_get arr (i * 36) 36) 36 = (CHRONOID_UUIDV7_OK, ids ! i)"
    using s(2) assms(6-8) by (simp add: uuid_parse_refines)
  then show ?thesis using run s(1) by blast
qed

text \<open>Two calls of the sample sequence.\<close>

definition sample_calls :: "unit useq_call list" where
  "sample_calls = replicate 2 \<lparr>call_cfg = sample_cfg, call_env = sample_env, call_world = const_world, call_two = [0, 0],
     call_ctr = 0, call_tail = replicate 8 0, call_out = CHRONOID_UUIDV7_NIL\<rparr>"

lemma gen_run_length: "length (fst (gen_run step is s)) \<le> length is"
proof (induction "is" arbitrary: s)
  case Nil
  then show ?case by simp
next
  case (Cons i "is")
  obtain r s1 where st: "step i s = (r, s1)" by fastforce
  have "length (fst (gen_run step is s1)) \<le> length is" by (rule Cons.IH)
  then show ?case using st by (auto split: prod.splits option.splits)
qed

lemma uuidv7_sequence_texts_witness:
  "\<exists>arr g'. chronoid_uuidv7_string_batch sample_batch_env (replicate 128 7) True Init_trampoline
      (fst (gen_run useq_step sample_calls sample_useq)) (replicate 72 0) (length (fst (gen_run useq_step sample_calls sample_useq)))
      = Done (arr, g')
    \<and> sorted_wrt (<) (map (\<lambda>i. buf_get arr (i * 36) 36) [0..<length (fst (gen_run useq_step sample_calls sample_useq))])"
proof -
  have "length (fst (gen_run useq_step sample_calls sample_useq)) * 36 \<le> length (replicate 72 0 :: u8 list)"
    using gen_run_length [of useq_step sample_calls sample_useq] by (simp add: sample_calls_def)
  from uuidv7_sequence_texts [OF sample_useq_ok refl this, of "replicate 128 7" Init_trampoline sample_batch_env
      "replicate 16 0" "replicate 16 0" CHRONOID_UUIDV7_NIL True] show ?thesis by auto
qed



end
