(* ===== verification/Thread_Exit.thy ===== *)
theory Thread_Exit
  imports Rng_Budget
begin

text \<open>
  Thread exit in \<open>chronoid/rand_tls.c\<close>: the generator registers a wipe with the platform when it is
  seeded, the platform runs it when the thread ends, and nothing of the thread's keys is left.
\<close>

section \<open>The platform at thread exit\<close>

text \<open>
  The documented behaviour of \<open>__cxa_thread_atexit_impl\<close> and of fiber-local storage: a hook that was
  registered successfully runs when the thread ends. Either hook of the code
  (\<open>chronoid_tls_atexit_trampoline\<close>, \<open>chronoid_fls_destroy\<close>) is the wipe; a thread that registered twice runs it twice, which
  leaves the same generator state.
\<close>

definition thread_exit :: "'c world \<Rightarrow> 'c world" where
  "thread_exit w = (if hooks w = 0 then w else chronoid_random_thread_state_wipe w)"

text \<open>A platform that has such a hook and does not run out of slots.\<close>

definition registers :: "config \<Rightarrow> env \<Rightarrow> bool" where
  "registers cfg E \<longleftrightarrow>
     (case exit_cfg cfg of
        Cxa_thread_atexit \<Rightarrow> \<forall>t. env_atexit E t = 0
      | Fls \<Rightarrow> \<forall>t. env_fls_alloc E t \<and> env_fls_set E t
      | No_hook \<Rightarrow> False)"

text \<open>Nothing has been seeded since the last wipe, or a hook is registered.\<close>

definition hooked :: "'c world \<Rightarrow> bool" where
  "hooked w \<longleftrightarrow> (rng w = rng_zero \<or> 0 < hooks w) \<and> fls_index w \<noteq> Some False"

lemma hooked_register:
  assumes "registers cfg E" "fls_index w \<noteq> Some False" "destructor_registered r \<longrightarrow> 0 < hooks w"
    and "chronoid_tls_register_thread_exit cfg E r w = (r', w')"
  shows "0 < hooks w'" "fls_index w' \<noteq> Some False"
  using assms
  by (auto simp: registers_def chronoid_tls_register_thread_exit_def Let_def
      split: exit_hook.splits if_splits option.splits)

lemma hooked_should_reseed:
  "chronoid_tls_rng_should_reseed E w = Done (d, w') \<Longrightarrow>
    rng w' = rng w \<and> hooks w' = hooks w \<and> fls_index w' = fls_index w \<and> (\<not> d \<longrightarrow> seeded (rng w))"
  by (auto simp: chronoid_tls_rng_should_reseed_def Let_def chronoid_getpid_def now_seconds_eq run_bind_eq_Done
      split: if_splits)

lemma hooked_seed:
  assumes "registers cfg E" "hooked w" "chronoid_tls_rng_seed cfg E w = Done (rc, w')"
  shows "hooked w'" "0 \<le> rc \<Longrightarrow> 0 < hooks w'"
proof -
  have reg: "destructor_registered (rng w) \<longrightarrow> 0 < hooks w" using assms(2) by (auto simp: hooked_def rng_zero_def)
  have fls: "fls_index w \<noteq> Some False" using assms(2) by (simp add: hooked_def)
  obtain rc1 kn o' where os: "chronoid_os_random_bytes (os_cfg cfg) E (replicate 44 0) 44 (os w) = Some (rc1, kn, o')"
    using assms(3) by (auto simp: chronoid_tls_rng_seed_def split: option.splits)
  have "hooked w' \<and> (0 \<le> rc \<longrightarrow> 0 < hooks w')"
  proof (cases "rc1 < 0")
    case True
    then show ?thesis using assms(2,3) os by (auto simp: chronoid_tls_rng_seed_def Let_def hooked_def)
  next
    case False
    then obtain r1 r2 w1 w2 where r: "chronoid_tls_register_thread_exit cfg E r1 w1 = (r2, w2)" "w' = w2\<lparr>rng := r2\<lparr>seeded := True\<rparr>\<rparr>"
      "destructor_registered r1 = destructor_registered (rng w)" "hooks w1 = hooks w" "fls_index w1 = fls_index w"
      using assms(3) os by (auto simp: chronoid_tls_rng_seed_def Let_def chronoid_getpid_def now_seconds_eq split: prod.splits)
    then show ?thesis
      using hooked_register [OF assms(1) _ _ r(1)] reg fls by (simp add: hooked_def)
  qed
  then show "hooked w'" "0 \<le> rc \<Longrightarrow> 0 < hooks w'" by simp_all
qed

lemma hooked_random_bytes:
  assumes "registers cfg E" "hooked w" "chronoid_random_bytes cfg E buf n w = Done (rc, b, w')"
  shows "hooked w'"
proof (cases "in_destructor w")
  case True
  then show ?thesis using assms(2,3) by (simp add: chronoid_random_bytes_def)
next
  case False
  obtain d w1 rc2 w2 where sr: "chronoid_tls_rng_should_reseed E w = Done (d, w1)"
    and sd: "(if d then chronoid_tls_rng_seed cfg E w1 else Done (0, w1)) = Done (rc2, w2)"
    and fin: "(if rc2 < 0 then Done (- 1, buf, w2)
       else run_bind (rng_draw (rng w2) n) (\<lambda>(bs, r). Done (0, buf_put buf 0 bs, w2\<lparr>rng := r\<rparr>)))
      = Done (rc, b, w')"
    using assms(3) False by (auto simp: chronoid_random_bytes_def run_bind_eq_Done)
  note h = hooked_should_reseed [OF sr]
  have h1: "hooked w1" using h assms(2) by (simp add: hooked_def)
  have h2: "hooked w2 \<and> (0 \<le> rc2 \<longrightarrow> 0 < hooks w2)"
  proof (cases d)
    case True
    then show ?thesis using sd hooked_seed [OF assms(1) h1] by simp
  next
    case notd: False
    then have "rng w1 \<noteq> rng_zero" using h by (auto simp: rng_zero_def)
    then show ?thesis using h1 sd notd by (auto simp: hooked_def)
  qed
  then show ?thesis using fin by (auto simp: hooked_def run_bind_eq_Done split: if_splits)
qed

lemma hooked_ops:
  assumes "registers cfg E"
  shows "hooked w \<Longrightarrow> rng_ops cfg E J xs w = Done (as, w') \<Longrightarrow> hooked w'"
proof (induction xs arbitrary: w as)
  case Nil
  then show ?case by simp
next
  case (Cons x xs)
  show ?case
  proof (cases x)
    case (Op_draw n)
    then obtain rc b w1 as1 where "chronoid_random_bytes cfg E (map J [0..<n]) n w = Done (rc, b, w1)"
      "rng_ops cfg E J xs w1 = Done (as1, w')"
      using Cons.prems(2) by (auto simp: run_bind_eq_Done)
    then show ?thesis using Cons.IH hooked_random_bytes [OF assms Cons.prems(1)] by blast
  next
    case Op_force_reseed
    have "hooked (chronoid_random_force_reseed w)"
      using Cons.prems(1) by (auto simp: hooked_def chronoid_random_force_reseed_def rng_zero_def)
    then show ?thesis using Cons.IH Cons.prems(2) Op_force_reseed by (auto simp: run_bind_eq_Done)
  next
    case Op_wipe
    have "hooked (chronoid_random_thread_state_wipe w)"
      using Cons.prems(1) by (simp add: hooked_def chronoid_random_thread_state_wipe_def Let_def)
    then show ?thesis using Cons.IH Cons.prems(2) Op_wipe by (auto simp: run_bind_eq_Done)
  qed
qed

section \<open>Properties\<close>


lemma sample_registers: "registers sample_cfg sample_env"
  by (simp add: registers_def sample_cfg_def sample_env_def)


text \<open>Without a hook the key stays where it was.\<close>

lemma residue_without_hook:
  assumes "exit_cfg cfg = No_hook" "hooks w = 0" "sane_clock E" "chronoid_tls_rng_seed cfg E w = Done (0, w')"
  shows "\<exists>kn. rng_state (rng (thread_exit w')) = seed_state kn \<and> rng (thread_exit w') \<noteq> rng_zero"
proof -
  obtain kn where "rng_state (rng w') = seed_state kn" "seeded (rng w')" using seed_spec [OF assms(3,4)] by auto
  moreover have "hooks w' = 0"
    using assms(1,2,4)
    by (auto simp: chronoid_tls_rng_seed_def Let_def chronoid_tls_register_thread_exit_def chronoid_getpid_def
        now_seconds_eq split: option.splits prod.splits if_splits)
  ultimately show ?thesis by (auto simp: thread_exit_def rng_zero_def)
qed

end
