(* ===== verification/Spec2Isabelle.thy ===== *)
theory Spec2Isabelle
  imports Ksuid_Sequence Uuidv7_Sequence Chacha20_Rfc Encode_Batch Hex_Batch Cli_Behaviour Cli_Time
    Rng_Budget Override Threads Pipeline Thread_Exit
begin

text \<open>
  libchronoid: time-ordered identifiers in C. The library makes, parses, formats and compares two
  kinds of identifier, the 20-byte KSUID and the 16-byte UUIDv7, and the program
  \<open>examples/chronoid-gen.c\<close> is its command line. Paths below are relative to \<open>src/\<close>.

  \<^bold>\<open>The parts and how they fit.\<close>
  An identifier is an array of bytes whose front is a big-endian time and whose rest is random, so
  that the order of the bytes is the order of creation. The codecs (base 62 for KSUIDs, hexadecimal
  with hyphens for UUIDv7s) turn the bytes into text and back, with vector kernels chosen when the
  library is compiled; the batch encoders do it for arrays, with an AVX2 kernel chosen when it first
  runs. The generators take the clock and a random source: the override a caller has installed, or a
  ChaCha20 generator per thread, which is seeded from the operating system and reseeded by a rule.
  Two sequences hand out ascending identifiers: 65536 KSUIDs that share a seed, and UUIDv7s with a
  counter that survives clocks that go backwards.

  \<^bold>\<open>Theories and code.\<close>
  \<^item> \<open>Prelude\<close>: machine types, outcomes, checked array accesses, positional numerals.
  \<^item> \<open>Byteorder\<close>: \<open>chronoid/byteorder.h\<close>.
  \<^item> \<open>Ksuid_Types\<close>, \<open>Uuidv7_Types\<close>: the values, error codes and sentinels of \<open>ksuid.h\<close> and \<open>uuidv7.h\<close>.
  \<^item> \<open>Long_Division\<close>, \<open>Base62\<close>, \<open>Simd\<close>, \<open>Base62_Simd\<close>: \<open>ksuid/base62*.c\<close>; the locale \<open>b62_kernel\<close> is what
    the decoder needs of a translate kernel, and scalar, SSE2 and NEON kernels are interpretations.
  \<^item> \<open>Compare\<close>: \<open>ksuid/compare_*.c\<close>, with the locale \<open>compare_kernel\<close>.
  \<^item> \<open>Codec\<close>: the laws of a textual form (locales \<open>id_codec\<close>, \<open>ordered_codec\<close>, \<open>canonical_codec\<close>).
  \<^item> \<open>Ksuid\<close>, \<open>Uuidv7\<close>: \<open>ksuid/ksuid.c\<close> and \<open>uuidv7/uuidv7.c\<close> without the generators; \<open>Hex\<close>: \<open>uuidv7/hex.c\<close>
    and \<open>hex_ssse3.c\<close>.
  \<^item> \<open>Generator\<close>: the contract of a monotone generator (a locale); \<open>Ksuid_Sequence\<close> (\<open>ksuid/sequence.c\<close>) and
    \<open>Uuidv7_Sequence\<close> (\<open>uuidv7/uuidv7_sequence.c\<close>) interpret it.
  \<^item> \<open>Chacha20\<close>, \<open>Chacha20_Rfc\<close>: \<open>chacha20.c\<close> and \<open>wipe.h\<close>; \<open>Os_Entropy\<close>: \<open>rand_os.c\<close>; \<open>Rand_Tls\<close>:
    \<open>rand_tls.c\<close>; \<open>Generation\<close>: the generators and the random source they share (locale \<open>random_source\<close>).
  \<^item> \<open>Batch\<close>: what the batch encoders share, with the locale \<open>batch_kernel\<close> and the race of the first calls;
    \<open>Avx2_Div62\<close>, \<open>Encode_Batch\<close>: \<open>ksuid/encode_avx2.c\<close>, \<open>divisor_magic.h\<close>, \<open>encode_batch.c\<close>; \<open>Hex_Batch\<close>:
    \<open>uuidv7/hex_avx2.c\<close>, \<open>hex_batch.c\<close>.
  \<^item> \<open>Cli_Print\<close>, \<open>Cli\<close>, \<open>Cli_Time\<close>, \<open>Cli_Behaviour\<close>: \<open>examples/chronoid-gen.c\<close>, its output, its options and
    modes, the calendar of its time projections, and whole runs.
  \<^item> \<open>Rng_Budget\<close>: what one seed of the generator of \<open>rand_tls.c\<close> is used for, as an abstract machine of keys and
    positions that the thread's operations refine; \<open>Thread_Exit\<close>: the registered wipe and what is left behind.
  \<^item> \<open>Pipeline\<close>: a sequence, the batch encoder and the parser put together (locale \<open>text_sequence\<close>, over the
    contracts of the three).
  \<^item> \<open>Override\<close>: the two slots of \<open>chronoid_set_rand\<close> under concurrent stores and loads.
  \<^item> \<open>Client\<close>, \<open>Threads\<close>: a thread that makes any sequence of library calls, where every function of the
    headers \<open>ksuid.h\<close> and \<open>uuidv7.h\<close> is a call, and a process of any number of such threads, whose state is split into what they share and the \<open>_Thread_local\<close> rest.

  \<^bold>\<open>How the model corresponds to the code.\<close>
  Definitions have the names of the C functions. Unsigned integers are words of their width and wrap;
  signed 64-bit values are integers, and a result that does not fit is the outcome \<open>Undef\<close>, as is an
  access outside an array; \<open>Waits\<close> is a loop that the environment never lets go. An output parameter is
  passed with its old value and returned with its new one; an uninitialised array is a parameter.
  An error is a value of the error types of the headers. What the code asks the outside for is a
  parameter: the record \<open>env\<close> gives the answer of the system to the \<open>n\<close>-th request (entropy, clock,
  process number), \<open>config\<close> the build probes, \<open>batch_env\<close> the processor and the environment variable,
  \<open>machine\<close> what the command line finds around it, the zone database included. The state of a thread
  and the process-wide slots are the record \<open>world\<close>, threaded through every call. Vector intrinsics
  have their documented meaning, lane by lane; of the C library, \<open>memcmp\<close>, \<open>strtol\<close>, the calendar,
  \<open>strftime\<close> and the conversions of \<open>printf\<close> are defined as the standard has them.

  \<^bold>\<open>What is shown.\<close>
  Codecs: every routine stays in its arrays and computes positional numerals, so formatting and
  parsing are inverse, exactly the described texts parse, errors leave the output untouched, and
  texts sort as identifiers do, on every build. Batches: whichever kernel runs, each slot is what
  formatting alone writes; the AVX2 division by 62 is exact on all 64-bit values; concurrent first
  calls cannot disagree. Sequences: the KSUID run is 0 to 65535 and then refuses; the UUIDv7
  sequence refines an abstract machine and ascends strictly whatever the clock and the random source
  do; what either hands out is written in batches as ascending texts that parse back. Randomness: draws are segments of one keystream
  that is erased behind them, the fall-through of the entropy sources, the test vector of RFC 8439;
  a thread's generator refines an abstract machine of keys and positions, which has the whole
  reseed policy: a key is used while it has yielded less than a mebibyte, in the process that took it and within the hour,
  each position of its keystream once, and its block counter does not wrap; after a thread
  has ended nothing of its keys is left where the platform has a hook.
  Generators: every input, the
  undefined ones included. The override: its halves are never the initial null context, and are
  the installed pair when callers keep the contract of the header. The whole library: no calls of any number of
  threads, within the stated preconditions and interleaved in any way,
  do anything undefined or leave an object ill-formed, and a thread's random bytes do not depend
  on the other threads. Command line: every run ends with a status that matches its error
  stream, parse mode prints exactly the valid prefix of its arguments, generation prints exactly
  what was asked for, its output is accepted back, and the dates it prints are the dates of the
  identifiers.

  \<^bold>\<open>Bounds and fuel.\<close>
  Loops with a bound in the code are structural recursions or folds over it; the loops that retry
  an interrupted system call are partial functions, and that they return is proved for systems that
  stop interrupting from some request on (\<open>calm\<close>). A sane clock (\<open>sane_clock\<close>) shows seconds in
  0 to \<open>2^53\<close> and nanoseconds below \<open>10^9\<close>. No fuel is used.

  \<^bold>\<open>Not modelled.\<close>
  The memory orders of the atomics (\<open>Batch\<close> and \<open>Override\<close> interleave single loads and stores, \<open>Threads\<close>
  whole calls);
  the instruction-set transition hint \<open>zeroupper\<close>; that a compiler does not remove the wipe of a dead
  array; write errors of the command line's streams, and the Windows console modes; \<open>chronoid.h\<close>
  (include directives), the tests, build files, tools and documentation, which hold no code of the
  library.
\<close>

end
